(* ===== verification/Base.thy ===== *)
theory Base
  imports Main
begin

text \<open>
  Shared vocabulary of the development.

  A table of the order database is a list of row records. The SQL of the program is read over
  it: \<open>SELECT .. WHERE\<close> is \<^const>\<open>List.find\<close> (one row) or \<^const>\<open>filter\<close> (many),
  \<open>UPDATE .. WHERE\<close> is \<open>update_where\<close>, \<open>DELETE .. WHERE\<close> is \<open>delete_where\<close>,
  \<open>INSERT\<close> appends, the affected-rows count is \<open>count_where\<close>. Times and durations are
  integers in nanoseconds, as Go's \<open>time.Duration\<close>; money is an integer number of hundredths,
  which is what a \<open>NUMERIC(_,2)\<close> column holds.
  The theory also has decimal printing (\<open>%d\<close>) with its injectivity, which the identifiers
  \<open>ch_%d\<close>, \<open>rf_%d\<close> and \<open>refund-%d\<close> rest on.
\<close>

named_theorems table_simps \<open>how the table operations act on lookups, keys and counts\<close>

type_synonym time = int
type_synonym money = int

abbreviation (input) milliseconds :: "int \<Rightarrow> int" where
  "milliseconds n \<equiv> n * 1000000"

abbreviation (input) seconds :: "int \<Rightarrow> int" where
  "seconds n \<equiv> n * 1000000000"

abbreviation (input) minutes :: "int \<Rightarrow> int" where
  "minutes n \<equiv> n * 60000000000"

abbreviation (input) hours :: "int \<Rightarrow> int" where
  "hours n \<equiv> n * 3600000000000"

section \<open>Tables\<close>

definition update_where :: "('r \<Rightarrow> bool) \<Rightarrow> ('r \<Rightarrow> 'r) \<Rightarrow> 'r list \<Rightarrow> 'r list" where
  "update_where p f t = map (\<lambda>r. if p r then f r else r) t"

definition delete_where :: "('r \<Rightarrow> bool) \<Rightarrow> 'r list \<Rightarrow> 'r list" where
  "delete_where p t = filter (\<lambda>r. \<not> p r) t"

definition count_where :: "('r \<Rightarrow> bool) \<Rightarrow> 'r list \<Rightarrow> nat" where
  "count_where p t = length (filter p t)"

definition exists_where :: "('r \<Rightarrow> bool) \<Rightarrow> 'r list \<Rightarrow> bool" where
  "exists_where p t = list_ex p t"

lemma update_where_Nil [simp]: "update_where p f [] = []"
  by (simp add: update_where_def)

lemma update_where_Cons [simp]:
  "update_where p f (r # t) = (if p r then f r else r) # update_where p f t"
  by (simp add: update_where_def)

lemma update_where_append [table_simps]:
  "update_where p f (s @ t) = update_where p f s @ update_where p f t"
  by (simp add: update_where_def)

lemma length_update_where [simp]: "length (update_where p f t) = length t"
  by (simp add: update_where_def)

lemma set_update_where [table_simps]:
  "set (update_where p f t) = (\<lambda>r. if p r then f r else r) ` set t"
  by (simp add: update_where_def)

lemma map_update_where [table_simps]:
  "(\<And>r. p r \<Longrightarrow> k (f r) = k r) \<Longrightarrow> map k (update_where p f t) = map k t"
  by (simp add: update_where_def)

lemma update_where_none [table_simps]:
  "\<not> exists_where p t \<Longrightarrow> update_where p f t = t"
  by (induction t) (auto simp: exists_where_def)

lemma bex_update_where [table_simps]:
  "(\<And>r. k (f r) = k r) \<Longrightarrow> (\<exists>r\<in>set (update_where p f t). k r = x) \<longleftrightarrow> (\<exists>r\<in>set t. k r = x)"
  by (induction t) auto

lemma bex_update_iff:
  "(\<exists>r\<in>set (update_where p f t). Q r) \<longleftrightarrow> (\<exists>r\<in>set t. if p r then Q (f r) else Q r)"
  by (induction t) auto

lemma ball_update_iff:
  "(\<forall>r\<in>set (update_where p f t). Q r) \<longleftrightarrow> (\<forall>r\<in>set t. if p r then Q (f r) else Q r)"
  by (induction t) auto

lemma exists_where_iff [simp]: "exists_where p t \<longleftrightarrow> (\<exists>r\<in>set t. p r)"
  by (auto simp: exists_where_def list_ex_iff)

lemma count_where_zero [table_simps]: "count_where p t = 0 \<longleftrightarrow> (\<forall>r\<in>set t. \<not> p r)"
  by (auto simp: count_where_def filter_empty_conv)

lemma count_where_pos [table_simps]: "0 < count_where p t \<longleftrightarrow> (\<exists>r\<in>set t. p r)"
  using count_where_zero [of p t] by auto

lemma set_delete_where [table_simps]: "set (delete_where p t) = {r \<in> set t. \<not> p r}"
  by (auto simp: delete_where_def)

lemma find_Some_in: "List.find p t = Some r \<Longrightarrow> r \<in> set t \<and> p r"
  by (induction t) (auto split: if_splits)

lemma find_None_iff_ball: "List.find p t = None \<longleftrightarrow> (\<forall>r\<in>set t. \<not> p r)"
  by (induction t) auto

lemma find_append:
  "List.find p (s @ t) = (case List.find p s of None \<Rightarrow> List.find p t | Some r \<Rightarrow> Some r)"
  by (induction s) auto

text \<open>A lookup by primary key after an update that keeps the key.\<close>

lemma find_update_where:
  assumes "\<And>r. k (f r) = k r"
  shows "List.find (\<lambda>r. k r = x) (update_where p f t) =
    map_option (\<lambda>r. if p r then f r else r) (List.find (\<lambda>r. k r = x) t)"
  using assms by (induction t) auto

text \<open>The rows of a table with a primary key: two rows with one key are the same row.\<close>

lemma distinct_key_eq:
  "distinct (map k t) \<Longrightarrow> r \<in> set t \<Longrightarrow> s \<in> set t \<Longrightarrow> k r = k s \<Longrightarrow> r = s"
  by (simp add: distinct_map inj_on_def)

lemma head_key_neq: "k x \<notin> k ` set t \<Longrightarrow> y \<in> set t \<Longrightarrow> k y \<noteq> k x"
  by (metis image_eqI)

lemma find_key_unique:
  "distinct (map k t) \<Longrightarrow> r \<in> set t \<Longrightarrow> List.find (\<lambda>s. k s = k r) t = Some r"
  by (induction t) force+

section \<open>Printing numbers\<close>

fun show_nat :: "nat \<Rightarrow> string" where
  "show_nat n =
     (if n < 10 then [char_of (48 + n)]
      else show_nat (n div 10) @ [char_of (48 + n mod 10)])"

declare show_nat.simps [simp del]

definition show_int :: "int \<Rightarrow> string" where
  "show_int i = (if i < 0 then ''-'' @ show_nat (nat (- i)) else show_nat (nat i))"

lemma char_of_digit_eq:
  assumes "m < 10" and "n < 10"
  shows "(char_of (48 + m) :: char) = char_of (48 + n) \<longleftrightarrow> m = (n :: nat)"
proof
  assume "(char_of (48 + m) :: char) = char_of (48 + n)"
  then have "of_char (char_of (48 + m) :: char) = (of_char (char_of (48 + n) :: char) :: nat)"
    by simp
  then show "m = n" using assms by (simp add: of_char_of)
qed simp

lemma show_nat_small: "n < 10 \<Longrightarrow> show_nat n = [char_of (48 + n)]"
  by (subst show_nat.simps) simp

lemma show_nat_large:
  "\<not> n < 10 \<Longrightarrow> show_nat n = show_nat (n div 10) @ [char_of (48 + n mod 10)]"
  by (subst show_nat.simps) simp

lemma show_nat_nonempty [simp]: "show_nat n \<noteq> []" "[] \<noteq> show_nat n"
  by (subst show_nat.simps, simp)+

lemma show_nat_inj: "show_nat m = show_nat n \<Longrightarrow> m = n"
proof (induction m arbitrary: n rule: show_nat.induct)
  case (1 m)
  show ?case
  proof (cases "m < 10"; cases "n < 10")
    assume "m < 10" "n < 10"
    then show ?thesis using "1.prems" by (simp add: show_nat_small char_of_digit_eq)
  next
    assume "m < 10" "\<not> n < 10"
    then show ?thesis using "1.prems" by (simp add: show_nat_small show_nat_large)
  next
    assume "\<not> m < 10" "n < 10"
    then show ?thesis using "1.prems" by (simp add: show_nat_small show_nat_large)
  next
    assume m: "\<not> m < 10" and n: "\<not> n < 10"
    then have "show_nat (m div 10) = show_nat (n div 10)" and "m mod 10 = n mod 10"
      using "1.prems" by (simp_all add: show_nat_large char_of_digit_eq)
    then have "m div 10 = n div 10" using "1.IH" m by blast
    with \<open>m mod 10 = n mod 10\<close> show ?thesis by (metis div_mult_mod_eq)
  qed
qed

lemma show_nat_hd: "\<exists>d < 10. hd (show_nat n) = char_of (48 + d :: nat)"
proof (induction n rule: show_nat.induct)
  case (1 n)
  show ?case
  proof (cases "n < 10")
    case True
    then show ?thesis by (auto simp: show_nat_small)
  next
    case False
    then show ?thesis using "1.IH" by (simp add: show_nat_large)
  qed
qed

lemma show_nat_no_minus: "show_nat n \<noteq> CHR ''-'' # s"
proof
  assume "show_nat n = CHR ''-'' # s"
  then obtain d where "d < 10" and "CHR ''-'' = (char_of (48 + d :: nat) :: char)"
    using show_nat_hd [of n] by auto
  then have "(of_char (CHR ''-'') :: nat) = of_char (char_of (48 + d) :: char)"
    by simp
  then show False using \<open>d < 10\<close> by (simp add: of_char_of)
qed

lemma show_int_inj [simp]: "show_int i = show_int j \<longleftrightarrow> i = j"
proof
  assume eq: "show_int i = show_int j"
  show "i = j"
  proof (cases "i < 0"; cases "j < 0")
    assume "i < 0" "j < 0"
    then show ?thesis using eq show_nat_inj [of "nat (- i)" "nat (- j)"] by (simp add: show_int_def)
  next
    assume "\<not> i < 0" "\<not> j < 0"
    then show ?thesis using eq show_nat_inj [of "nat i" "nat j"] by (simp add: show_int_def)
  next
    assume "i < 0" "\<not> j < 0"
    then show ?thesis using eq show_nat_no_minus [of "nat j", symmetric] by (simp add: show_int_def)
  next
    assume "\<not> i < 0" "j < 0"
    then show ?thesis using eq show_nat_no_minus [of "nat i"] by (simp add: show_int_def)
  qed
qed simp

end
