(* ===== verification/GoError.thy ===== *)
theory GoError
  imports Base
begin

text \<open>
  Go error values. A sentinel (\<open>errors.New\<close> at package level) is compared by identity; an error
  made inside a function has only its text; \<open>fmt.Errorf\<close> with \<open>%w\<close> makes a \<open>Wrap\<close>, which holds the
  full text and the wrapped error; a Postgres error carries its SQLSTATE, the violated constraint
  and the text that the driver prints. \<open>ProcessExit\<close> stands for \<open>os.Exit\<close>: the process is gone and nobody
  sees a value. \<open>errors_is\<close> and \<open>as_pg_error\<close> walk the chain of wrapped
  errors as \<open>errors.Is\<close> and \<open>errors.As\<close> do. The sentinels are those of \<open>domain/errors.go\<close>,
  \<open>domain/payment.go\<close>, \<open>payment/fake_provider.go\<close>, \<open>cache/redis.go\<close> and \<open>breaker/breaker.go\<close>.
\<close>

datatype sentinel =
    ErrOrderNotFound
  | ErrProductNotFound
  | ErrInsufficientStock
  | ErrInvalidStatusTransition
  | ErrOrderAlreadyCancelled
  | ErrInvalidCursor
  | ErrOffsetNotSupported
  | ErrPaymentDeclined
  | ErrPaymentAlreadyActive
  | ErrPaymentTransition
  | ErrPaymentNotFound
  | ErrPaymentInProgress
  | ErrDeclined
  | ErrProviderUnavailable
  | ErrCacheMiss
  | ErrCacheUnavailable
  | ErrBreakerOpen

datatype gerr =
    Sentinel sentinel
  | Canceled
  | DeadlineExceeded
  | NoRows
  | RedisNil
  | PgError (pg_code: string) (pg_constraint: string) (pg_text: string)
  | NewError string
  | ProcessExit
  | Wrap string gerr

primrec sentinel_text :: "sentinel \<Rightarrow> string" where
  "sentinel_text ErrOrderNotFound = ''order not found''"
| "sentinel_text ErrProductNotFound = ''product not found''"
| "sentinel_text ErrInsufficientStock = ''insufficient stock''"
| "sentinel_text ErrInvalidStatusTransition = ''invalid status transition''"
| "sentinel_text ErrOrderAlreadyCancelled = ''order already cancelled''"
| "sentinel_text ErrInvalidCursor = ''invalid cursor''"
| "sentinel_text ErrOffsetNotSupported = ''offset is not supported, use after_id for pagination''"
| "sentinel_text ErrPaymentDeclined = ''payment declined''"
| "sentinel_text ErrPaymentAlreadyActive = ''order already has an active payment''"
| "sentinel_text ErrPaymentTransition = ''invalid payment state transition''"
| "sentinel_text ErrPaymentNotFound = ''payment not found''"
| "sentinel_text ErrPaymentInProgress = ''order has a payment in progress, retry later''"
| "sentinel_text ErrDeclined = ''payment declined by provider''"
| "sentinel_text ErrProviderUnavailable = ''provider unavailable''"
| "sentinel_text ErrCacheMiss = ''cache miss''"
| "sentinel_text ErrCacheUnavailable = ''cache unavailable: circuit open''"
| "sentinel_text ErrBreakerOpen = ''circuit breaker is open''"

primrec error_text :: "gerr \<Rightarrow> string" where
  "error_text (Sentinel s) = sentinel_text s"
| "error_text Canceled = ''context canceled''"
| "error_text DeadlineExceeded = ''context deadline exceeded''"
| "error_text NoRows = ''no rows in result set''"
| "error_text RedisNil = ''redis: nil''"
| "error_text (PgError c k t) = t"
| "error_text (NewError t) = t"
| "error_text ProcessExit = ''exit status 1''"
| "error_text (Wrap t e) = t"

text \<open>\<open>fmt.Errorf(pre + "%w" + post, e)\<close>\<close>

definition errorf_w :: "string \<Rightarrow> gerr \<Rightarrow> string \<Rightarrow> gerr" where
  "errorf_w pre e post = Wrap (pre @ error_text e @ post) e"

primrec errors_is :: "gerr \<Rightarrow> gerr \<Rightarrow> bool" where
  "errors_is (Sentinel s) t \<longleftrightarrow> Sentinel s = t"
| "errors_is Canceled t \<longleftrightarrow> Canceled = t"
| "errors_is DeadlineExceeded t \<longleftrightarrow> DeadlineExceeded = t"
| "errors_is NoRows t \<longleftrightarrow> NoRows = t"
| "errors_is RedisNil t \<longleftrightarrow> RedisNil = t"
| "errors_is (PgError c k x) t \<longleftrightarrow> PgError c k x = t"
| "errors_is (NewError x) t \<longleftrightarrow> NewError x = t"
| "errors_is ProcessExit t \<longleftrightarrow> ProcessExit = t"
| "errors_is (Wrap x e) t \<longleftrightarrow> Wrap x e = t \<or> errors_is e t"

primrec as_pg_error :: "gerr \<Rightarrow> (string \<times> string) option" where
  "as_pg_error (Sentinel s) = None"
| "as_pg_error Canceled = None"
| "as_pg_error DeadlineExceeded = None"
| "as_pg_error NoRows = None"
| "as_pg_error RedisNil = None"
| "as_pg_error (PgError c k x) = Some (c, k)"
| "as_pg_error (NewError x) = None"
| "as_pg_error ProcessExit = None"
| "as_pg_error (Wrap x e) = as_pg_error e"

definition is_unique_violation :: "gerr \<Rightarrow> string \<Rightarrow> bool" where
  "is_unique_violation err constraint =
     (case as_pg_error err of
        None \<Rightarrow> False
      | Some (code, k) \<Rightarrow> code = ''23505'' \<and> k = constraint)"

lemma errors_is_refl [simp]: "errors_is e e"
  by (cases e) simp_all

lemma errors_is_errorf_w [simp]: "errors_is (errorf_w pre e post) (Sentinel s) = errors_is e (Sentinel s)"
  by (simp add: errorf_w_def)

lemma error_text_errorf_w [simp]: "error_text (errorf_w pre e post) = pre @ error_text e @ post"
  by (simp add: errorf_w_def)

lemma as_pg_error_errorf_w [simp]: "as_pg_error (errorf_w pre e post) = as_pg_error e"
  by (simp add: errorf_w_def)

end
