(* ===== verification/Domain.thy ===== *)
theory Domain
  imports GoError
begin

text \<open>
  \<open>internal/domain\<close>: orders, products, payments and their two status automata
  (\<open>order.go\<close>, \<open>payment.go\<close>).

  A status is a Go string. The datatypes below have one constructor per named status and one
  (\<open>OtherStatus\<close>, \<open>OtherPayment\<close>) for every other string, so that a lookup of an unknown key in the
  transition map is a branch of the model; \<open>order_status_text\<close> and \<open>payment_status_text\<close> give the
  strings back.
\<close>

section \<open>Orders\<close>

datatype order_status = Pending | Paid | Shipped | Delivered | Cancelled | OtherStatus string

primrec order_status_text :: "order_status \<Rightarrow> string" where
  "order_status_text Pending = ''pending''"
| "order_status_text Paid = ''paid''"
| "order_status_text Shipped = ''shipped''"
| "order_status_text Delivered = ''delivered''"
| "order_status_text Cancelled = ''cancelled''"
| "order_status_text (OtherStatus s) = s"

record order_item =
  oi_id :: int
  oi_order :: int
  oi_product :: int
  oi_quantity :: int
  oi_price :: money

record order =
  ord_id :: int
  ord_status :: order_status
  ord_created :: time
  ord_items :: "order_item list"

record product =
  p_id :: int
  p_name :: string
  p_price :: money
  p_stock :: int

record create_item =
  ci_product :: int
  ci_quantity :: int

record order_cursor =
  cur_after :: int
  cur_created :: time

fun allowed_transitions :: "order_status \<Rightarrow> order_status list option" where
  "allowed_transitions Pending = Some [Paid, Cancelled]"
| "allowed_transitions Paid = Some [Shipped, Cancelled]"
| "allowed_transitions Shipped = Some [Delivered]"
| "allowed_transitions Delivered = Some []"
| "allowed_transitions Cancelled = Some []"
| "allowed_transitions (OtherStatus s) = None"

definition can_transition :: "order_status \<Rightarrow> order_status \<Rightarrow> bool" where
  "can_transition from to =
     (case allowed_transitions from of
        None \<Rightarrow> False
      | Some allowed \<Rightarrow> to \<in> set allowed)"

section \<open>Payments\<close>

datatype payment_status =
    PaymentPending
  | PaymentSucceeded
  | PaymentFailed
  | PaymentExpired
  | PaymentRefunded
  | OtherPayment string

primrec payment_status_text :: "payment_status \<Rightarrow> string" where
  "payment_status_text PaymentPending = ''pending''"
| "payment_status_text PaymentSucceeded = ''succeeded''"
| "payment_status_text PaymentFailed = ''failed''"
| "payment_status_text PaymentExpired = ''expired''"
| "payment_status_text PaymentRefunded = ''refunded''"
| "payment_status_text (OtherPayment s) = s"

fun allowed_payment_transitions :: "payment_status \<Rightarrow> payment_status list option" where
  "allowed_payment_transitions PaymentPending = Some [PaymentSucceeded, PaymentFailed, PaymentExpired]"
| "allowed_payment_transitions PaymentSucceeded = Some [PaymentRefunded]"
| "allowed_payment_transitions PaymentFailed = Some []"
| "allowed_payment_transitions PaymentExpired = Some []"
| "allowed_payment_transitions PaymentRefunded = Some []"
| "allowed_payment_transitions (OtherPayment s) = None"

text \<open>Indexing a Go map with an absent key gives the nil slice, over which the loop does not run.\<close>

definition can_transition_payment :: "payment_status \<Rightarrow> payment_status \<Rightarrow> bool" where
  "can_transition_payment from to =
     (to \<in> set (case allowed_payment_transitions from of None \<Rightarrow> [] | Some next \<Rightarrow> next))"

definition is_terminal :: "payment_status \<Rightarrow> bool" where
  "is_terminal s =
     (case allowed_payment_transitions s of None \<Rightarrow> False | Some next \<Rightarrow> next = [])"

record idempotency_claim =
  claim_owner :: bool
  claim_mismatch :: bool
  claim_busy :: bool
  claim_code :: int
  claim_body :: string

definition empty_claim :: idempotency_claim where
  "empty_claim = \<lparr>claim_owner = False, claim_mismatch = False, claim_busy = False,
     claim_code = 0, claim_body = []\<rparr>"

section \<open>The automata\<close>

lemma can_transition_iff:
  "can_transition from to \<longleftrightarrow>
     (from = Pending \<and> (to = Paid \<or> to = Cancelled)) \<or>
     (from = Paid \<and> (to = Shipped \<or> to = Cancelled)) \<or>
     (from = Shipped \<and> to = Delivered)"
  by (cases "from") (auto simp: can_transition_def)

lemma can_transition_payment_iff:
  "can_transition_payment from to \<longleftrightarrow>
     (from = PaymentPending \<and> (to = PaymentSucceeded \<or> to = PaymentFailed \<or> to = PaymentExpired)) \<or>
     (from = PaymentSucceeded \<and> to = PaymentRefunded)"
  by (cases "from") (auto simp: can_transition_payment_def)

lemma is_terminal_iff: "is_terminal s \<longleftrightarrow> s \<in> {PaymentFailed, PaymentExpired, PaymentRefunded}"
  by (cases s) (auto simp: is_terminal_def)

text \<open>A rank that every allowed payment transition increases: a payment moves at most twice.\<close>

primrec payment_rank :: "payment_status \<Rightarrow> nat" where
  "payment_rank PaymentPending = 0"
| "payment_rank PaymentSucceeded = 1"
| "payment_rank PaymentFailed = 2"
| "payment_rank PaymentExpired = 2"
| "payment_rank PaymentRefunded = 2"
| "payment_rank (OtherPayment s) = 0"

fun payment_path :: "payment_status list \<Rightarrow> bool" where
  "payment_path (a # b # ss) \<longleftrightarrow> can_transition_payment a b \<and> payment_path (b # ss)"
| "payment_path ss \<longleftrightarrow> True"

lemma payment_rank_le: "payment_rank s \<le> 2"
  by (cases s) auto

lemma payment_path_length_rank: "payment_path (s # ss) \<Longrightarrow> payment_rank s + length ss \<le> 2"
proof (induction ss arbitrary: s)
  case Nil
  then show ?case using payment_rank_le by simp
next
  case (Cons b ss)
  then have "payment_rank s < payment_rank b"
    by (auto simp: can_transition_payment_iff)
  moreover have "payment_rank b + length ss \<le> 2"
    using Cons by simp
  ultimately show ?case by simp
qed

end
