(* ===== verification/Store.thy ===== *)
theory Store
  imports Domain
begin

text \<open>
  The Postgres database of the order service (the tables of \<open>migrations/goose/*.sql\<close>) and the
  primitives by which the code reaches it.

  Postgres itself is not part of the repository. What it does with a statement of the code is the
  SQL, translated over the tables below; everything else it decides is an input of the model: the
  list \<open>events\<close> of a \<open>world\<close> holds, for each call the code makes, what other sessions did to the
  committed database just before it (\<open>env\<close>), whether the call fails (\<open>flt\<close>: \<open>Refused\<close>, not
  executed; \<open>Lost\<close>, executed but the answer did not arrive) and the value a \<open>BIGSERIAL\<close> column
  gets (\<open>fresh\<close>). The end of the list stands for quiet, fault-free calls.

  Between \<open>Begin\<close> and \<open>Commit\<close> the statements work on a private copy (\<open>db\<close>, with the committed
  state in \<open>saved\<close>): a transaction takes effect at its commit, as one step. The code takes the
  row locks (\<open>FOR UPDATE\<close>, \<open>UPDATE\<close>) and relies on the unique indexes that serialise transactions
  on one order, product, payment or key; other sessions therefore act before a transaction
  (\<open>env\<close> at its \<open>Begin\<close>), never inside it. After a failed statement a Postgres transaction is
  \<open>aborted\<close>: every further statement and the commit fail.

  \<open>trace\<close> records, in order, the effects that leave the database: commits, cache invalidations,
  Kafka messages, pauses. Reads whose rows come without an \<open>ORDER BY\<close> come in table order.
\<close>

section \<open>Rows\<close>

record order_row =
  o_id :: int
  o_status :: order_status
  o_created :: time

record idem_key =
  k_key :: string
  k_order :: int

record payment =
  pay_id :: int
  pay_order :: int
  pay_amount :: money
  pay_status :: payment_status
  pay_provider :: "string option"
  pay_key :: "string option"
  pay_created :: time
  pay_attempts :: int
  pay_next :: time
  pay_manual :: "string option"

record payment_event =
  pe_payment :: int
  pe_from :: "payment_status option"
  pe_to :: payment_status
  pe_reason :: string

datatype refund_status = RefundPending | RefundSucceeded | RefundManualReview

record refund =
  rf_id :: int
  rf_payment :: int
  rf_amount :: money
  rf_status :: refund_status
  rf_attempts :: int
  rf_next :: time
  rf_error :: "string option"
  rf_provider :: "string option"

type_synonym json_object = "(string \<times> int) list"

record outbox_row =
  ob_id :: int
  ob_aggregate :: int
  ob_type :: string
  ob_payload :: json_object
  ob_created :: time
  ob_published :: "time option"
  ob_retries :: int
  ob_failed :: "time option"

record dlq_row =
  dl_aggregate :: int
  dl_type :: string
  dl_payload :: json_object
  dl_error :: string

datatype request_status = InProgress | Completed

record pay_request =
  rq_key :: string
  rq_hash :: string
  rq_status :: request_status
  rq_code :: "int option"
  rq_body :: "string option"
  rq_locked :: time
  rq_expires :: time
  rq_created :: time

record job_lease =
  jl_name :: string
  jl_next :: time

record recon_run =
  rr_id :: int
  rr_from :: time
  rr_to :: time
  rr_started :: time
  rr_finished :: "time option"
  rr_checked :: int
  rr_matched :: int
  rr_fixed :: int
  rr_manual :: int

record recon_item =
  ri_run :: int
  ri_kind :: string
  ri_action :: string
  ri_key :: string
  ri_payment :: "int option"
  ri_order :: "int option"
  ri_our_status :: "string option"
  ri_our_amount :: "money option"
  ri_provider_status :: "string option"
  ri_provider_amount :: "money option"
  ri_provider_charge :: "string option"
  ri_note :: string

datatype charge_state = Charged | Declined

record charge =
  ch_id :: int
  ch_order :: int
  ch_amount :: money
  ch_status :: charge_state
  ch_key :: "string option"
  ch_created :: time

record provider_refund =
  pr_id :: int
  pr_key :: string
  pr_charge :: string
  pr_amount :: money

text \<open>\<open>now\<close> is the server clock that \<open>NOW()\<close> reads.\<close>

record database =
  now :: time
  products :: "product list"
  orders :: "order_row list"
  order_items :: "order_item list"
  idem_keys :: "idem_key list"
  payments :: "payment list"
  payment_events :: "payment_event list"
  refunds :: "refund list"
  pay_requests :: "pay_request list"
  outbox :: "outbox_row list"
  outbox_dlq :: "dlq_row list"
  job_leases :: "job_lease list"
  recon_runs :: "recon_run list"
  recon_items :: "recon_item list"
  charges :: "charge list"
  provider_refunds :: "provider_refund list"
  provider_down :: "bool option"

section \<open>The world a call runs in\<close>

datatype fault = NoFault | Refused gerr | Lost gerr

record event =
  env :: "database \<Rightarrow> database"
  flt :: fault
  fresh :: nat

definition quiet_event :: event where
  "quiet_event = \<lparr>env = (\<lambda>d. d), flt = NoFault, fresh = 0\<rparr>"

record order_message =
  om_order_id :: int
  om_event :: string
  om_created_at :: time

datatype effect =
    EffCommit
  | EffInvalidate int
  | EffKafka order_message
  | EffSleep time

record world =
  db :: database
  saved :: "database option"
  aborted :: bool
  events :: "event list"
  trace :: "effect list"

type_synonym 'a act = "world \<Rightarrow> (gerr + 'a) \<times> world"
type_synonym 'a sql = "nat \<Rightarrow> database \<Rightarrow> gerr + ('a \<times> database)"

text \<open>The freshly migrated database, and a session on a database in which nothing goes wrong.\<close>

definition empty_db :: database where
  "empty_db = \<lparr>now = 0, products = [], orders = [], order_items = [], idem_keys = [], payments = [],
     payment_events = [], refunds = [], pay_requests = [], outbox = [], outbox_dlq = [],
     job_leases = [], recon_runs = [], recon_items = [], charges = [], provider_refunds = [], provider_down = Some False\<rparr>"

definition quiet_world :: "database \<Rightarrow> world" where
  "quiet_world d = \<lparr>db = d, saved = None, aborted = False, events = [], trace = []\<rparr>"

text \<open>What the driver and the server report is never one of the program's own sentinels.\<close>

definition foreign :: "gerr \<Rightarrow> bool" where
  "foreign e \<longleftrightarrow> (\<forall>s. \<not> errors_is e (Sentinel s))"

definition driver_fault :: "fault \<Rightarrow> bool" where
  "driver_fault f \<longleftrightarrow> (case f of NoFault \<Rightarrow> True | Refused e \<Rightarrow> foreign e | Lost e \<Rightarrow> foreign e)"

definition next_event :: "world \<Rightarrow> event" where
  "next_event w = (case events w of [] \<Rightarrow> quiet_event | e # es \<Rightarrow> e)"

abbreviation pop :: "world \<Rightarrow> world" where
  "pop w \<equiv> w\<lparr>events := tl (events w)\<rparr>"

definition ret :: "'a \<Rightarrow> 'a act" where
  "ret a w = (Inr a, w)"

definition fail :: "gerr \<Rightarrow> 'a act" where
  "fail e w = (Inl e, w)"

text \<open>\<open>x, err := m; if err != nil { h(err) }; k(x)\<close>\<close>

definition attempt :: "'a act \<Rightarrow> (gerr \<Rightarrow> 'b act) \<Rightarrow> ('a \<Rightarrow> 'b act) \<Rightarrow> 'b act" where
  "attempt m h k w = (case m w of (Inl e, w') \<Rightarrow> h e w' | (Inr a, w') \<Rightarrow> k a w')"

text \<open>A result with its error as a value, where the code looks at both and goes on.\<close>

definition result_of :: "'a act \<Rightarrow> (gerr + 'a) act" where
  "result_of m = attempt m (\<lambda>e. ret (Inl e)) (\<lambda>a. ret (Inr a))"

text \<open>The error of a call whose answer was lost comes from the connection or the context, never
  from the server.\<close>

definition lost_error :: "gerr \<Rightarrow> gerr" where
  "lost_error e = (if as_pg_error e = None then e else NewError (error_text e))"

definition tx_aborted :: gerr where
  "tx_aborted = PgError ''25P02'' []
     ''current transaction is aborted, commands ignored until end of transaction block''"

definition tx_commit_rollback :: gerr where
  "tx_commit_rollback = NewError ''commit unexpectedly resulted in rollback''"

text \<open>One SQL statement, on the pool (its own transaction) or in the open transaction.\<close>

definition stmt :: "'a sql \<Rightarrow> 'a act" where
  "stmt f w =
     (let ev = next_event w in
      case saved w of
        None \<Rightarrow>
          (let d = env ev (db w) in
           case flt ev of
             NoFault \<Rightarrow>
               (case f (fresh ev) d of
                  Inl e \<Rightarrow> (Inl e, (pop w)\<lparr>db := d\<rparr>)
                | Inr (a, d') \<Rightarrow> (Inr a, (pop w)\<lparr>db := d'\<rparr>))
           | Refused e \<Rightarrow> (Inl e, (pop w)\<lparr>db := d\<rparr>)
           | Lost e \<Rightarrow>
               (case f (fresh ev) d of
                  Inl _ \<Rightarrow> (Inl (lost_error e), (pop w)\<lparr>db := d\<rparr>)
                | Inr (a, d') \<Rightarrow> (Inl (lost_error e), (pop w)\<lparr>db := d'\<rparr>)))
      | Some _ \<Rightarrow>
          if aborted w then (Inl tx_aborted, w)
          else
            (case flt ev of
               NoFault \<Rightarrow>
                 (case f (fresh ev) (db w) of
                    Inl e \<Rightarrow> (Inl e, (pop w)\<lparr>aborted := True\<rparr>)
                  | Inr (a, d') \<Rightarrow> (Inr a, (pop w)\<lparr>db := d'\<rparr>))
             | Refused e \<Rightarrow> (Inl e, (pop w)\<lparr>aborted := True\<rparr>)
             | Lost e \<Rightarrow> (Inl e, (pop w)\<lparr>aborted := True\<rparr>)))"

definition begin_tx :: "unit act" where
  "begin_tx w =
     (let ev = next_event w; d = env ev (db w) in
      case flt ev of
        NoFault \<Rightarrow> (Inr (), (pop w)\<lparr>db := d, saved := Some d, aborted := False\<rparr>)
      | Refused e \<Rightarrow> (Inl e, (pop w)\<lparr>db := d\<rparr>)
      | Lost e \<Rightarrow> (Inl e, (pop w)\<lparr>db := d\<rparr>))"

text \<open>The deferred \<open>Rollback\<close>: nothing after a commit, otherwise the copy is dropped.\<close>

definition rollback :: "world \<Rightarrow> world" where
  "rollback w =
     (case saved w of
        None \<Rightarrow> w
      | Some d \<Rightarrow> w\<lparr>db := d, saved := None, aborted := False\<rparr>)"

definition commit_tx :: "unit act" where
  "commit_tx w =
     (let ev = next_event w in
      if aborted w then (Inl tx_commit_rollback, rollback w)
      else
        case flt ev of
          NoFault \<Rightarrow> (Inr (), (pop w)\<lparr>saved := None, trace := trace w @ [EffCommit]\<rparr>)
        | Refused e \<Rightarrow> (Inl e, rollback (pop w))
        | Lost e \<Rightarrow> (Inl (lost_error e), (pop w)\<lparr>saved := None, trace := trace w @ [EffCommit]\<rparr>))"

definition defer_rollback :: "'a act \<Rightarrow> 'a act" where
  "defer_rollback m w = (case m w of (r, w') \<Rightarrow> (r, rollback w'))"

text \<open>An effect outside the database (cache, broker); its caller sees the fault, if any.\<close>

definition extern :: "effect \<Rightarrow> unit act" where
  "extern x w =
     (let ev = next_event w;
          w' = (if saved w = None then (pop w)\<lparr>db := env ev (db w)\<rparr> else pop w) in
      case flt ev of
        NoFault \<Rightarrow> (Inr (), w'\<lparr>trace := trace w @ [x]\<rparr>)
      | Refused e \<Rightarrow> (Inl e, w')
      | Lost e \<Rightarrow> (Inl e, w'\<lparr>trace := trace w @ [x]\<rparr>))"

text \<open>\<open>select { case <-ctx.Done(): ..; case <-time.After(delay + rand.Int63n(delay)): }\<close>; a fault is the
  end of the context.\<close>

definition pause :: "time \<Rightarrow> unit act" where
  "pause delay w =
     (let ev = next_event w;
          w' = (if saved w = None then (pop w)\<lparr>db := env ev (db w)\<rparr> else pop w) in
      case flt ev of
        NoFault \<Rightarrow>
          (Inr (), w'\<lparr>trace := trace w @ [EffSleep (delay + int (fresh ev) mod delay)]\<rparr>)
      | Refused e \<Rightarrow> (Inl e, w')
      | Lost e \<Rightarrow> (Inl e, w'))"

text \<open>A read-only statement.\<close>

definition query :: "(database \<Rightarrow> gerr + 'a) \<Rightarrow> 'a sql" where
  "query q n d = (case q d of Inl e \<Rightarrow> Inl e | Inr a \<Rightarrow> Inr (a, d))"

definition row_or_none :: "'a option \<Rightarrow> gerr + 'a" where
  "row_or_none r = (case r of None \<Rightarrow> Inl NoRows | Some a \<Rightarrow> Inr a)"

text \<open>Violations of a constraint, with the name Postgres reports.\<close>

definition unique_violation :: "string \<Rightarrow> gerr" where
  "unique_violation k = PgError ''23505'' k ''duplicate key value violates unique constraint''"

definition check_violation :: "string \<Rightarrow> gerr" where
  "check_violation k = PgError ''23514'' k ''new row violates check constraint''"

definition foreign_key_violation :: "string \<Rightarrow> gerr" where
  "foreign_key_violation k = PgError ''23503'' k ''insert violates foreign key constraint''"

definition numeric_overflow :: gerr where
  "numeric_overflow = PgError ''22003'' [] ''numeric field overflow''"

definition encode_error :: gerr where
  "encode_error = NewError ''failed to encode args: value is out of range for int4''"

text \<open>A \<open>BIGSERIAL\<close> value starts at 1; \<open>INT\<close> columns hold 32 bits; \<open>NUMERIC(p,2)\<close> holds
  \<open>p - 2\<close> digits before the point.\<close>

definition serial :: "nat \<Rightarrow> int" where
  "serial n = int (Suc n)"

lemma serial_pos [simp]: "0 < serial n"
  by (simp add: serial_def)

definition int4 :: "int \<Rightarrow> bool" where
  "int4 i \<longleftrightarrow> - (2 ^ 31) \<le> i \<and> i < 2 ^ 31"

definition numeric_fits :: "nat \<Rightarrow> money \<Rightarrow> bool" where
  "numeric_fits p m \<longleftrightarrow> \<bar>m\<bar> < 10 ^ p"

section \<open>Weakest preconditions\<close>

text \<open>\<open>wp m Q E w\<close>: run from \<open>w\<close>, \<open>m\<close> ends in \<open>Q\<close> when it returns a value and in \<open>E\<close> when
  it returns an error.\<close>

definition wp :: "'a act \<Rightarrow> ('a \<Rightarrow> world \<Rightarrow> bool) \<Rightarrow> (gerr \<Rightarrow> world \<Rightarrow> bool) \<Rightarrow> world \<Rightarrow> bool" where
  "wp m Q E w = (case m w of (Inl e, w') \<Rightarrow> E e w' | (Inr a, w') \<Rightarrow> Q a w')"

named_theorems wp_simps \<open>weakest preconditions of the control structure\<close>
named_theorems sql_simps \<open>SQL statements as functions\<close>

lemma wp_ret [wp_simps]: "wp (ret a) Q E = Q a"
  by (simp add: fun_eq_iff wp_def ret_def)

lemma wp_fail [wp_simps]: "wp (fail e) Q E = E e"
  by (simp add: fun_eq_iff wp_def fail_def)

lemma wp_attempt [wp_simps]:
  "wp (attempt m h k) Q E = wp m (\<lambda>a. wp (k a) Q E) (\<lambda>e. wp (h e) Q E)"
  by (simp add: fun_eq_iff wp_def attempt_def split: prod.splits sum.splits)

lemma wp_defer_rollback [wp_simps]:
  "wp (defer_rollback m) Q E = wp m (\<lambda>a w. Q a (rollback w)) (\<lambda>e w. E e (rollback w))"
  by (simp add: fun_eq_iff wp_def defer_rollback_def split: prod.splits sum.splits)

lemma as_pg_error_lost [simp]: "as_pg_error (lost_error e) = None"
  by (simp add: lost_error_def)

lemma wp_if [wp_simps]: "wp (if b then m else n) Q E = (if b then wp m Q E else wp n Q E)"
  by simp

lemma wp_mono:
  "wp m Q E w \<Longrightarrow> (\<And>a w. Q a w \<Longrightarrow> Q' a w) \<Longrightarrow> (\<And>e w. E e w \<Longrightarrow> E' e w) \<Longrightarrow> wp m Q' E' w"
  by (auto simp: wp_def split: prod.splits sum.splits)

lemma wp_run: "wp m Q E w \<Longrightarrow> m w = (r, w') \<Longrightarrow> (case r of Inl e \<Rightarrow> E e w' | Inr a \<Rightarrow> Q a w')"
  by (auto simp: wp_def split: sum.splits)

text \<open>
  Assertions about a session. \<open>V\<close> is the set the remaining events come from: with \<open>faultless V\<close>
  no call fails for a reason outside the model. \<open>outside V d\<close>: no transaction is open and the
  committed state is \<open>d\<close>; \<open>in_tx V d0 d\<close>: a transaction that began at \<open>d0\<close> sees \<open>d\<close>;
  \<open>dead_tx V d0\<close>: it has failed and can only be rolled back.
\<close>

definition outside :: "event set \<Rightarrow> database \<Rightarrow> world \<Rightarrow> bool" where
  "outside V d w \<longleftrightarrow> saved w = None \<and> db w = d \<and> set (events w) \<subseteq> V"

definition in_tx :: "event set \<Rightarrow> database \<Rightarrow> database \<Rightarrow> world \<Rightarrow> bool" where
  "in_tx V d0 d w \<longleftrightarrow> saved w = Some d0 \<and> \<not> aborted w \<and> db w = d \<and> set (events w) \<subseteq> V"

definition dead_tx :: "event set \<Rightarrow> database \<Rightarrow> world \<Rightarrow> bool" where
  "dead_tx V d0 w \<longleftrightarrow> saved w = Some d0 \<and> aborted w \<and> set (events w) \<subseteq> V"

definition faultless :: "event set \<Rightarrow> bool" where
  "faultless V \<longleftrightarrow> (\<forall>ev\<in>V. flt ev = NoFault)"

lemma set_tl_subset: "set es \<subseteq> V \<Longrightarrow> set (tl es) \<subseteq> V"
  by (cases es) auto

lemma next_event_in: "set (events w) \<subseteq> V \<Longrightarrow> next_event w \<in> insert quiet_event V"
  by (cases "events w") (auto simp: next_event_def)

lemma next_event_faultless:
  "set (events w) \<subseteq> V \<Longrightarrow> flt (next_event w) \<noteq> NoFault \<Longrightarrow> \<not> faultless V"
  by (cases "events w") (auto simp: next_event_def faultless_def quiet_event_def)

lemma outside_db: "outside V d w \<Longrightarrow> db w = d"
  by (simp add: outside_def)

lemma rollback_outside [simp]: "outside V d w \<Longrightarrow> rollback w = w"
  by (simp add: outside_def rollback_def)

lemma rollback_in_tx [simp]: "in_tx V d0 d w \<Longrightarrow> outside V d0 (rollback w)"
  by (simp add: in_tx_def outside_def rollback_def)

lemma rollback_dead_tx [simp]: "dead_tx V d0 w \<Longrightarrow> outside V d0 (rollback w)"
  by (simp add: dead_tx_def outside_def rollback_def)

named_theorems wp_elims \<open>one rule per primitive, by the state of the session\<close>

lemma wp_begin [wp_elims]:
  assumes "outside V d w"
    and "\<And>e w'. outside V (env (next_event w) d) w' \<Longrightarrow> \<not> faultless V \<Longrightarrow> E e w'"
    and "\<And>w'. in_tx V (env (next_event w) d) (env (next_event w) d) w' \<Longrightarrow> Q () w'"
  shows "wp begin_tx Q E w"
  using assms next_event_faultless [of w V]
  by (auto simp: wp_def begin_tx_def outside_def in_tx_def Let_def set_tl_subset
      split: fault.splits)

lemma wp_stmt_tx [wp_elims]:
  assumes "in_tx V d0 d w"
    and "\<And>e w'. dead_tx V d0 w' \<Longrightarrow> (\<exists>n. f n d = Inl e) \<or> \<not> faultless V \<Longrightarrow> E e w'"
    and "\<And>n a d' w'. f n d = Inr (a, d') \<Longrightarrow> in_tx V d0 d' w' \<Longrightarrow> Q a w'"
  shows "wp (stmt f) Q E w"
proof -
  let ?ev = "next_event w"
  note w = assms(1) [unfolded in_tx_def]
  have dead: "dead_tx V d0 ((pop w)\<lparr>aborted := True\<rparr>)"
    using w by (simp add: dead_tx_def set_tl_subset)
  have lost: "\<not> faultless V" if "flt ?ev \<noteq> NoFault"
    using next_event_faultless w that by blast
  show ?thesis
  proof (cases "flt ?ev")
    case NoFault
    show ?thesis
    proof (cases "f (fresh ?ev) d")
      case (Inl e)
      then show ?thesis using w NoFault assms(2) [OF dead, of e]
        by (auto simp: wp_def stmt_def Let_def)
    next
      case (Inr b)
      obtain a d' where b: "b = (a, d')" by (cases b)
      have "in_tx V d0 d' ((pop w)\<lparr>db := d'\<rparr>)"
        using w by (simp add: in_tx_def set_tl_subset)
      then show ?thesis using w NoFault Inr assms(3) by (simp add: wp_def stmt_def b)
    qed
  next
    case (Refused e)
    then show ?thesis using w lost assms(2) [OF dead] by (simp add: wp_def stmt_def)
  next
    case (Lost e)
    then show ?thesis using w lost assms(2) [OF dead] by (simp add: wp_def stmt_def)
  qed
qed

lemma wp_stmt_dead [wp_elims]:
  assumes "dead_tx V d0 w" and "\<And>e w'. dead_tx V d0 w' \<Longrightarrow> E e w'"
  shows "wp (stmt f) Q E w"
  using assms by (auto simp: wp_def stmt_def dead_tx_def Let_def)

lemma wp_stmt_outside [wp_elims]:
  assumes "outside V d w"
    and "\<And>e w'. outside V (env (next_event w) d) w' \<Longrightarrow>
      (\<exists>n. f n (env (next_event w) d) = Inl e) \<or> \<not> faultless V \<Longrightarrow> E e w'"
    and "\<And>e n a d' w'. f n (env (next_event w) d) = Inr (a, d') \<Longrightarrow> outside V d' w' \<Longrightarrow>
      \<not> faultless V \<Longrightarrow> as_pg_error e = None \<Longrightarrow> E e w'"
    and "\<And>n a d' w'. f n (env (next_event w) d) = Inr (a, d') \<Longrightarrow> outside V d' w' \<Longrightarrow> Q a w'"
  shows "wp (stmt f) Q E w"
proof -
  let ?ev = "next_event w"
  let ?d = "env ?ev d"
  note w = assms(1) [unfolded outside_def]
  have out: "outside V d' ((pop w)\<lparr>db := d'\<rparr>)" for d'
    using w by (simp add: outside_def set_tl_subset)
  have lost: "\<not> faultless V" if "flt ?ev \<noteq> NoFault"
    using next_event_faultless w that by blast
  show ?thesis
  proof (cases "f (fresh ?ev) ?d")
    case (Inl e)
    then show ?thesis
      using w lost assms(2) [OF out] by (cases "flt ?ev") (auto simp: wp_def stmt_def Let_def)
  next
    case (Inr b)
    then show ?thesis
      using w lost assms(3,4) [OF _ out] assms(2) [OF out]
      by (cases "flt ?ev"; cases b) (auto simp: wp_def stmt_def Let_def)
  qed
qed

lemma wp_commit [wp_elims]:
  assumes "in_tx V d0 d w"
    and "\<And>e w'. outside V d0 w' \<Longrightarrow> \<not> faultless V \<Longrightarrow> E e w'"
    and "\<And>e w'. outside V d w' \<Longrightarrow> \<not> faultless V \<Longrightarrow> as_pg_error e = None \<Longrightarrow> E e w'"
    and "\<And>w'. outside V d w' \<Longrightarrow> Q () w'"
  shows "wp commit_tx Q E w"
  using assms next_event_faultless [of w V]
  by (force simp: wp_def commit_tx_def outside_def in_tx_def Let_def set_tl_subset rollback_def
      split: fault.splits)

lemma wp_commit_dead [wp_elims]:
  assumes "dead_tx V d0 w" and "\<And>e w'. outside V d0 w' \<Longrightarrow> E e w'"
  shows "wp commit_tx Q E w"
  using assms by (auto simp: wp_def commit_tx_def outside_def dead_tx_def Let_def rollback_def)

lemma wp_extern_tx [wp_elims]:
  assumes "in_tx V d0 d w"
    and "\<And>e w'. in_tx V d0 d w' \<Longrightarrow> E e w'"
    and "\<And>w'. in_tx V d0 d w' \<Longrightarrow> Q () w'"
  shows "wp (extern x) Q E w"
  using assms
  by (force simp: wp_def extern_def in_tx_def Let_def set_tl_subset split: fault.splits)

lemma wp_extern_outside [wp_elims]:
  assumes "outside V d w"
    and "\<And>e w'. outside V (env (next_event w) d) w' \<Longrightarrow> E e w'"
    and "\<And>w'. outside V (env (next_event w) d) w' \<Longrightarrow> Q () w'"
  shows "wp (extern x) Q E w"
  using assms
  by (force simp: wp_def extern_def outside_def Let_def set_tl_subset split: fault.splits)

lemma wp_pause_outside [wp_elims]:
  assumes "outside V d w"
    and "\<And>e w'. outside V (env (next_event w) d) w' \<Longrightarrow> E e w'"
    and "\<And>w'. outside V (env (next_event w) d) w' \<Longrightarrow> Q () w'"
  shows "wp (pause t) Q E w"
  using assms
  by (force simp: wp_def pause_def outside_def Let_def set_tl_subset split: fault.splits)

section \<open>Operations that are one transaction\<close>

text \<open>
  \<open>performs m R F\<close>: whatever other sessions did before (\<open>d0\<close> is the state \<open>m\<close> finds) and whichever
  calls fail, \<open>m\<close> is all or nothing: a returned value comes with the complete effect \<open>R\<close>; a returned
  error means that nothing changed or, when the answer to a commit was lost, that all of \<open>R\<close> did
  (and then the error is not one that Postgres sent).
  If no call fails, the error is one of \<open>F\<close> and nothing changed.
\<close>

definition performs ::
  "'a act \<Rightarrow> (database \<Rightarrow> 'a \<Rightarrow> database \<Rightarrow> bool) \<Rightarrow> (database \<Rightarrow> gerr \<Rightarrow> bool) \<Rightarrow> bool" where
  "performs m R F \<longleftrightarrow>
     (\<forall>V d w. outside V d w \<longrightarrow>
        wp m
          (\<lambda>a w'. \<exists>d1. R (env (next_event w) d) a d1 \<and> outside V d1 w')
          (\<lambda>e w'. outside V (env (next_event w) d) w' \<and> (F (env (next_event w) d) e \<or> \<not> faultless V) \<or>
             \<not> faultless V \<and> as_pg_error e = None \<and>
               (\<exists>a d1. R (env (next_event w) d) a d1 \<and> outside V d1 w'))
          w)"

lemma performsD:
  assumes "performs m R F" and "outside V d w"
  shows "wp m
    (\<lambda>a w'. \<exists>d1. R (env (next_event w) d) a d1 \<and> outside V d1 w')
    (\<lambda>e w'. outside V (env (next_event w) d) w' \<and> (F (env (next_event w) d) e \<or> \<not> faultless V) \<or>
       \<not> faultless V \<and> as_pg_error e = None \<and>
         (\<exists>a d1. R (env (next_event w) d) a d1 \<and> outside V d1 w')) w"
  using assms by (simp add: performs_def)

lemma query_row_Inr [sql_simps]:
  "query (\<lambda>d. row_or_none (q d)) n d = Inr (a, d') \<longleftrightarrow> q d = Some a \<and> d' = d"
  by (auto simp: query_def row_or_none_def split: option.splits)

lemma query_row_Inl [sql_simps]:
  "query (\<lambda>d. row_or_none (q d)) n d = Inl e \<longleftrightarrow> q d = None \<and> e = NoRows"
  by (auto simp: query_def row_or_none_def split: option.splits)

lemma query_Inr [sql_simps]: "query (\<lambda>d. Inr (q d)) n d = Inr (a, d') \<longleftrightarrow> a = q d \<and> d' = d"
  by (auto simp: query_def)

lemma query_Inl [sql_simps]: "query (\<lambda>d. Inr (q d)) n d \<noteq> Inl e"
  by (auto simp: query_def)

lemma performs_stmt:
  "performs (stmt f) (\<lambda>d a d'. \<exists>n. f n d = Inr (a, d')) (\<lambda>d e. \<exists>n. f n d = Inl e)"
  unfolding performs_def by (intro allI impI) (erule wp_stmt_outside; blast)

lemma performs_weaken:
  assumes "performs m R F"
    and "\<And>d a d'. R d a d' \<Longrightarrow> R' d a d'" and "\<And>d e. F d e \<Longrightarrow> F' d e"
  shows "performs m R' F'"
  using assms(1) unfolding performs_def
  by (intro allI impI) (erule allE, erule allE, erule allE, drule mp, assumption,
      erule wp_mono; use assms(2,3) in blast)

text \<open>
  The two outcomes of the body of a transaction that began at \<open>d0\<close>. A body is verified statement
  by statement: an error leaves a state that the deferred rollback undoes, and the only obligation
  left is that the effect \<open>R\<close> holds at the commit.
\<close>

definition undone :: "event set \<Rightarrow> database \<Rightarrow> world \<Rightarrow> bool" where
  "undone V d0 w \<longleftrightarrow> dead_tx V d0 w \<or> (\<exists>d. in_tx V d0 d w)"

definition tx_ok where
  "tx_ok R V d0 a w \<longleftrightarrow> (\<exists>d1. R d0 a d1 \<and> outside V d1 w) \<or> R d0 a d0 \<and> undone V d0 w"

definition tx_bad where
  "tx_bad R F V d0 e w \<longleftrightarrow>
     (dead_tx V d0 w \<or> (\<exists>d. in_tx V d0 d w) \<or> outside V d0 w) \<and> (F d0 e \<or> \<not> faultless V) \<or>
     \<not> faultless V \<and> as_pg_error e = None \<and> (\<exists>a d1. R d0 a d1 \<and> outside V d1 w)"

lemma undone_dead [simp]: "dead_tx V d0 w \<Longrightarrow> undone V d0 w"
  by (simp add: undone_def)

lemma undone_in_tx [simp]: "in_tx V d0 d w \<Longrightarrow> undone V d0 w"
  by (auto simp: undone_def)

lemma tx_ok_in_tx [simp]: "in_tx V d0 d w \<Longrightarrow> tx_ok R V d0 a w \<longleftrightarrow> R d0 a d0"
  by (auto simp: tx_ok_def in_tx_def outside_def undone_def)

lemma tx_ok_dead [simp]: "dead_tx V d0 w \<Longrightarrow> tx_ok R V d0 a w \<longleftrightarrow> R d0 a d0"
  by (auto simp: tx_ok_def dead_tx_def outside_def undone_def)

lemma tx_bad_dead [simp]: "dead_tx V d0 w \<Longrightarrow> tx_bad R F V d0 e w \<longleftrightarrow> F d0 e \<or> \<not> faultless V"
  by (auto simp: tx_bad_def dead_tx_def outside_def)

lemma tx_bad_in_tx [simp]: "in_tx V d0 d w \<Longrightarrow> tx_bad R F V d0 e w \<longleftrightarrow> F d0 e \<or> \<not> faultless V"
  by (auto simp: tx_bad_def in_tx_def outside_def)

lemma wp_commit_ok [wp_elims]:
  "in_tx V d0 d w \<Longrightarrow> R d0 a d \<Longrightarrow> wp commit_tx (\<lambda>_. tx_ok R V d0 a) (\<lambda>e. tx_bad R F V d0 e) w"
  by (erule wp_commit) (auto simp: tx_ok_def tx_bad_def)

lemma wp_commit_ok_unit [wp_elims]:
  "in_tx V d0 d w \<Longrightarrow> R d0 () d \<Longrightarrow> wp commit_tx (tx_ok R V d0) (tx_bad R F V d0) w"
  by (erule wp_commit) (auto simp: tx_ok_def tx_bad_def)

lemma undone_bad: "undone V d0 w \<Longrightarrow> tx_bad R F V d0 e w \<longleftrightarrow> F d0 e \<or> \<not> faultless V"
  by (auto simp: undone_def)

lemma performs_tx:
  assumes body: "\<And>V d0 w. in_tx V d0 d0 w \<Longrightarrow> wp m (tx_ok R V d0) (tx_bad R F V d0) w"
  shows "performs (attempt begin_tx fail (\<lambda>_. defer_rollback m)) R F"
  unfolding performs_def
proof (intro allI impI)
  fix V d w
  assume out: "outside V d w"
  let ?d = "env (next_event w) d"
  have ok: "\<exists>d1. R ?d a d1 \<and> outside V d1 (rollback w')" if "tx_ok R V ?d a w'" for a w'
    using that unfolding tx_ok_def undone_def
    by (auto dest: rollback_dead_tx rollback_in_tx)
  have bad: "outside V ?d (rollback w') \<and> (F ?d e \<or> \<not> faultless V) \<or>
      \<not> faultless V \<and> as_pg_error e = None \<and>
        (\<exists>a d1. R ?d a d1 \<and> outside V d1 (rollback w'))" if "tx_bad R F V ?d e w'" for e w'
    using that unfolding tx_bad_def
    by (auto dest: rollback_dead_tx rollback_in_tx) (metis rollback_outside)
  show "wp (attempt begin_tx fail (\<lambda>_. defer_rollback m))
      (\<lambda>a w'. \<exists>d1. R ?d a d1 \<and> outside V d1 w')
      (\<lambda>e w'. outside V ?d w' \<and> (F ?d e \<or> \<not> faultless V) \<or>
         \<not> faultless V \<and> as_pg_error e = None \<and> (\<exists>a d1. R ?d a d1 \<and> outside V d1 w')) w"
    unfolding wp_simps
    by (rule wp_begin [OF out]) (simp, rule wp_mono [OF body], assumption, erule ok, erule bad)
qed

end
