(* ===== verification/Orders.thy ===== *)
theory Orders
  imports Store
begin

text \<open>
  \<open>internal/repository/order.go\<close>: the orders, their items and the stock of the products.

  \<open>create_order\<close>, \<open>get_order_by_id\<close>, \<open>get_orders\<close> and \<open>cancel_order\<close> are the methods of
  \<open>OrderRepo\<close>; their SQL is above them. \<open>create_order\<close> runs on the transaction that its caller put
  into the context. An \<open>INT\<close> parameter out of range is an error of the driver; the checks of
  \<open>002_schema_constraints.sql\<close> are part of the statements they guard. \<open>sort.Slice\<close> is a stable
  sort here, which is the same for the distinct products the service passes.
\<close>

section \<open>Statements\<close>

definition integer_overflow :: gerr where
  "integer_overflow = PgError ''22003'' [] ''integer out of range''"

definition insert_idem_key :: "string \<Rightarrow> unit sql" where
  "insert_idem_key key n d =
     (if exists_where (\<lambda>k. k_key k = key) (idem_keys d) then Inr ((), d)
      else Inr ((), d\<lparr>idem_keys := idem_keys d @ [\<lparr>k_key = key, k_order = 0\<rparr>]\<rparr>))"

definition select_idem_order :: "string \<Rightarrow> int sql" where
  "select_idem_order key = query (\<lambda>d. row_or_none
     (map_option k_order (List.find (\<lambda>k. k_key k = key) (idem_keys d))))"

definition set_idem_order :: "int \<Rightarrow> string \<Rightarrow> unit sql" where
  "set_idem_order oid key n d = Inr ((), d\<lparr>idem_keys :=
     update_where (\<lambda>k. k_key k = key) (\<lambda>k. k\<lparr>k_order := oid\<rparr>) (idem_keys d)\<rparr>)"

definition new_order :: "int \<Rightarrow> time \<Rightarrow> order_row" where
  "new_order oid t = \<lparr>o_id = oid, o_status = Pending, o_created = t\<rparr>"

definition insert_order :: "int sql" where
  "insert_order n d =
     (if exists_where (\<lambda>r. o_id r = serial n) (orders d)
      then Inl (unique_violation ''orders_pkey'')
      else Inr (serial n, d\<lparr>orders := orders d @ [new_order (serial n) (now d)]\<rparr>))"

definition select_price :: "int \<Rightarrow> money sql" where
  "select_price pid n d =
     (if \<not> int4 pid then Inl encode_error
      else query (\<lambda>d. row_or_none
        (map_option p_price (List.find (\<lambda>p. p_id p = pid) (products d)))) n d)"

definition add_stock :: "int \<Rightarrow> product \<Rightarrow> product" where
  "add_stock q p = p\<lparr>p_stock := p_stock p + q\<rparr>"

definition take_stock :: "int \<Rightarrow> int \<Rightarrow> nat sql" where
  "take_stock quantity pid n d =
     (let hit = (\<lambda>p. p_id p = pid \<and> quantity \<le> p_stock p) in
      if \<not> int4 quantity \<or> \<not> int4 pid then Inl encode_error
      else if exists_where (\<lambda>p. hit p \<and> \<not> int4 (p_stock p - quantity)) (products d)
        then Inl integer_overflow
      else Inr (count_where hit (products d),
        d\<lparr>products := update_where hit (add_stock (- quantity)) (products d)\<rparr>))"

definition new_item :: "int \<Rightarrow> int \<Rightarrow> int \<Rightarrow> int \<Rightarrow> money \<Rightarrow> order_item" where
  "new_item iid oid pid quantity price = \<lparr>oi_id = iid, oi_order = oid, oi_product = pid,
     oi_quantity = quantity, oi_price = price\<rparr>"

definition insert_item :: "int \<Rightarrow> int \<Rightarrow> int \<Rightarrow> money \<Rightarrow> unit sql" where
  "insert_item oid pid quantity price n d =
     (if \<not> int4 pid \<or> \<not> int4 quantity then Inl encode_error
      else if \<not> numeric_fits 10 price then Inl numeric_overflow
      else if \<not> 0 < quantity then Inl (check_violation ''order_items_quantity_check'')
      else if \<not> 0 \<le> price then Inl (check_violation ''order_items_price_check'')
      else if exists_where (\<lambda>i. oi_id i = serial n) (order_items d)
        then Inl (unique_violation ''order_items_pkey'')
      else if \<not> exists_where (\<lambda>r. o_id r = oid) (orders d)
        then Inl (foreign_key_violation ''order_items_order_id_fkey'')
      else if \<not> exists_where (\<lambda>p. p_id p = pid) (products d)
        then Inl (foreign_key_violation ''order_items_product_id_fkey'')
      else Inr ((),
        d\<lparr>order_items := order_items d @ [new_item (serial n) oid pid quantity price]\<rparr>))"

definition select_order :: "int \<Rightarrow> order_row sql" where
  "select_order oid = query (\<lambda>d. row_or_none (List.find (\<lambda>r. o_id r = oid) (orders d)))"

definition select_order_items :: "int \<Rightarrow> order_item list sql" where
  "select_order_items oid = query (\<lambda>d. Inr (filter (\<lambda>i. oi_order i = oid) (order_items d)))"

definition negative_limit :: gerr where
  "negative_limit = PgError ''2201W'' [] ''LIMIT must not be negative''"

definition select_orders :: "int option \<Rightarrow> int \<Rightarrow> order_row list sql" where
  "select_orders before limit = query (\<lambda>d.
     if limit < 0 then Inl negative_limit
     else Inr (take (nat limit) (rev (sort_key o_id
       (filter (\<lambda>r. case before of None \<Rightarrow> True | Some b \<Rightarrow> o_id r < b) (orders d))))))"

definition select_items_of :: "int list \<Rightarrow> order_item list sql" where
  "select_items_of ids = query (\<lambda>d. Inr (sort_key oi_id
     (filter (\<lambda>i. oi_order i \<in> set ids) (order_items d))))"

definition select_in_progress :: "int \<Rightarrow> bool sql" where
  "select_in_progress oid = query (\<lambda>d. Inr
     (exists_where (\<lambda>p. pay_order p = oid \<and> pay_status p = PaymentPending) (payments d)))"

definition set_cancelled :: "int \<Rightarrow> int sql" where
  "set_cancelled oid n d =
     (if exists_where (\<lambda>r. o_id r = oid) (orders d)
      then Inr (oid, d\<lparr>orders :=
        update_where (\<lambda>r. o_id r = oid) (\<lambda>r. r\<lparr>o_status := Cancelled\<rparr>) (orders d)\<rparr>)
      else Inl NoRows)"

definition new_refund :: "int \<Rightarrow> int \<Rightarrow> money \<Rightarrow> time \<Rightarrow> refund" where
  "new_refund rid pid amount t = \<lparr>rf_id = rid, rf_payment = pid, rf_amount = amount,
     rf_status = RefundPending, rf_attempts = 0, rf_next = t, rf_error = None, rf_provider = None\<rparr>"

text \<open>The index \<open>payments_one_active_per_order\<close> leaves at most one row to select.\<close>

definition insert_refund :: "int \<Rightarrow> unit sql" where
  "insert_refund oid n d =
     (case List.find (\<lambda>p. pay_order p = oid \<and> pay_status p = PaymentSucceeded) (payments d) of
        None \<Rightarrow> Inr ((), d)
      | Some p \<Rightarrow>
          if \<not> 0 < pay_amount p then Inl (check_violation ''refunds_amount_check'')
          else if exists_where (\<lambda>f. rf_payment f = pay_id p) (refunds d) then Inr ((), d)
          else if exists_where (\<lambda>f. rf_id f = serial n) (refunds d)
            then Inl (unique_violation ''refunds_pkey'')
          else Inr ((), d\<lparr>refunds := refunds d @
            [new_refund (serial n) (pay_id p) (pay_amount p) (now d)]\<rparr>))"

text \<open>\<open>UPDATE products p .. FROM order_items oi\<close> updates a product once, with one of the joined items.\<close>

definition restored_item :: "int \<Rightarrow> database \<Rightarrow> product \<Rightarrow> order_item option" where
  "restored_item oid d p =
     List.find (\<lambda>i. oi_order i = oid \<and> oi_product i = p_id p) (order_items d)"

definition restore_product :: "int \<Rightarrow> database \<Rightarrow> product \<Rightarrow> product" where
  "restore_product oid d p =
     (case restored_item oid d p of None \<Rightarrow> p | Some i \<Rightarrow> add_stock (oi_quantity i) p)"

definition restore_stock :: "int \<Rightarrow> int list sql" where
  "restore_stock oid n d =
     (if exists_where (\<lambda>p. \<not> int4 (p_stock (restore_product oid d p)) \<and>
          restored_item oid d p \<noteq> None) (products d)
      then Inl integer_overflow
      else if exists_where (\<lambda>p. p_stock (restore_product oid d p) < 0 \<and>
          restored_item oid d p \<noteq> None) (products d)
      then Inl (check_violation ''products_stock_check'')
      else Inr (map p_id (filter (\<lambda>p. restored_item oid d p \<noteq> None) (products d)),
        d\<lparr>products := map (restore_product oid d) (products d)\<rparr>))"

section \<open>The repository\<close>

text \<open>\<open>InvalidateByID\<close> of the cached repository logs its errors; the loops log what it returns.\<close>

primrec invalidate_all :: "int list \<Rightarrow> unit act" where
  "invalidate_all [] = ret ()"
| "invalidate_all (pid # pids) =
     attempt (extern (EffInvalidate pid)) (\<lambda>_. invalidate_all pids) (\<lambda>_. invalidate_all pids)"

primrec create_items :: "int \<Rightarrow> order_item list \<Rightarrow> unit act" where
  "create_items oid [] = ret ()"
| "create_items oid (item # items) =
     attempt (stmt (select_price (oi_product item)))
       (\<lambda>_. fail (errorf_w ''CreateOrder get price: '' (Sentinel ErrProductNotFound) [])) (\<lambda>price.
     attempt (stmt (take_stock (oi_quantity item) (oi_product item))) fail (\<lambda>affected.
     if affected = 0 then fail (errorf_w ''CreateOrder: '' (Sentinel ErrInsufficientStock) [])
     else
     attempt (stmt (insert_item oid (oi_product item) (oi_quantity item) price)) fail (\<lambda>_.
     create_items oid items)))"

definition create_order :: "order_item list \<Rightarrow> string \<Rightarrow> (int \<times> bool) act" where
  "create_order items key =
     (let place =
        attempt (stmt insert_order) fail (\<lambda>oid.
        let sorted_items = sort_key oi_product items in
        attempt (create_items oid sorted_items) fail (\<lambda>_.
        attempt (if key \<noteq> [] then stmt (set_idem_order oid key) else ret ()) fail (\<lambda>_.
        attempt (invalidate_all (map oi_product sorted_items)) fail (\<lambda>_.
        ret (oid, False)))))
      in if key \<noteq> [] then
           attempt (stmt (insert_idem_key key)) fail (\<lambda>_.
           attempt (stmt (select_idem_order key)) (\<lambda>_. place) (\<lambda>existing.
           if 0 < existing then ret (existing, True) else place))
         else place)"

definition order_of :: "order_row \<Rightarrow> order_item list \<Rightarrow> order" where
  "order_of r items = \<lparr>ord_id = o_id r, ord_status = o_status r, ord_created = o_created r,
     ord_items = items\<rparr>"

definition get_order_by_id :: "int \<Rightarrow> order act" where
  "get_order_by_id oid =
     attempt (stmt (select_order oid))
       (\<lambda>err. if errors_is err NoRows
          then fail (errorf_w ''GetOrderByID: '' (Sentinel ErrOrderNotFound) [])
          else fail (errorf_w ''GetOrderByID: '' err [])) (\<lambda>r.
     attempt (stmt (select_order_items oid)) fail (\<lambda>items.
     ret (order_of r items)))"

definition get_orders ::
  "int \<Rightarrow> order_cursor option \<Rightarrow> (order list \<times> order_cursor option) act" where
  "get_orders limit cursor =
     attempt (stmt (select_orders
         (case cursor of None \<Rightarrow> None
          | Some c \<Rightarrow> if 0 < cur_after c then Some (cur_after c) else None) limit))
       fail (\<lambda>rows.
     if rows = [] then ret ([], None)
     else
     attempt (stmt (select_items_of (map o_id rows))) fail (\<lambda>items.
     ret (map (\<lambda>r. order_of r (filter (\<lambda>i. oi_order i = o_id r) items)) rows,
       if int (length rows) = limit
       then Some \<lparr>cur_after = o_id (last rows), cur_created = o_created (last rows)\<rparr>
       else None)))"

definition cancel_tx :: "int \<Rightarrow> (int \<times> int list) act" where
  "cancel_tx oid =
     attempt begin_tx fail (\<lambda>_. defer_rollback (
     attempt (stmt (select_order oid))
       (\<lambda>_. fail (errorf_w ''CancelOrder: '' (Sentinel ErrOrderNotFound) [])) (\<lambda>r.
     if \<not> can_transition (o_status r) Cancelled
     then if o_status r = Cancelled then fail (Sentinel ErrOrderAlreadyCancelled)
          else fail (errorf_w ''CancelOrder: '' (Sentinel ErrInvalidStatusTransition) [])
     else
     attempt (if o_status r = Pending then stmt (select_in_progress oid) else ret False) fail
       (\<lambda>in_progress.
     if in_progress then fail (Sentinel ErrPaymentInProgress)
     else
     attempt (stmt (set_cancelled oid)) fail (\<lambda>cancelled.
     attempt (if o_status r = Paid then stmt (insert_refund oid) else ret ()) fail (\<lambda>_.
     attempt (stmt (restore_stock oid)) fail (\<lambda>pids.
     attempt commit_tx fail (\<lambda>_.
     ret (cancelled, pids)))))))))"

definition cancel_order :: "int \<Rightarrow> int act" where
  "cancel_order oid =
     attempt (cancel_tx oid) fail (\<lambda>(cancelled, pids).
     attempt (invalidate_all pids) fail (\<lambda>_.
     ret cancelled))"

section \<open>What the transactions do\<close>

lemma add_stock_sel [simp]:
  "p_id (add_stock q p) = p_id p"
  "p_stock (add_stock q p) = p_stock p + q"
  "p_price (add_stock q p) = p_price p"
  by (simp_all add: add_stock_def)

lemma new_item_sel [simp]:
  "oi_id (new_item iid oid pid q price) = iid"
  "oi_order (new_item iid oid pid q price) = oid"
  "oi_product (new_item iid oid pid q price) = pid"
  "oi_quantity (new_item iid oid pid q price) = q"
  "oi_price (new_item iid oid pid q price) = price"
  by (simp_all add: new_item_def)

lemma new_order_sel [simp]:
  "o_id (new_order oid t) = oid" "o_status (new_order oid t) = Pending"
  by (simp_all add: new_order_def)

lemma new_refund_sel [simp]:
  "rf_id (new_refund rid pid amount t) = rid"
  "rf_payment (new_refund rid pid amount t) = pid"
  "rf_amount (new_refund rid pid amount t) = amount"
  "rf_status (new_refund rid pid amount t) = RefundPending"
  "rf_provider (new_refund rid pid amount t) = None"
  by (simp_all add: new_refund_def)

lemma p_id_restore_product [simp]: "p_id (restore_product oid d p) = p_id p"
  by (simp add: restore_product_def split: option.splits)

definition keep_idem_key :: "string \<Rightarrow> database \<Rightarrow> database" where
  "keep_idem_key key d =
     (if \<exists>k\<in>set (idem_keys d). k_key k = key then d
      else d\<lparr>idem_keys := idem_keys d @ [\<lparr>k_key = key, k_order = 0\<rparr>]\<rparr>)"

lemma insert_idem_key_sql [sql_simps]:
  "insert_idem_key key n d = Inr (a, d') \<longleftrightarrow> d' = keep_idem_key key d"
  "insert_idem_key key n d \<noteq> Inl e"
  by (auto simp: insert_idem_key_def keep_idem_key_def)

lemma select_idem_order_sql [sql_simps]:
  "select_idem_order key n d = Inr (a, d') \<longleftrightarrow>
     (\<exists>k. List.find (\<lambda>k. k_key k = key) (idem_keys d) = Some k \<and> a = k_order k) \<and> d' = d"
  "select_idem_order key n d = Inl e \<longleftrightarrow>
     List.find (\<lambda>k. k_key k = key) (idem_keys d) = None \<and> e = NoRows"
  by (auto simp: select_idem_order_def sql_simps)

lemma set_idem_order_sql [sql_simps]:
  "set_idem_order oid key n d = Inr (a, d') \<longleftrightarrow> d' = d\<lparr>idem_keys :=
     update_where (\<lambda>k. k_key k = key) (\<lambda>k. k\<lparr>k_order := oid\<rparr>) (idem_keys d)\<rparr>"
  "set_idem_order oid key n d \<noteq> Inl e"
  by (auto simp: set_idem_order_def)

lemma insert_order_sql [sql_simps]:
  "insert_order n d = Inr (a, d') \<longleftrightarrow>
     a = serial n \<and> (\<forall>r\<in>set (orders d). o_id r \<noteq> serial n) \<and>
     d' = d\<lparr>orders := orders d @ [new_order (serial n) (now d)]\<rparr>"
  "insert_order n d = Inl e \<longleftrightarrow>
     (\<exists>r\<in>set (orders d). o_id r = serial n) \<and> e = unique_violation ''orders_pkey''"
  by (auto simp: insert_order_def)

lemma select_price_sql [sql_simps]:
  "select_price pid n d = Inr (a, d') \<longleftrightarrow>
     int4 pid \<and> (\<exists>p. List.find (\<lambda>p. p_id p = pid) (products d) = Some p \<and> a = p_price p) \<and> d' = d"
  "select_price pid n d = Inl e \<longleftrightarrow>
     (if int4 pid then List.find (\<lambda>p. p_id p = pid) (products d) = None \<and> e = NoRows
      else e = encode_error)"
  by (auto simp: select_price_def sql_simps)

abbreviation in_stock :: "int \<Rightarrow> int \<Rightarrow> product \<Rightarrow> bool" where
  "in_stock quantity pid p \<equiv> p_id p = pid \<and> quantity \<le> p_stock p"

lemma take_stock_sql [sql_simps]:
  "take_stock quantity pid n d = Inr (a, d') \<longleftrightarrow>
     int4 quantity \<and> int4 pid \<and>
     (\<forall>p\<in>set (products d). in_stock quantity pid p \<longrightarrow> int4 (p_stock p - quantity)) \<and>
     a = count_where (in_stock quantity pid) (products d) \<and>
     d' = d\<lparr>products := update_where (in_stock quantity pid) (add_stock (- quantity)) (products d)\<rparr>"
  by (auto simp: take_stock_def Let_def)

lemma insert_item_sql [sql_simps]:
  "insert_item oid pid quantity price n d = Inr (a, d') \<longleftrightarrow>
     int4 pid \<and> int4 quantity \<and> numeric_fits 10 price \<and> 0 < quantity \<and> 0 \<le> price \<and>
     (\<forall>i\<in>set (order_items d). oi_id i \<noteq> serial n) \<and> (\<exists>r\<in>set (orders d). o_id r = oid) \<and>
     (\<exists>p\<in>set (products d). p_id p = pid) \<and>
     d' = d\<lparr>order_items := order_items d @ [new_item (serial n) oid pid quantity price]\<rparr>"
  by (auto simp: insert_item_def)

lemma select_order_sql [sql_simps]:
  "select_order oid n d = Inr (a, d') \<longleftrightarrow> List.find (\<lambda>r. o_id r = oid) (orders d) = Some a \<and> d' = d"
  "select_order oid n d = Inl e \<longleftrightarrow> List.find (\<lambda>r. o_id r = oid) (orders d) = None \<and> e = NoRows"
  by (auto simp: select_order_def sql_simps)

lemma select_in_progress_sql [sql_simps]:
  "select_in_progress oid n d = Inr (a, d') \<longleftrightarrow>
     a = (\<exists>p\<in>set (payments d). pay_order p = oid \<and> pay_status p = PaymentPending) \<and> d' = d"
  "select_in_progress oid n d \<noteq> Inl e"
  by (auto simp: select_in_progress_def sql_simps)

lemma set_cancelled_sql [sql_simps]:
  "set_cancelled oid n d = Inr (a, d') \<longleftrightarrow>
     (\<exists>r\<in>set (orders d). o_id r = oid) \<and> a = oid \<and> d' = d\<lparr>orders :=
        update_where (\<lambda>r. o_id r = oid) (\<lambda>r. r\<lparr>o_status := Cancelled\<rparr>) (orders d)\<rparr>"
  "set_cancelled oid n d = Inl e \<longleftrightarrow> (\<forall>r\<in>set (orders d). o_id r \<noteq> oid) \<and> e = NoRows"
  by (auto simp: set_cancelled_def)

text \<open>The refund a cancellation owes: one row per payment, for the whole amount.\<close>

definition refund_eff :: "int \<Rightarrow> database \<Rightarrow> database \<Rightarrow> bool" where
  "refund_eff oid d d' \<longleftrightarrow>
     (case List.find (\<lambda>p. pay_order p = oid \<and> pay_status p = PaymentSucceeded) (payments d) of
        None \<Rightarrow> d' = d
      | Some p \<Rightarrow>
          0 < pay_amount p \<and>
          (if \<exists>f\<in>set (refunds d). rf_payment f = pay_id p then d' = d
           else \<exists>rid. 0 < rid \<and> (\<forall>f\<in>set (refunds d). rf_id f \<noteq> rid) \<and>
             d' = d\<lparr>refunds := refunds d @ [new_refund rid (pay_id p) (pay_amount p) (now d)]\<rparr>))"

lemma insert_refund_sql:
  "insert_refund oid n d = Inr (a, d') \<Longrightarrow> refund_eff oid d d'"
  by (auto simp: insert_refund_def refund_eff_def split: option.splits if_splits
      intro!: exI [of _ "serial n"])

lemma restore_stock_sql [sql_simps]:
  "restore_stock oid n d = Inr (a, d') \<longleftrightarrow>
     (\<forall>p\<in>set (products d). restored_item oid d p \<noteq> None \<longrightarrow>
        int4 (p_stock (restore_product oid d p)) \<and> 0 \<le> p_stock (restore_product oid d p)) \<and>
     a = map p_id (filter (\<lambda>p. restored_item oid d p \<noteq> None) (products d)) \<and>
     d' = d\<lparr>products := map (restore_product oid d) (products d)\<rparr>"
  by (auto simp: restore_stock_def not_less)


text \<open>Creating: the items one after the other, in product order.\<close>

definition item_db :: "money \<Rightarrow> int \<Rightarrow> int \<Rightarrow> order_item \<Rightarrow> database \<Rightarrow> database" where
  "item_db price iid oid i d = d\<lparr>
     products := update_where (in_stock (oi_quantity i) (oi_product i))
       (add_stock (- oi_quantity i)) (products d),
     order_items := order_items d @ [new_item iid oid (oi_product i) (oi_quantity i) price]\<rparr>"

definition item_eff :: "int \<Rightarrow> order_item \<Rightarrow> database \<Rightarrow> database \<Rightarrow> bool" where
  "item_eff oid i d d' \<longleftrightarrow>
     (\<exists>p iid. List.find (\<lambda>p. p_id p = oi_product i) (products d) = Some p \<and>
        (\<exists>p\<in>set (products d). in_stock (oi_quantity i) (oi_product i) p) \<and>
        0 < oi_quantity i \<and> 0 \<le> p_price p \<and> (\<forall>j\<in>set (order_items d). oi_id j \<noteq> iid) \<and>
        d' = item_db (p_price p) iid oid i d)"

definition item_err :: "int \<Rightarrow> order_item \<Rightarrow> database \<Rightarrow> gerr \<Rightarrow> bool" where
  "item_err oid i d e \<longleftrightarrow>
     (if \<not> int4 (oi_product i) \<or> (\<forall>p\<in>set (products d). p_id p \<noteq> oi_product i)
      then e = errorf_w ''CreateOrder get price: '' (Sentinel ErrProductNotFound) []
      else if int4 (oi_quantity i) \<and> (\<forall>p\<in>set (products d). \<not> in_stock (oi_quantity i) (oi_product i) p)
      then e = errorf_w ''CreateOrder: '' (Sentinel ErrInsufficientStock) []
      else (\<exists>n. take_stock (oi_quantity i) (oi_product i) n d = Inl e) \<or>
        (\<exists>n price d'. insert_item oid (oi_product i) (oi_quantity i) price n d' = Inl e))"

primrec items_eff :: "int \<Rightarrow> order_item list \<Rightarrow> database \<Rightarrow> database \<Rightarrow> bool" where
  "items_eff oid [] d d' \<longleftrightarrow> d' = d"
| "items_eff oid (i # is) d d' \<longleftrightarrow> (\<exists>d1. item_eff oid i d d1 \<and> items_eff oid is d1 d')"

primrec items_err :: "int \<Rightarrow> order_item list \<Rightarrow> database \<Rightarrow> gerr \<Rightarrow> bool" where
  "items_err oid [] d e \<longleftrightarrow> False"
| "items_err oid (i # is) d e \<longleftrightarrow>
     item_err oid i d e \<or> (\<exists>d1. item_eff oid i d d1 \<and> items_err oid is d1 e)"

lemma take_stock_Inl:
  "take_stock q pid n d = Inl e \<Longrightarrow> \<not> int4 q \<or> \<not> int4 pid \<or> (\<exists>p\<in>set (products d). in_stock q pid p)"
  by (auto simp: take_stock_def Let_def split: if_splits)

lemma wp_create_item:
  assumes "in_tx V d0 d w"
    and bad: "\<And>e w'. undone V d0 w' \<Longrightarrow> item_err oid i d e \<or> \<not> faultless V \<Longrightarrow> E e w'"
    and ok: "\<And>d' w' u. item_eff oid i d d' \<Longrightarrow> in_tx V d0 d' w' \<Longrightarrow> Q u w'"
  shows "wp (stmt (select_price (oi_product i)))
    (\<lambda>price. wp (stmt (take_stock (oi_quantity i) (oi_product i)))
      (\<lambda>affected. if affected = 0
        then E (errorf_w ''CreateOrder: '' (Sentinel ErrInsufficientStock) [])
        else wp (stmt (insert_item oid (oi_product i) (oi_quantity i) price)) Q E) E)
    (\<lambda>_. E (errorf_w ''CreateOrder get price: '' (Sentinel ErrProductNotFound) [])) w"
  using assms(1)
  apply (rule wp_stmt_tx)
   apply (rule bad, simp)
   apply (auto simp: sql_simps item_err_def find_None_iff_ball)[1]
  apply (clarsimp simp: sql_simps)
  apply (erule wp_stmt_tx)
   apply (rule bad, simp)
   apply (auto simp: item_err_def dest: find_Some_in take_stock_Inl)[1]
  apply (clarsimp simp: sql_simps)
  apply (intro conjI impI)
   apply (rule bad, simp)
   apply (auto simp: item_err_def count_where_zero dest: find_Some_in)[1]
  apply (erule wp_stmt_tx)
   apply (rule bad, simp)
   apply (simp only: item_err_def count_where_pos)
   apply (auto dest: find_Some_in)[1]
  apply (rule ok)
   apply (auto simp: sql_simps item_eff_def item_db_def count_where_pos)[1]
  apply assumption
  done

lemma wp_create_items:
  assumes "in_tx V d0 d w"
    and "\<And>e w'. undone V d0 w' \<Longrightarrow> items_err oid is d e \<or> \<not> faultless V \<Longrightarrow> E e w'"
    and "\<And>d' w' u. items_eff oid is d d' \<Longrightarrow> in_tx V d0 d' w' \<Longrightarrow> Q u w'"
  shows "wp (create_items oid is) Q E w"
  using assms
proof (induction "is" arbitrary: d w)
  case Nil
  then show ?case by (simp add: wp_simps)
next
  case (Cons i "is")
  note bad = Cons.prems(2) and ok = Cons.prems(3)
  show ?case
    unfolding create_items.simps wp_simps
  proof (rule wp_create_item [OF Cons.prems(1)])
    show "E e w'" if "undone V d0 w'" "item_err oid i d e \<or> \<not> faultless V" for e w'
      using that by (intro bad) auto
    show "wp (create_items oid is) Q E w'" if "item_eff oid i d d'" "in_tx V d0 d' w'" for d' w'
    proof (rule Cons.IH [OF that(2)])
      show "E e w''" if "undone V d0 w''" "items_err oid is d' e \<or> \<not> faultless V" for e w''
        using that \<open>item_eff oid i d d'\<close> by (intro bad) auto
      show "Q u w''" if "items_eff oid is d' d''" "in_tx V d0 d'' w''" for d'' w'' u
        using that \<open>item_eff oid i d d'\<close> by (intro ok [of d'']) auto
    qed
  qed
qed

lemma wp_invalidate_all_tx:
  "in_tx V d0 d w \<Longrightarrow> (\<And>w' u. in_tx V d0 d w' \<Longrightarrow> Q u w') \<Longrightarrow> wp (invalidate_all pids) Q E w"
proof (induction pids arbitrary: w)
  case Nil
  then show ?case by (simp add: wp_simps)
next
  case (Cons pid pids)
  show ?case
    unfolding invalidate_all.simps wp_simps
    by (rule wp_extern_tx [OF Cons.prems(1)]; rule Cons.IH; use Cons.prems(2) in blast)
qed

definition ordered_before :: "string \<Rightarrow> database \<Rightarrow> int option" where
  "ordered_before key d =
     (if key = [] then None
      else case List.find (\<lambda>k. k_key k = key) (idem_keys d) of
        None \<Rightarrow> None
      | Some k \<Rightarrow> if 0 < k_order k then Some (k_order k) else None)"

definition open_order :: "int \<Rightarrow> string \<Rightarrow> database \<Rightarrow> database" where
  "open_order oid key d =
     (let d1 = (if key = [] then d else keep_idem_key key d)
      in d1\<lparr>orders := orders d1 @ [new_order oid (now d1)]\<rparr>)"

definition remember_order :: "int \<Rightarrow> string \<Rightarrow> database \<Rightarrow> database" where
  "remember_order oid key d =
     (if key = [] then d else d\<lparr>idem_keys :=
        update_where (\<lambda>k. k_key k = key) (\<lambda>k. k\<lparr>k_order := oid\<rparr>) (idem_keys d)\<rparr>)"

definition place_eff :: "order_item list \<Rightarrow> string \<Rightarrow> int \<Rightarrow> database \<Rightarrow> database \<Rightarrow> bool" where
  "place_eff items key oid d d' \<longleftrightarrow>
     0 < oid \<and> (\<forall>r\<in>set (orders d). o_id r \<noteq> oid) \<and>
     (\<exists>d1. items_eff oid (sort_key oi_product items) (open_order oid key d) d1 \<and>
        d' = remember_order oid key d1)"

definition create_eff ::
  "order_item list \<Rightarrow> string \<Rightarrow> database \<Rightarrow> int \<times> bool \<Rightarrow> database \<Rightarrow> bool" where
  "create_eff items key d r d' \<longleftrightarrow>
     (case ordered_before key d of
        Some oid \<Rightarrow> r = (oid, True) \<and> d' = d
      | None \<Rightarrow> \<not> snd r \<and> place_eff items key (fst r) d d')"

definition create_err :: "order_item list \<Rightarrow> string \<Rightarrow> database \<Rightarrow> gerr \<Rightarrow> bool" where
  "create_err items key d e \<longleftrightarrow>
     ordered_before key d = None \<and>
     (e = unique_violation ''orders_pkey'' \<or>
      (\<exists>oid. items_err oid (sort_key oi_product items) (open_order oid key d) e))"

lemma orders_keep_idem_key [simp]: "orders (keep_idem_key key d) = orders d"
  by (simp add: keep_idem_key_def)

lemma wp_place_order:
  assumes tx: "in_tx V d0 d1 w" and d1: "d1 = (if key = [] then d else keep_idem_key key d)"
    and "ordered_before key d = None"
    and bad: "\<And>e w'. undone V d0 w' \<Longrightarrow> create_err items key d e \<or> \<not> faultless V \<Longrightarrow> E e w'"
    and ok: "\<And>oid d' w'. create_eff items key d (oid, False) d' \<Longrightarrow> in_tx V d0 d' w' \<Longrightarrow> Q (oid, False) w'"
  shows "wp (attempt (stmt insert_order) fail (\<lambda>oid.
      let sorted_items = sort_key oi_product items in
      attempt (create_items oid sorted_items) fail (\<lambda>_.
      attempt (if key \<noteq> [] then stmt (set_idem_order oid key) else ret ()) fail (\<lambda>_.
      attempt (invalidate_all (map oi_product sorted_items)) fail (\<lambda>_.
      ret (oid, False)))))) Q E w"
  unfolding Let_def wp_simps using tx
proof (rule wp_stmt_tx)
  show "E e w'" if "dead_tx V d0 w'" "(\<exists>n. insert_order n d1 = Inl e) \<or> \<not> faultless V" for e w'
    using that assms(3) by (intro bad) (auto simp: create_err_def sql_simps)
  fix n oid d2 w2
  assume "insert_order n d1 = Inr (oid, d2)" and tx2: "in_tx V d0 d2 w2"
  then have new: "0 < oid" "\<forall>r\<in>set (orders d). o_id r \<noteq> oid" and d2: "d2 = open_order oid key d"
    by (auto simp: sql_simps d1 open_order_def Let_def)
  show "wp (create_items oid (sort_key oi_product items))
      (\<lambda>a. if key \<noteq> [] then wp (stmt (set_idem_order oid key))
         (\<lambda>a. wp (invalidate_all (map oi_product (sort_key oi_product items))) (\<lambda>a. Q (oid, False)) E) E
       else wp (invalidate_all (map oi_product (sort_key oi_product items))) (\<lambda>a. Q (oid, False)) E) E w2"
  proof (rule wp_create_items [OF tx2])
    show "E e w'" if "undone V d0 w'" "items_err oid (sort_key oi_product items) d2 e \<or> \<not> faultless V"
      for e w'
      using that assms(3) by (intro bad) (auto simp: create_err_def d2)
    fix d3 w3 u
    assume eff: "items_eff oid (sort_key oi_product items) d2 d3" and tx3: "in_tx V d0 d3 w3"
    have ok': "Q (oid, False) w'" if "in_tx V d0 (remember_order oid key d3) w'" for w'
      using that eff new assms(3) d2 by (intro ok) (auto simp: create_eff_def place_eff_def)
    show "(if key \<noteq> [] then wp (stmt (set_idem_order oid key))
         (\<lambda>a. wp (invalidate_all (map oi_product (sort_key oi_product items))) (\<lambda>a. Q (oid, False)) E) E
       else wp (invalidate_all (map oi_product (sort_key oi_product items))) (\<lambda>a. Q (oid, False)) E) w3"
    proof (cases "key = []")
      case True
      then show ?thesis
        using tx3 ok' by (simp add: wp_invalidate_all_tx [OF tx3] remember_order_def)
    next
      case False
      have "wp (stmt (set_idem_order oid key))
         (\<lambda>a. wp (invalidate_all (map oi_product (sort_key oi_product items))) (\<lambda>a. Q (oid, False)) E) E w3"
        using tx3
      proof (rule wp_stmt_tx)
        show "E e w'" if "dead_tx V d0 w'" "(\<exists>n. set_idem_order oid key n d3 = Inl e) \<or> \<not> faultless V" for e w'
          using that by (intro bad) (auto simp: sql_simps)
        show "wp (invalidate_all (map oi_product (sort_key oi_product items))) (\<lambda>a. Q (oid, False)) E w'"
          if "set_idem_order oid key n d3 = Inr (a, d')" "in_tx V d0 d' w'" for n a d' w'
          using that False by (intro wp_invalidate_all_tx [OF that(2)] ok')
            (simp add: sql_simps remember_order_def)
      qed
      with False show ?thesis by simp
    qed
  qed
qed

lemma wp_create_order:
  assumes tx: "in_tx V d0 d w"
    and bad: "\<And>e w'. undone V d0 w' \<Longrightarrow> create_err items key d e \<or> \<not> faultless V \<Longrightarrow> E e w'"
    and ok: "\<And>r d' w'. create_eff items key d r d' \<Longrightarrow> in_tx V d0 d' w' \<Longrightarrow> Q r w'"
  shows "wp (create_order items key) Q E w"
proof (cases "key = []")
  case True
  then show ?thesis
    unfolding create_order_def Let_def
    using wp_place_order [OF tx, of key d items E Q] bad ok
    by (simp add: ordered_before_def Let_def)
next
  case False
  let ?place = "attempt (stmt insert_order) fail (\<lambda>oid.
      let sorted_items = sort_key oi_product items in
      attempt (create_items oid sorted_items) fail (\<lambda>_.
      attempt (if key \<noteq> [] then stmt (set_idem_order oid key) else ret ()) fail (\<lambda>_.
      attempt (invalidate_all (map oi_product sorted_items)) fail (\<lambda>_.
      ret (oid, False)))))"
  have "wp (stmt (insert_idem_key key)) (\<lambda>_. wp (stmt (select_idem_order key))
      (\<lambda>existing. if 0 < existing then Q (existing, True) else wp ?place Q E) (\<lambda>_. wp ?place Q E)) E w"
    using tx
  proof (rule wp_stmt_tx)
    show "E e w'" if "dead_tx V d0 w'" "(\<exists>n. insert_idem_key key n d = Inl e) \<or> \<not> faultless V" for e w'
      using that by (intro bad) (auto simp: sql_simps)
    fix n a d1 w1
    assume "insert_idem_key key n d = Inr (a, d1)" and tx1: "in_tx V d0 d1 w1"
    then have d1: "d1 = keep_idem_key key d" by (simp add: sql_simps)
    show "wp (stmt (select_idem_order key))
      (\<lambda>existing. if 0 < existing then Q (existing, True) else wp ?place Q E) (\<lambda>_. wp ?place Q E) w1"
      using tx1
    proof (rule wp_stmt_tx)
      fix e w'
      assume dead: "dead_tx V d0 w'" and "(\<exists>n. select_idem_order key n d1 = Inl e) \<or> \<not> faultless V"
      then have "\<not> faultless V"
        by (auto simp: sql_simps d1 keep_idem_key_def find_None_iff_ball split: if_splits)
      then show "wp ?place Q E w'"
        unfolding wp_simps using dead by (intro wp_stmt_dead [OF dead] bad) auto
    next
      fix n existing d' w'
      assume "select_idem_order key n d1 = Inr (existing, d')" and tx': "in_tx V d0 d' w'"
      then obtain k where k: "List.find (\<lambda>k. k_key k = key) (idem_keys d1) = Some k"
        and ex: "existing = k_order k" and d': "d' = d1" by (auto simp: sql_simps)
      show "(if 0 < existing then Q (existing, True) else wp ?place Q E) w'"
      proof (cases "ordered_before key d")
        case None
        with k ex False have "\<not> 0 < existing"
          by (auto simp: ordered_before_def d1 keep_idem_key_def find_append find_None_iff_ball
              split: option.splits if_splits dest: find_Some_in)
        then show ?thesis
          using wp_place_order [OF tx', of key d items E Q] bad ok None False
          by (simp add: d' d1)
      next
        case (Some oid)
        with k ex False have "0 < existing" "oid = existing" "d1 = d"
          by (auto simp: ordered_before_def d1 keep_idem_key_def find_append
              split: option.splits if_splits dest: find_Some_in)
        then show ?thesis
          using ok [of "(existing, True)" d w'] tx' Some by (simp add: create_eff_def d')
      qed
    qed
  qed
  with False show ?thesis
    unfolding create_order_def Let_def wp_simps by simp
qed

text \<open>Cancelling.\<close>

definition cancel_db :: "int \<Rightarrow> database \<Rightarrow> database" where
  "cancel_db oid d = d\<lparr>
     orders := update_where (\<lambda>r. o_id r = oid) (\<lambda>r. r\<lparr>o_status := Cancelled\<rparr>) (orders d),
     products := map (restore_product oid d) (products d)\<rparr>"

definition cancel_eff :: "int \<Rightarrow> database \<Rightarrow> int \<times> int list \<Rightarrow> database \<Rightarrow> bool" where
  "cancel_eff oid d r d' \<longleftrightarrow>
     fst r = oid \<and> snd r = map p_id (filter (\<lambda>p. restored_item oid d p \<noteq> None) (products d)) \<and>
     (\<forall>p\<in>set (products d). restored_item oid d p \<noteq> None \<longrightarrow> 0 \<le> p_stock (restore_product oid d p)) \<and>
     (\<exists>row. List.find (\<lambda>r. o_id r = oid) (orders d) = Some row \<and>
        (o_status row = Pending \<and>
           (\<forall>p\<in>set (payments d). pay_order p = oid \<longrightarrow> pay_status p \<noteq> PaymentPending) \<and>
           d' = cancel_db oid d \<or>
         o_status row = Paid \<and> refund_eff oid (cancel_db oid d) d'))"

definition cancel_err :: "int \<Rightarrow> database \<Rightarrow> gerr \<Rightarrow> bool" where
  "cancel_err oid d e \<longleftrightarrow>
     (case List.find (\<lambda>r. o_id r = oid) (orders d) of
        None \<Rightarrow> e = errorf_w ''CancelOrder: '' (Sentinel ErrOrderNotFound) []
      | Some row \<Rightarrow>
          if o_status row = Cancelled then e = Sentinel ErrOrderAlreadyCancelled
          else if o_status row \<noteq> Pending \<and> o_status row \<noteq> Paid
          then e = errorf_w ''CancelOrder: '' (Sentinel ErrInvalidStatusTransition) []
          else if o_status row = Pending \<and>
            (\<exists>p\<in>set (payments d). pay_order p = oid \<and> pay_status p = PaymentPending)
          then e = Sentinel ErrPaymentInProgress
          else (\<exists>n d1. insert_refund oid n d1 = Inl e) \<or> (\<exists>n d1. restore_stock oid n d1 = Inl e))"

lemma restored_item_irrelevant [simp]:
  "restored_item oid (d\<lparr>orders := x\<rparr>) = restored_item oid d"
  "restored_item oid (d\<lparr>refunds := y\<rparr>) = restored_item oid d"
  by (simp_all add: fun_eq_iff restored_item_def)

lemma restore_product_irrelevant [simp]:
  "restore_product oid (d\<lparr>orders := x\<rparr>) = restore_product oid d"
  "restore_product oid (d\<lparr>refunds := y\<rparr>) = restore_product oid d"
  by (simp_all add: fun_eq_iff restore_product_def)

lemma refund_eff_products:
  "refund_eff oid d d' \<Longrightarrow> refund_eff oid (d\<lparr>products := x\<rparr>) (d'\<lparr>products := x\<rparr>)"
  by (auto simp: refund_eff_def split: option.splits if_splits)

lemma refund_eff_frame:
  "refund_eff oid d d' \<Longrightarrow> products d' = products d \<and> restored_item oid d' = restored_item oid d \<and>
    restore_product oid d' = restore_product oid d"
  by (auto simp: refund_eff_def split: option.splits if_splits)

lemma insert_refund_cancelled:
  assumes "insert_refund oid n (d\<lparr>orders :=
      update_where (\<lambda>r. o_id r = oid) (\<lambda>r. r\<lparr>o_status := Cancelled\<rparr>) (orders d)\<rparr>) = Inr (u, d')"
  shows "restored_item oid d' = restored_item oid d" and "restore_product oid d' = restore_product oid d"
    and "products d' = products d"
    and "refund_eff oid (cancel_db oid d) (d'\<lparr>products := map (restore_product oid d) (products d)\<rparr>)"
  using refund_eff_frame [OF insert_refund_sql [OF assms]]
    refund_eff_products [OF insert_refund_sql [OF assms], of "map (restore_product oid d) (products d)"]
  by (simp_all add: cancel_db_def)

lemma performs_cancel_tx: "performs (cancel_tx oid) (cancel_eff oid) (cancel_err oid)"
  unfolding cancel_tx_def
  by (rule performs_tx,
      auto simp: wp_simps sql_simps elim!: wp_stmt_tx wp_commit_ok,
      auto simp: cancel_err_def can_transition_iff cancel_eff_def insert_refund_cancelled
        split: if_splits dest: find_Some_in,
      auto simp: cancel_db_def)

end
