(* ===== verification/Rely.thy ===== *)
theory Rely
  imports Store
begin

text \<open>
  Rely and guarantee: operations that make several calls, between which other sessions work.

  \<open>S d d'\<close> is a step of the whole system on the committed database. \<open>steady S V\<close> says that what
  other sessions do before a call is a sequence of such steps, and that failing calls fail with errors
  of the driver. \<open>runs S V P m Q E\<close>: from a committed
  state with \<open>P\<close>, all that \<open>m\<close> does to the committed database is, interleaved with the others, a
  sequence of such steps again (the guarantee), and it ends in \<open>Q\<close> with its value or in \<open>E\<close> with its
  error. A precondition of a call has to be stable under \<open>S\<close>.
\<close>

definition steady :: "(database \<Rightarrow> database \<Rightarrow> bool) \<Rightarrow> event set \<Rightarrow> bool" where
  "steady S V \<longleftrightarrow> (\<forall>ev\<in>V. (\<forall>d. S\<^sup>*\<^sup>* d (env ev d)) \<and> driver_fault (flt ev))"

definition stable :: "(database \<Rightarrow> database \<Rightarrow> bool) \<Rightarrow> (database \<Rightarrow> bool) \<Rightarrow> bool" where
  "stable S P \<longleftrightarrow> (\<forall>d d'. P d \<longrightarrow> S d d' \<longrightarrow> P d')"

definition runs ::
  "(database \<Rightarrow> database \<Rightarrow> bool) \<Rightarrow> event set \<Rightarrow> (database \<Rightarrow> bool) \<Rightarrow> 'a act \<Rightarrow>
   ('a \<Rightarrow> database \<Rightarrow> bool) \<Rightarrow> (gerr \<Rightarrow> database \<Rightarrow> bool) \<Rightarrow> bool" where
  "runs S V P m Q E \<longleftrightarrow>
     (\<forall>d w. steady S V \<longrightarrow> outside V d w \<longrightarrow> P d \<longrightarrow>
        wp m (\<lambda>a w'. \<exists>d'. outside V d' w' \<and> S\<^sup>*\<^sup>* d d' \<and> Q a d')
          (\<lambda>e w'. \<exists>d'. outside V d' w' \<and> S\<^sup>*\<^sup>* d d' \<and> E e d') w)"

named_theorems stable_intros \<open>stable assertions\<close>

lemma stableI: "(\<And>d d'. P d \<Longrightarrow> S d d' \<Longrightarrow> P d') \<Longrightarrow> stable S P"
  by (auto simp: stable_def)

lemma stableD: "stable S P \<Longrightarrow> P d \<Longrightarrow> S\<^sup>*\<^sup>* d d' \<Longrightarrow> P d'"
  unfolding stable_def by (rotate_tac 2) (induction rule: rtranclp_induct, auto)

lemma stable_True [stable_intros]: "stable S (\<lambda>d. True)"
  by (simp add: stable_def)

lemma stable_const [stable_intros]: "stable S (\<lambda>d. c)"
  by (simp add: stable_def)

lemma stable_conj [stable_intros]: "stable S P \<Longrightarrow> stable S Q \<Longrightarrow> stable S (\<lambda>d. P d \<and> Q d)"
  unfolding stable_def by blast

lemma stable_ex [stable_intros]: "(\<And>x. stable S (P x)) \<Longrightarrow> stable S (\<lambda>d. \<exists>x. P x d)"
  unfolding stable_def by blast

lemma stable_imp_const [stable_intros]: "stable S P \<Longrightarrow> stable S (\<lambda>d. c \<longrightarrow> P d)"
  unfolding stable_def by blast

lemma steady_next:
  assumes "steady S V" and "outside V d w"
  shows "S\<^sup>*\<^sup>* c (env (next_event w) c)"
  using assms next_event_in [of w V]
  by (auto simp: steady_def outside_def quiet_event_def)

lemma runs_ret: "(\<And>d. P d \<Longrightarrow> Q a d) \<Longrightarrow> runs S V P (ret a) Q E"
  by (auto simp: runs_def wp_simps)

lemma runs_fail: "(\<And>d. P d \<Longrightarrow> E e d) \<Longrightarrow> runs S V P (fail e) Q E"
  by (auto simp: runs_def wp_simps)

lemma runs_attempt:
  assumes m: "runs S V P m M F"
    and h: "\<And>e. runs S V (F e) (h e) Q E" and k: "\<And>a. runs S V (M a) (k a) Q E"
  shows "runs S V P (attempt m h k) Q E"
  unfolding runs_def wp_simps
proof (intro allI impI)
  fix d w
  assume st: "steady S V" and out: "outside V d w" and "P d"
  then have run: "wp m (\<lambda>a w'. \<exists>d'. outside V d' w' \<and> S\<^sup>*\<^sup>* d d' \<and> M a d')
      (\<lambda>e w'. \<exists>d'. outside V d' w' \<and> S\<^sup>*\<^sup>* d d' \<and> F e d') w"
    using m by (simp add: runs_def)
  have step: "wp n (\<lambda>a w'. \<exists>d'. outside V d' w' \<and> S\<^sup>*\<^sup>* d d' \<and> Q a d')
        (\<lambda>e w'. \<exists>d'. outside V d' w' \<and> S\<^sup>*\<^sup>* d d' \<and> E e d') w'"
    if "runs S V R n Q E" and "outside V d' w'" and "S\<^sup>*\<^sup>* d d'" and "R d'" for n R w' d'
  proof -
    have "wp n (\<lambda>a w'. \<exists>d''. outside V d'' w' \<and> S\<^sup>*\<^sup>* d' d'' \<and> Q a d'')
        (\<lambda>e w'. \<exists>d''. outside V d'' w' \<and> S\<^sup>*\<^sup>* d' d'' \<and> E e d'') w'"
      using that st by (simp add: runs_def)
    then show ?thesis
      by (rule wp_mono) (meson that(3) rtranclp_trans)+
  qed
  show "wp m (\<lambda>a. wp (k a) (\<lambda>a w'. \<exists>d'. outside V d' w' \<and> S\<^sup>*\<^sup>* d d' \<and> Q a d')
        (\<lambda>e w'. \<exists>d'. outside V d' w' \<and> S\<^sup>*\<^sup>* d d' \<and> E e d'))
      (\<lambda>e. wp (h e) (\<lambda>a w'. \<exists>d'. outside V d' w' \<and> S\<^sup>*\<^sup>* d d' \<and> Q a d')
        (\<lambda>e w'. \<exists>d'. outside V d' w' \<and> S\<^sup>*\<^sup>* d d' \<and> E e d')) w"
    using run by (rule wp_mono) (use step h k in blast)+
qed

lemma runs_conseq:
  assumes "runs S V P m Q E"
    and "\<And>d. P' d \<Longrightarrow> P d" and "\<And>a d. Q a d \<Longrightarrow> Q' a d" and "\<And>e d. E e d \<Longrightarrow> E' e d"
  shows "runs S V P' m Q' E'"
  unfolding runs_def
proof (intro allI impI)
  fix d w
  assume "steady S V" and "outside V d w" and "P' d"
  then have "wp m (\<lambda>a w'. \<exists>d'. outside V d' w' \<and> S\<^sup>*\<^sup>* d d' \<and> Q a d')
      (\<lambda>e w'. \<exists>d'. outside V d' w' \<and> S\<^sup>*\<^sup>* d d' \<and> E e d') w"
    using assms(1,2) by (simp add: runs_def)
  then show "wp m (\<lambda>a w'. \<exists>d'. outside V d' w' \<and> S\<^sup>*\<^sup>* d d' \<and> Q' a d')
      (\<lambda>e w'. \<exists>d'. outside V d' w' \<and> S\<^sup>*\<^sup>* d d' \<and> E' e d') w"
    by (rule wp_mono) (use assms(3,4) in blast)+
qed

lemma runs_result_of:
  assumes "runs S V P m Q F"
  shows "runs S V P (result_of m) (\<lambda>r d. case r of Inl e \<Rightarrow> F e d | Inr a \<Rightarrow> Q a d) E"
  unfolding result_of_def by (rule runs_attempt [OF assms]) (auto intro: runs_ret)

text \<open>What is stable is not lost.\<close>

lemma runs_frame:
  assumes m: "runs S V P m Q E" and "stable S R"
  shows "runs S V (\<lambda>d. P d \<and> R d) m (\<lambda>a d. Q a d \<and> R d) (\<lambda>e d. E e d \<and> R d)"
  unfolding runs_def
proof (intro allI impI)
  fix d w
  assume "steady S V" and "outside V d w" and P: "P d \<and> R d"
  with m have "wp m (\<lambda>a w'. \<exists>d'. outside V d' w' \<and> S\<^sup>*\<^sup>* d d' \<and> Q a d')
      (\<lambda>e w'. \<exists>d'. outside V d' w' \<and> S\<^sup>*\<^sup>* d d' \<and> E e d') w"
    by (simp add: runs_def)
  then show "wp m (\<lambda>a w'. \<exists>d'. outside V d' w' \<and> S\<^sup>*\<^sup>* d d' \<and> Q a d' \<and> R d')
      (\<lambda>e w'. \<exists>d'. outside V d' w' \<and> S\<^sup>*\<^sup>* d d' \<and> E e d' \<and> R d') w"
    by (rule wp_mono) (use P stableD [OF assms(2)] in blast)+
qed

lemma runs_if:
  "(b \<Longrightarrow> runs S V P m Q E) \<Longrightarrow> (\<not> b \<Longrightarrow> runs S V P n Q E) \<Longrightarrow>
   runs S V P (if b then m else n) Q E"
  by simp

lemma runs_false: "runs S V (\<lambda>_. False) m Q E"
  by (simp add: runs_def)

text \<open>A precondition that does not speak of the database is an assumption.\<close>

lemma runs_assume: "(c \<Longrightarrow> runs S V P m Q E) \<Longrightarrow> runs S V (\<lambda>d. c \<and> P d) m Q E"
  by (auto simp: runs_def)

text \<open>
  \<open>once m R F\<close>: interleaved with what others do (\<open>others\<close>), \<open>m\<close> has its effect \<open>R\<close> exactly once when
  it returns a value; with an error it had none, or, after a lost answer, exactly one. \<open>F\<close>
  are the errors of fault-free runs.
\<close>

definition others :: "event set \<Rightarrow> database \<Rightarrow> database \<Rightarrow> bool" where
  "others V = (\<lambda>d d'. \<exists>ev\<in>insert quiet_event V. d' = env ev d)\<^sup>*\<^sup>*"

definition once ::
  "'a act \<Rightarrow> (database \<Rightarrow> 'a \<Rightarrow> database \<Rightarrow> bool) \<Rightarrow> (database \<Rightarrow> gerr \<Rightarrow> bool) \<Rightarrow> bool" where
  "once m R F \<longleftrightarrow>
     (\<forall>V d w. outside V d w \<longrightarrow>
        wp m
          (\<lambda>a w'. \<exists>d0 d1. others V d d0 \<and> R d0 a d1 \<and> outside V d1 w')
          (\<lambda>e w'. \<exists>d0. others V d d0 \<and>
             (outside V d0 w' \<and> (F d0 e \<or> \<not> faultless V) \<or>
              \<not> faultless V \<and> as_pg_error e = None \<and> (\<exists>a d1. R d0 a d1 \<and> outside V d1 w'))) w)"

lemma others_refl [simp]: "others V d d"
  by (simp add: others_def)

lemma others_trans [trans]: "others V c d \<Longrightarrow> others V d e \<Longrightarrow> others V c e"
  by (simp add: others_def)

lemma others_next: "outside V d w \<Longrightarrow> others V c (env (next_event w) c)"
  unfolding others_def using next_event_in [of w V] by (auto simp: outside_def)

lemma others_steady: "others V d d' \<Longrightarrow> steady S V \<Longrightarrow> S\<^sup>*\<^sup>* d d'"
  unfolding others_def
proof (induction rule: rtranclp_induct)
  case (step d1 d2)
  then have "S\<^sup>*\<^sup>* d1 d2" by (auto simp: steady_def quiet_event_def)
  with step show ?case by (meson rtranclp_trans)
qed simp

lemma onceD:
  assumes "once m R F" and "outside V d w"
  shows "wp m
    (\<lambda>a w'. \<exists>d0 d1. others V d d0 \<and> R d0 a d1 \<and> outside V d1 w')
    (\<lambda>e w'. \<exists>d0. others V d d0 \<and>
       (outside V d0 w' \<and> (F d0 e \<or> \<not> faultless V) \<or>
        \<not> faultless V \<and> as_pg_error e = None \<and> (\<exists>a d1. R d0 a d1 \<and> outside V d1 w'))) w"
  using assms by (simp add: once_def)

lemma once_performs: "performs m R F \<Longrightarrow> once m R F"
  unfolding once_def
proof (intro allI impI)
  fix V d w
  assume "performs m R F" and out: "outside V d w"
  then show "wp m
    (\<lambda>a w'. \<exists>d0 d1. others V d d0 \<and> R d0 a d1 \<and> outside V d1 w')
    (\<lambda>e w'. \<exists>d0. others V d d0 \<and>
       (outside V d0 w' \<and> (F d0 e \<or> \<not> faultless V) \<or>
        \<not> faultless V \<and> as_pg_error e = None \<and> (\<exists>a d1. R d0 a d1 \<and> outside V d1 w'))) w"
    by (rule wp_mono [OF performsD]) (use others_next [OF out, of d] in blast)+
qed

lemma runs_once:
  assumes m: "once m R F" and stable: "stable S P"
    and guar: "\<And>d a d'. P d \<Longrightarrow> R d a d' \<Longrightarrow> S\<^sup>*\<^sup>* d d'"
    and ok: "\<And>d a d'. P d \<Longrightarrow> R d a d' \<Longrightarrow> Q a d'"
    and bad: "\<And>d e. P d \<Longrightarrow> F d e \<or> \<not> faultless V \<Longrightarrow> E e d"
    and lost: "\<And>d a d' e. P d \<Longrightarrow> R d a d' \<Longrightarrow> \<not> faultless V \<Longrightarrow> as_pg_error e = None \<Longrightarrow> E e d'"
  shows "runs S V P m Q E"
  unfolding runs_def
proof (intro allI impI)
  fix d w
  assume st: "steady S V" and out: "outside V d w" and P: "P d"
  have S0: "S\<^sup>*\<^sup>* d d0" and P0: "P d0" if "others V d d0" for d0
    using others_steady [OF that st] stableD [OF stable P] by auto
  have done_: "S\<^sup>*\<^sup>* d d'" if "others V d d0" "R d0 a d'" for d0 a d'
    using S0 [OF that(1)] guar [OF P0 [OF that(1)] that(2)] by (rule rtranclp_trans)
  show "wp m (\<lambda>a w'. \<exists>d'. outside V d' w' \<and> S\<^sup>*\<^sup>* d d' \<and> Q a d')
      (\<lambda>e w'. \<exists>d'. outside V d' w' \<and> S\<^sup>*\<^sup>* d d' \<and> E e d') w"
    by (rule wp_mono [OF onceD [OF m out]]) (use done_ S0 P0 ok bad lost in blast)+
qed

lemmas runs_performs = runs_once [OF once_performs]

text \<open>\<open>served m R F\<close>: the same, when \<open>m\<close> goes on after its effect with calls that change nothing.\<close>

definition served ::
  "'a act \<Rightarrow> (database \<Rightarrow> 'a \<Rightarrow> database \<Rightarrow> bool) \<Rightarrow> (database \<Rightarrow> gerr \<Rightarrow> bool) \<Rightarrow> bool" where
  "served m R F \<longleftrightarrow>
     (\<forall>V d w. outside V d w \<longrightarrow>
        wp m
          (\<lambda>a w'. \<exists>d0 d1 d2. others V d d0 \<and> R d0 a d1 \<and> others V d1 d2 \<and> outside V d2 w')
          (\<lambda>e w'. \<exists>d0. others V d d0 \<and>
             (outside V d0 w' \<and> (F d0 e \<or> \<not> faultless V) \<or>
              \<not> faultless V \<and> as_pg_error e = None \<and>
                (\<exists>a d1 d2. R d0 a d1 \<and> others V d1 d2 \<and> outside V d2 w'))) w)"

lemma servedD:
  assumes "served m R F" and "outside V d w"
  shows "wp m
    (\<lambda>a w'. \<exists>d0 d1 d2. others V d d0 \<and> R d0 a d1 \<and> others V d1 d2 \<and> outside V d2 w')
    (\<lambda>e w'. \<exists>d0. others V d d0 \<and>
       (outside V d0 w' \<and> (F d0 e \<or> \<not> faultless V) \<or>
        \<not> faultless V \<and> as_pg_error e = None \<and>
          (\<exists>a d1 d2. R d0 a d1 \<and> others V d1 d2 \<and> outside V d2 w'))) w"
  using assms by (simp add: served_def)

lemma served_once: "once m R F \<Longrightarrow> served m R F"
  unfolding served_def
proof (intro allI impI)
  fix V d w
  assume "once m R F" and "outside V d w"
  then show "wp m
    (\<lambda>a w'. \<exists>d0 d1 d2. others V d d0 \<and> R d0 a d1 \<and> others V d1 d2 \<and> outside V d2 w')
    (\<lambda>e w'. \<exists>d0. others V d d0 \<and>
       (outside V d0 w' \<and> (F d0 e \<or> \<not> faultless V) \<or>
        \<not> faultless V \<and> as_pg_error e = None \<and>
          (\<exists>a d1 d2. R d0 a d1 \<and> others V d1 d2 \<and> outside V d2 w'))) w"
    by (rule wp_mono [OF onceD]) (use others_refl in blast)+
qed

text \<open>A call that changes nothing and always returns.\<close>

definition idle :: "'a act \<Rightarrow> bool" where
  "idle m \<longleftrightarrow> (\<forall>V d w. outside V d w \<longrightarrow>
     wp m (\<lambda>_ w'. \<exists>d'. others V d d' \<and> outside V d' w') (\<lambda>_ _. False) w)"

lemma idle_ret [intro]: "idle (ret a)"
  by (auto simp: idle_def wp_simps intro: others_refl)

lemma idle_extern [intro]:
  assumes "\<And>e. idle (h e)" and "idle (k ())"
  shows "idle (attempt (extern x) h k)"
  unfolding idle_def wp_simps
proof (intro allI impI)
  fix V d w
  assume out: "outside V d w"
  have again: "wp m (\<lambda>_ w'. \<exists>d'. others V d d' \<and> outside V d' w') (\<lambda>_ _. False) w'"
    if "idle m" "outside V (env (next_event w) d) w'" for m :: "'a act" and w'
  proof -
    have "wp m (\<lambda>_ w''. \<exists>d'. others V (env (next_event w) d) d' \<and> outside V d' w'') (\<lambda>_ _. False) w'"
      using that by (simp add: idle_def)
    then show ?thesis
      by (rule wp_mono) (use others_trans [OF others_next [OF out]] in blast)+
  qed
  show "wp (extern x) (\<lambda>a. wp (k a) (\<lambda>_ w'. \<exists>d'. others V d d' \<and> outside V d' w') (\<lambda>_ _. False))
      (\<lambda>e. wp (h e) (\<lambda>_ w'. \<exists>d'. others V d d' \<and> outside V d' w') (\<lambda>_ _. False)) w"
    by (rule wp_extern_outside [OF out]) (use again assms in auto)
qed

lemma idle_attempt:
  assumes m: "idle m" and k: "\<And>a. idle (k a)"
  shows "idle (attempt m fail k)"
  unfolding idle_def wp_simps
proof (intro allI impI)
  fix V d w
  assume "outside V d w"
  with m have "wp m (\<lambda>_ w'. \<exists>d'. others V d d' \<and> outside V d' w') (\<lambda>_ _. False) w"
    by (simp add: idle_def)
  then show "wp m (\<lambda>a. wp (k a) (\<lambda>_ w'. \<exists>d'. others V d d' \<and> outside V d' w') (\<lambda>_ _. False))
      (\<lambda>e. (\<lambda>_. False)) w"
  proof (rule wp_mono)
    fix a w'
    assume "\<exists>d'. others V d d' \<and> outside V d' w'"
    then obtain d1 where d1: "others V d d1" "outside V d1 w'" by blast
    have "wp (k a) (\<lambda>_ w'. \<exists>d'. others V d1 d' \<and> outside V d' w') (\<lambda>_ _. False) w'"
      using k [of a] d1(2) by (simp add: idle_def)
    then show "wp (k a) (\<lambda>_ w'. \<exists>d'. others V d d' \<and> outside V d' w') (\<lambda>_ _. False) w'"
      by (rule wp_mono) (use d1(1) others_trans in blast)+
  qed simp
qed

lemma served_idle:
  assumes m: "served m R F" and k: "\<And>a. idle (k a)"
    and result: "\<And>a w b w'. k a w = (Inr b, w') \<Longrightarrow> b = f a"
  shows "served (attempt m fail k) (\<lambda>d b d'. \<exists>a. b = f a \<and> R d a d') F"
  unfolding served_def wp_simps
proof (intro allI impI)
  fix V d w
  assume out: "outside V d w"
  let ?Q = "\<lambda>b w'. \<exists>d0 d1 d2. others V d d0 \<and> (\<exists>a. b = f a \<and> R d0 a d1) \<and> others V d1 d2 \<and> outside V d2 w'"
  let ?E = "\<lambda>e w'. \<exists>d0. others V d d0 \<and>
       (outside V d0 w' \<and> (F d0 e \<or> \<not> faultless V) \<or>
        \<not> faultless V \<and> as_pg_error e = None \<and>
          (\<exists>b d1 d2. (\<exists>a. b = f a \<and> R d0 a d1) \<and> others V d1 d2 \<and> outside V d2 w'))"
  show "wp m (\<lambda>a. wp (k a) ?Q ?E) ?E w"
  proof (rule wp_mono [OF servedD [OF m out]])
    fix a w'
    assume "\<exists>d0 d1 d2. others V d d0 \<and> R d0 a d1 \<and> others V d1 d2 \<and> outside V d2 w'"
    then obtain d0 d1 d2 where run: "others V d d0" "R d0 a d1" "others V d1 d2" and "outside V d2 w'"
      by blast
    then have "wp (k a) (\<lambda>_ w''. \<exists>d'. others V d2 d' \<and> outside V d' w'') (\<lambda>_ _. False) w'"
      using k by (simp add: idle_def)
    then show "wp (k a) ?Q ?E w'"
      using run others_trans [OF run(3)] result
      by (auto simp: wp_def split: prod.splits sum.splits) blast
  qed blast
qed

lemma foreign_lost [simp]: "foreign e \<Longrightarrow> foreign (lost_error e)"
  by (simp add: foreign_def lost_error_def)

lemma runs_stmt:
  assumes stable: "stable S P"
    and ok: "\<And>n d a d'. P d \<Longrightarrow> f n d = Inr (a, d') \<Longrightarrow> S\<^sup>*\<^sup>* d d' \<and> Q a d'"
    and bad: "\<And>n d e. P d \<Longrightarrow> f n d = Inl e \<Longrightarrow> E e d"
    and fault: "\<And>d e. P d \<Longrightarrow> foreign e \<Longrightarrow> E e d"
    and lost: "\<And>n d a d' e. P d \<Longrightarrow> f n d = Inr (a, d') \<Longrightarrow> foreign e \<Longrightarrow> E e d'"
  shows "runs S V P (stmt f) Q E"
  unfolding runs_def
proof (intro allI impI)
  fix d w
  assume st: "steady S V" and out: "outside V d w" and P: "P d"
  let ?ev = "next_event w"
  let ?d = "env ?ev d"
  have sd: "S\<^sup>*\<^sup>* d ?d" by (rule steady_next [OF st out])
  with stable P have P': "P ?d" by (rule stableD)
  have drv: "driver_fault (flt ?ev)"
    using next_event_in [of w V] st out by (auto simp: steady_def outside_def driver_fault_def quiet_event_def)
  note w = out [unfolded outside_def]
  have out': "outside V d' ((pop w)\<lparr>db := d'\<rparr>)" for d' using w by (simp add: outside_def set_tl_subset)
  show "wp (stmt f) (\<lambda>a w'. \<exists>d'. outside V d' w' \<and> S\<^sup>*\<^sup>* d d' \<and> Q a d')
      (\<lambda>e w'. \<exists>d'. outside V d' w' \<and> S\<^sup>*\<^sup>* d d' \<and> E e d') w"
  proof (cases "f (fresh ?ev) ?d")
    case (Inl e)
    then show ?thesis
      using w drv out' [of ?d] sd bad [OF P' Inl] fault [OF P'] foreign_lost
      by (cases "flt ?ev") (auto simp: wp_def stmt_def Let_def driver_fault_def)
  next
    case (Inr b)
    obtain a d' where b: "b = (a, d')" by (cases b)
    have "S\<^sup>*\<^sup>* d d'" "Q a d'" using ok [OF P' Inr [unfolded b]] sd by (auto intro: rtranclp_trans)
    note done_ = this
    show ?thesis
    proof (cases "flt ?ev")
      case (Lost e)
      then have "E (lost_error e) d'"
        using drv lost [OF P' Inr [unfolded b]] foreign_lost by (simp add: driver_fault_def)
      with done_ show ?thesis
        using w Inr Lost out' [of d'] by (auto simp: wp_def stmt_def Let_def b)
    qed (use w drv out' [of d'] out' [of ?d] sd fault [OF P'] done_ Inr in
      \<open>auto simp: wp_def stmt_def Let_def driver_fault_def b\<close>)
  qed
qed

lemma runs_served:
  assumes m: "served m R F" and stable: "stable S P"
    and guar: "\<And>d a d'. P d \<Longrightarrow> R d a d' \<Longrightarrow> S\<^sup>*\<^sup>* d d'"
    and ok: "\<And>d a d' d''. P d \<Longrightarrow> R d a d' \<Longrightarrow> S\<^sup>*\<^sup>* d' d'' \<Longrightarrow> Q a d''"
    and bad: "\<And>e d. P d \<Longrightarrow> E e d"
    and lost: "\<And>d a d' d'' e. P d \<Longrightarrow> R d a d' \<Longrightarrow> S\<^sup>*\<^sup>* d' d'' \<Longrightarrow> E e d''"
  shows "runs S V P m Q E"
  unfolding runs_def
proof (intro allI impI)
  fix d w
  assume st: "steady S V" and out: "outside V d w" and P: "P d"
  have S0: "S\<^sup>*\<^sup>* d d0" and P0: "P d0" if "others V d d0" for d0
    using others_steady [OF that st] stableD [OF stable P] by auto
  have S2: "S\<^sup>*\<^sup>* d1 d2" if "others V d1 d2" for d1 d2 using others_steady [OF that st] .
  have done_: "S\<^sup>*\<^sup>* d d2" if "others V d d0" "R d0 a d1" "others V d1 d2" for d0 a d1 d2
    using S0 [OF that(1)] guar [OF P0 [OF that(1)] that(2)] S2 [OF that(3)] by (meson rtranclp_trans)
  show "wp m (\<lambda>a w'. \<exists>d'. outside V d' w' \<and> S\<^sup>*\<^sup>* d d' \<and> Q a d')
      (\<lambda>e w'. \<exists>d'. outside V d' w' \<and> S\<^sup>*\<^sup>* d d' \<and> E e d') w"
    by (rule wp_mono [OF servedD [OF m out]]) (use done_ S0 P0 S2 ok bad lost in blast)+
qed

lemma runs_extern:
  assumes "stable S P" and "\<And>d. P d \<Longrightarrow> Q () d" and "\<And>e d. P d \<Longrightarrow> E e d"
  shows "runs S V P (extern x) Q E"
  unfolding runs_def
proof (intro allI impI)
  fix d w
  assume st: "steady S V" and out: "outside V d w" and P: "P d"
  have sd: "S\<^sup>*\<^sup>* d (env (next_event w) d)" by (rule steady_next [OF st out])
  with assms(1) P have P': "P (env (next_event w) d)" by (rule stableD)
  from out show "wp (extern x) (\<lambda>a w'. \<exists>d'. outside V d' w' \<and> S\<^sup>*\<^sup>* d d' \<and> Q a d')
      (\<lambda>e w'. \<exists>d'. outside V d' w' \<and> S\<^sup>*\<^sup>* d d' \<and> E e d') w"
    by (rule wp_extern_outside) (use sd P' assms(2,3) in blast)+
qed

lemma runs_pause:
  assumes "stable S P" and "\<And>d. P d \<Longrightarrow> Q () d" and "\<And>e d. P d \<Longrightarrow> E e d"
  shows "runs S V P (pause t) Q E"
  unfolding runs_def
proof (intro allI impI)
  fix d w
  assume st: "steady S V" and out: "outside V d w" and P: "P d"
  have sd: "S\<^sup>*\<^sup>* d (env (next_event w) d)" by (rule steady_next [OF st out])
  with assms(1) P have P': "P (env (next_event w) d)" by (rule stableD)
  from out show "wp (pause t) (\<lambda>a w'. \<exists>d'. outside V d' w' \<and> S\<^sup>*\<^sup>* d d' \<and> Q a d')
      (\<lambda>e w'. \<exists>d'. outside V d' w' \<and> S\<^sup>*\<^sup>* d d' \<and> E e d') w"
    by (rule wp_pause_outside) (use sd P' assms(2,3) in blast)+
qed

text \<open>What a caller reads off \<open>runs\<close>.\<close>

lemma runs_result:
  assumes "runs S V P m Q E" and "steady S V" and "outside V d w" and "P d" and "m w = (r, w')"
  shows "S\<^sup>*\<^sup>* d (db w') \<and> saved w' = None \<and>
    (case r of Inl e \<Rightarrow> E e (db w') | Inr a \<Rightarrow> Q a (db w'))"
proof -
  have "wp m (\<lambda>a w'. \<exists>d'. outside V d' w' \<and> S\<^sup>*\<^sup>* d d' \<and> Q a d')
      (\<lambda>e w'. \<exists>d'. outside V d' w' \<and> S\<^sup>*\<^sup>* d d' \<and> E e d') w"
    using assms by (simp add: runs_def)
  from wp_run [OF this assms(5)] show ?thesis
    by (cases r) (auto simp: outside_def)
qed

end
