(* ===== verification/Backoff.thy ===== *)
theory Backoff
  imports Base "HOL-Library.Word"
begin

text \<open>
  The pauses between attempts: \<open>nextBackoff\<close> of \<open>worker/outbox_relay.go\<close>, the doubling of
  \<open>worker/refund_worker.go\<close> and \<open>worker/reconcile_worker.go\<close> and that of \<open>retry/retry.go\<close>.

  A \<open>time.Duration\<close> is a signed 64-bit count of nanoseconds, so the products and shifts of the code
  are those of \<open>64 word\<close>: \<open>push_bit\<close> drops the bits that leave the word, and a count of 64 or more
  gives 0. The locale \<open>backoff_schedule\<close> is what the workers promise their users: a first pause,
  doubled up to a cap. It is interpreted below for each of the four schedules.
\<close>

section \<open>The code\<close>

definition shift_backoff :: "64 word \<Rightarrow> 64 word \<Rightarrow> nat \<Rightarrow> 64 word" where
  "shift_backoff base cap attempts =
     (let d = push_bit (attempts - 1) base
      in if d \<le>s 0 \<or> cap <s d then cap else d)"

definition next_backoff :: "64 word \<Rightarrow> 64 word \<Rightarrow> 64 word \<Rightarrow> 64 word" where
  "next_backoff cur base cap =
     (let next = cur * 2;
          next = (if next <s base then base else next)
      in if cap <s next then cap else next)"

definition refund_backoff :: "nat \<Rightarrow> time" where
  "refund_backoff attempts = sint (shift_backoff 2000000000 60000000000 attempts)"

definition reconcile_backoff :: "nat \<Rightarrow> time" where
  "reconcile_backoff attempts = sint (shift_backoff 10000000000 300000000000 attempts)"

definition relay_interval :: "64 word" where
  "relay_interval = 500000000"

definition relay_backoff :: "64 word \<Rightarrow> 64 word" where
  "relay_backoff delay = next_backoff delay relay_interval 30000000000"

definition retry_delay :: "nat \<Rightarrow> time" where
  "retry_delay attempt =
     (let delay = milliseconds 10 * 2 ^ attempt
      in if milliseconds 500 < delay then milliseconds 500 else delay)"

section \<open>The interface\<close>

locale backoff_schedule =
  fixes pause_after :: "nat \<Rightarrow> time" and first :: time and cap :: time
  assumes first_pos: "0 < first" and first_le: "first \<le> cap"
    and pause_first: "pause_after 0 = first"
    and pause_Suc: "pause_after (Suc n) = min cap (2 * pause_after n)"
begin

lemma closed_form: "pause_after n = min cap (first * 2 ^ n)"
proof (induction n)
  case 0
  then show ?case using first_le by (simp add: pause_first)
next
  case (Suc n)
  have "0 < first * 2 ^ n" using first_pos by simp
  then show ?case using Suc first_pos first_le by (simp add: pause_Suc min_def)
qed

lemma bounds: "0 < pause_after n \<and> pause_after n \<le> cap"
  using first_pos first_le by (simp add: closed_form)

lemma grows: "pause_after n \<le> pause_after (Suc n)"
  using bounds [of n] by (simp add: pause_Suc min_def)

lemma mono: "m \<le> n \<Longrightarrow> pause_after m \<le> pause_after n"
  by (induction rule: dec_induct) (use grows order.trans in blast)+

lemma at_least_first: "first \<le> pause_after n"
  using mono [of 0 n] by (simp add: pause_first)

lemma at_cap: "cap \<le> first * 2 ^ n \<Longrightarrow> pause_after n = cap"
  by (simp add: closed_form)

lemma total: "0 \<le> sum_list (map pause_after [0..<n]) \<and> sum_list (map pause_after [0..<n]) \<le> int n * cap"
proof (induction n)
  case (Suc n)
  then show ?case using bounds [of n] by (simp add: algebra_simps)
qed simp

end

section \<open>The schedules\<close>

lemma sint_of_int_64: "- (2 ^ 63) \<le> x \<Longrightarrow> x < 2 ^ 63 \<Longrightarrow> sint (word_of_int x :: 64 word) = x"
  by (simp add: signed_take_bit_int_eq_self sint_sbintrunc')

lemma sint_cong_64: "2 ^ 64 dvd sint (word_of_int x :: 64 word) - x"
proof -
  have "take_bit 64 (sint (word_of_int x :: 64 word)) = take_bit 64 x"
    using uint_sint [of "word_of_int x :: 64 word"] by (simp add: uint_word_of_int_eq)
  then show ?thesis by (simp only: take_bit_eq_mod mod_eq_dvd_iff)
qed

text \<open>
  Shifting a base: either nothing has left the word, or what is left is a multiple of a power of two
  above the cap (or 0), or negative. So the tests of the code see every overflow.
\<close>

lemma shift_backoff_exact:
  assumes base: "0 < base" and cap: "0 < cap" "cap < 2 ^ (z + k0)"
    and dvd: "2 ^ z dvd base" and fits: "base * 2 ^ k0 < 2 ^ 63"
  shows "sint (shift_backoff (word_of_int base) (word_of_int cap) (Suc k)) = min cap (base * 2 ^ k)"
proof -
  let ?d = "word_of_int (base * 2 ^ k) :: 64 word"
  have zle: "2 ^ z \<le> base" using base dvd by (simp add: zdvd_imp_le)
  have "2 ^ (z + k0) \<le> base * 2 ^ k0" using zle by (simp add: power_add)
  then have "cap < 2 ^ 63" using cap fits by linarith
  with cap have scap: "sint (word_of_int cap :: 64 word) = cap" by (intro sint_of_int_64) auto
  have run: "sint (shift_backoff (word_of_int base) (word_of_int cap) (Suc k)) =
      (if sint ?d \<le> 0 \<or> cap < sint ?d then cap else sint ?d)"
    by (simp add: shift_backoff_def Let_def push_bit_eq_mult word_sless_alt word_sle_eq scap
        flip: wi_hom_mult)
  show ?thesis
  proof (cases "k \<le> k0")
    case True
    then have "base * 2 ^ k \<le> base * 2 ^ k0" using base by (simp add: power_increasing)
    moreover have pos: "0 < base * 2 ^ k" using base by simp
    ultimately have "sint ?d = base * 2 ^ k" using fits by (intro sint_of_int_64) auto
    with pos show ?thesis by (simp only: run) auto
  next
    case False
    have big: "cap < 2 ^ (z + k)"
    proof -
      have "(2 :: int) ^ (z + k0) \<le> 2 ^ (z + k)" using False by (intro power_increasing) auto
      with cap show ?thesis by linarith
    qed
    have "2 ^ (z + k) dvd base * 2 ^ k" using dvd by (simp add: power_add mult_dvd_mono)
    then have "2 ^ (z + k) \<le> base * 2 ^ k" using base by (intro zdvd_imp_le) auto
    with big have "cap < base * 2 ^ k" by linarith
    moreover have "cap < sint ?d" if pos: "0 < sint ?d"
    proof (cases "z + k \<le> 64")
      case True
      have "2 ^ (z + k) dvd sint ?d - base * 2 ^ k"
        using sint_cong_64 True by (rule power_le_dvd)
      with \<open>2 ^ (z + k) dvd base * 2 ^ k\<close> have "2 ^ (z + k) dvd sint ?d"
        by (metis dvd_diffD1 dvd_add_right_iff diff_add_cancel)
      then have "2 ^ (z + k) \<le> sint ?d" using pos by (intro zdvd_imp_le)
      with big show ?thesis by linarith
    next
      case False
      then have "2 ^ 64 dvd base * 2 ^ k"
        using \<open>2 ^ (z + k) dvd base * 2 ^ k\<close> by (meson le_cases power_le_dvd)
      then have "2 ^ 64 dvd sint ?d"
        using sint_cong_64 [of "base * 2 ^ k"] by (metis dvd_add_right_iff diff_add_cancel)
      then have "2 ^ 64 \<le> sint ?d" using pos by (intro zdvd_imp_le)
      moreover have "sint ?d < 2 ^ 63" using sint_lt [of ?d] by simp
      ultimately show ?thesis by simp
    qed
    ultimately show ?thesis by (auto simp: run)
  qed
qed

lemma refund_backoff_exact: "refund_backoff (Suc k) = min (seconds 60) (seconds 2 * 2 ^ k)"
  using shift_backoff_exact [of "seconds 2" "seconds 60" 10 26 k] by (simp add: refund_backoff_def)

lemma reconcile_backoff_exact: "reconcile_backoff (Suc k) = min (minutes 5) (seconds 10 * 2 ^ k)"
  using shift_backoff_exact [of "seconds 10" "minutes 5" 10 29 k] by (simp add: reconcile_backoff_def)

lemma next_backoff_exact:
  assumes "0 < base" "base \<le> cap" "cap < 2 ^ 62" "0 \<le> cur" "cur \<le> cap"
  shows "sint (next_backoff (word_of_int cur) (word_of_int base) (word_of_int cap)) =
    min cap (max base (2 * cur))"
proof -
  have "word_of_int cur * 2 = (word_of_int (2 * cur) :: 64 word)" by (simp add: mult.commute)
  then have "sint (word_of_int cur * 2 :: 64 word) = 2 * cur"
    using assms sint_of_int_64 [of "2 * cur"] by (auto simp: mult.commute)
  then show ?thesis
    using assms
    by (auto simp: next_backoff_def Let_def word_sless_alt sint_of_int_64 min_def max_def)
qed

interpretation refund_pauses:
  backoff_schedule "\<lambda>n. refund_backoff (Suc n)" "seconds 2" "seconds 60"
  by unfold_locales (simp_all add: refund_backoff_exact)

interpretation reconcile_pauses:
  backoff_schedule "\<lambda>n. reconcile_backoff (Suc n)" "seconds 10" "minutes 5"
  by unfold_locales (simp_all add: reconcile_backoff_exact)

interpretation retry_pauses: backoff_schedule retry_delay "milliseconds 10" "milliseconds 500"
  by unfold_locales (auto simp: retry_delay_def Let_def)

definition relay_pause :: "nat \<Rightarrow> 64 word" where
  "relay_pause n = (relay_backoff ^^ n) relay_interval"

lemma relay_pause_sint: "sint (relay_pause n) = min (seconds 30) (milliseconds 500 * 2 ^ n)"
proof (induction n)
  case 0
  then show ?case by (simp add: relay_pause_def relay_interval_def)
next
  case (Suc n)
  let ?c = "min (seconds 30) (milliseconds 500 * 2 ^ n) :: int"
  have "0 < (2 :: int) ^ n" by simp
  have "word_of_int (sint (relay_pause n)) = relay_pause n" by simp
  then have "relay_pause n = word_of_int ?c" by (simp only: Suc.IH)
  moreover have "max (milliseconds 500) (2 * ?c) = 2 * ?c"
  proof -
    have "(1 :: int) \<le> 2 ^ n" by simp
    then have "(1 :: int) \<le> 2 * 2 ^ n" by linarith
    then show ?thesis by (simp add: max_def min_def)
  qed
  ultimately have "sint (relay_pause (Suc n)) = min (seconds 30) (2 * ?c)"
    using next_backoff_exact [of "milliseconds 500" "seconds 30" ?c] \<open>0 < 2 ^ n\<close>
    by (simp add: relay_pause_def relay_backoff_def relay_interval_def)
  also have "\<dots> = min (seconds 30) (milliseconds 500 * 2 ^ Suc n)"
    by (simp add: min_def)
  finally show ?case .
qed

interpretation relay_pauses:
  backoff_schedule "\<lambda>n. sint (relay_pause n)" "milliseconds 500" "seconds 30"
  by unfold_locales (auto simp: relay_pause_sint min_def)

end
