(* ===== verification/Outbox.thy ===== *)
theory Outbox
  imports Rely Backoff
begin

text \<open>
  The transactional outbox: \<open>repository/outbox.go\<close> and \<open>worker/outbox_relay.go\<close>.

  \<open>insert_outbox\<close> writes an event in the transaction of its caller. \<open>process_batch\<close> sends a batch to
  Kafka and marks it, in a transaction of its own (\<open>batch_tx\<close>), and moves events that have
  used up their attempts to the dead letter table (\<open>move_to_dlq\<close>); \<open>cleanup\<close> deletes published events past
  their retention; \<open>relay_delay\<close> is the choice of the next pause in \<open>Run\<close>.
  Kafka is the argument \<open>write\<close>: for a list of messages it gives what \<open>WriteMessages\<close> returned, one
  entry per message in the case of \<open>WriteErrors\<close>. \<open>locked\<close> are the rows other replicas hold,
  which \<open>SKIP LOCKED\<close> leaves out. The gauge of the lag is in \<open>Relay\<close>.
\<close>

section \<open>Kafka's answers\<close>

datatype write_error = KafkaError (temporary: bool) (write_text: string) | OtherWriteError (write_text: string)

datatype write_outcome =
    WriteOk
  | WriteErrors string "write_error option list"
  | WriteFailed write_error

type_synonym message = "string \<times> json_object"

definition is_poison :: "write_error \<Rightarrow> bool" where
  "is_poison e = (case e of KafkaError temp _ \<Rightarrow> \<not> temp | OtherWriteError _ \<Rightarrow> False)"

section \<open>Statements\<close>

text \<open>A writer of the library \<open>kafka-go\<close>, as far as the code sets it, and the settings of the relay.\<close>

datatype balancer = LeastBytes | Hash

record kafka_writer =
  kw_addr :: "string list"
  kw_topic :: string
  kw_balancer :: balancer

record relay_settings =
  ry_writer :: kafka_writer
  ry_interval :: "64 word"

definition new_outbox_relay :: "string list \<Rightarrow> relay_settings" where
  "new_outbox_relay brokers =
     \<lparr>ry_writer = \<lparr>kw_addr = brokers, kw_topic = ''orders'', kw_balancer = Hash\<rparr>, ry_interval = relay_interval\<rparr>"

definition max_retries :: int where "max_retries = 5"
definition batch_size :: nat where "batch_size = 100"
definition cleanup_batch :: nat where "cleanup_batch = 5000"
definition retention :: time where "retention = hours 24"

definition new_outbox :: "int \<Rightarrow> int \<Rightarrow> string \<Rightarrow> json_object \<Rightarrow> time \<Rightarrow> outbox_row" where
  "new_outbox i aggregate type payload t = \<lparr>ob_id = i, ob_aggregate = aggregate, ob_type = type,
     ob_payload = payload, ob_created = t, ob_published = None, ob_retries = 0, ob_failed = None\<rparr>"

definition insert_outbox :: "int \<Rightarrow> string \<Rightarrow> json_object \<Rightarrow> unit sql" where
  "insert_outbox aggregate type payload n d =
     (if \<not> int4 aggregate then Inl encode_error
      else if exists_where (\<lambda>r. ob_id r = serial n) (outbox d)
        then Inl (unique_violation ''outbox_pkey'')
      else Inr ((), d\<lparr>outbox := outbox d @
        [new_outbox (serial n) aggregate type payload (now d)]\<rparr>))"

definition due :: "int set \<Rightarrow> outbox_row \<Rightarrow> bool" where
  "due locked r \<longleftrightarrow> ob_published r = None \<and> ob_retries r < max_retries \<and> ob_id r \<notin> locked"

definition batch_rows :: "int set \<Rightarrow> database \<Rightarrow> outbox_row list" where
  "batch_rows locked d = take batch_size (sort_key ob_id (filter (due locked) (outbox d)))"

definition select_batch :: "int set \<Rightarrow> outbox_row list sql" where
  "select_batch locked = query (\<lambda>d. Inr (batch_rows locked d))"

definition publish_row :: "time \<Rightarrow> outbox_row \<Rightarrow> outbox_row" where
  "publish_row t r = r\<lparr>ob_published := Some t\<rparr>"

definition fail_row :: "time \<Rightarrow> outbox_row \<Rightarrow> outbox_row" where
  "fail_row t r = r\<lparr>ob_retries := ob_retries r + 1, ob_failed := Some t\<rparr>"

definition mark_published :: "int list \<Rightarrow> database \<Rightarrow> database" where
  "mark_published ids d = d\<lparr>outbox :=
     update_where (\<lambda>r. ob_id r \<in> set ids) (publish_row (now d)) (outbox d)\<rparr>"

definition mark_poisoned :: "int list \<Rightarrow> database \<Rightarrow> database" where
  "mark_poisoned ids d = d\<lparr>outbox :=
     update_where (\<lambda>r. ob_id r \<in> set ids) (fail_row (now d)) (outbox d)\<rparr>"

definition update_published :: "int list \<Rightarrow> unit sql" where
  "update_published ids n d = Inr ((), mark_published ids d)"

definition update_failed :: "int list \<Rightarrow> unit sql" where
  "update_failed ids n d = Inr ((), mark_poisoned ids d)"

definition exhausted :: "int list \<Rightarrow> outbox_row \<Rightarrow> bool" where
  "exhausted ids r \<longleftrightarrow> ob_id r \<in> set ids \<and> max_retries \<le> ob_retries r"

definition dead_letter :: "string \<Rightarrow> outbox_row \<Rightarrow> dlq_row" where
  "dead_letter err r = \<lparr>dl_aggregate = ob_aggregate r, dl_type = ob_type r,
     dl_payload = ob_payload r, dl_error = err\<rparr>"

definition move_exhausted :: "int list \<Rightarrow> string \<Rightarrow> database \<Rightarrow> database" where
  "move_exhausted ids err d = d\<lparr>outbox := delete_where (exhausted ids) (outbox d),
     outbox_dlq := outbox_dlq d @ map (dead_letter err) (filter (exhausted ids) (outbox d))\<rparr>"

definition delete_exhausted :: "int list \<Rightarrow> string \<Rightarrow> unit sql" where
  "delete_exhausted ids err n d = Inr ((), move_exhausted ids err d)"

definition expired_rows :: "time \<Rightarrow> database \<Rightarrow> int list" where
  "expired_rows cutoff d = map ob_id (take cleanup_batch (sort_key ob_id
     (filter (\<lambda>r. case ob_published r of None \<Rightarrow> False | Some t \<Rightarrow> t < cutoff) (outbox d))))"

definition delete_expired :: "time \<Rightarrow> nat sql" where
  "delete_expired cutoff n d =
     Inr (count_where (\<lambda>r. ob_id r \<in> set (expired_rows cutoff d)) (outbox d),
       d\<lparr>outbox := delete_where (\<lambda>r. ob_id r \<in> set (expired_rows cutoff d)) (outbox d)\<rparr>)"

section \<open>The relay\<close>

definition message_of :: "outbox_row \<Rightarrow> message" where
  "message_of r = (show_int (ob_aggregate r), ob_payload r)"

definition kafka_unavailable :: "string \<Rightarrow> gerr" where
  "kafka_unavailable text = NewError (''kafka unavailable: '' @ text)"

definition per_message :: "nat \<Rightarrow> write_outcome \<Rightarrow> gerr + write_error option list" where
  "per_message n outcome =
     (case outcome of
        WriteOk \<Rightarrow> Inr (replicate n None)
      | WriteErrors _ es \<Rightarrow> Inr es
      | WriteFailed e \<Rightarrow>
          if is_poison e \<and> n = 1 then Inr [Some e]
          else Inl (kafka_unavailable (write_text e)))"

definition published_ids :: "int list \<Rightarrow> write_error option list \<Rightarrow> int list" where
  "published_ids ids es = map fst (filter (\<lambda>(i, e). e = None) (zip ids es))"

definition poisoned_ids :: "int list \<Rightarrow> write_error option list \<Rightarrow> int list" where
  "poisoned_ids ids es =
     map fst (filter (\<lambda>(i, e). case e of None \<Rightarrow> False | Some x \<Rightarrow> is_poison x) (zip ids es))"

definition outcome_text :: "write_outcome \<Rightarrow> string" where
  "outcome_text outcome =
     (case outcome of WriteOk \<Rightarrow> [] | WriteErrors text es \<Rightarrow> text | WriteFailed e \<Rightarrow> write_text e)"

definition batch_tx ::
  "int set \<Rightarrow> (message list \<Rightarrow> write_outcome) \<Rightarrow> (int list \<times> int list \<times> gerr option) act" where
  "batch_tx locked write =
     attempt begin_tx fail (\<lambda>_. defer_rollback (
     attempt (stmt (select_batch locked)) fail (\<lambda>rows.
     if rows = [] then ret ([], [], None)
     else
     let ids = map ob_id rows;
         outcome = write (map message_of rows)
     in if outcome = WriteOk then
       attempt (stmt (update_published ids)) fail (\<lambda>_.
       attempt commit_tx fail (\<lambda>_.
       ret (ids, [], None)))
     else
       case per_message (length ids) outcome of
         Inl err \<Rightarrow> fail err
       | Inr es \<Rightarrow>
         let published = published_ids ids es;
             failed = poisoned_ids ids es
         in if published = [] \<and> failed = [] then fail (kafka_unavailable (outcome_text outcome))
         else
         attempt (if published \<noteq> [] then stmt (update_published published) else ret ()) fail (\<lambda>_.
         attempt (if failed \<noteq> [] then stmt (update_failed failed) else ret ()) fail (\<lambda>_.
         attempt commit_tx fail (\<lambda>_.
         ret (published, failed, Some (NewError (outcome_text outcome)))))))))"

definition move_to_dlq :: "int list \<Rightarrow> string \<Rightarrow> unit act" where
  "move_to_dlq ids err = attempt (stmt (delete_exhausted ids err)) (\<lambda>_. ret ()) ret"

definition process_batch ::
  "int set \<Rightarrow> (message list \<Rightarrow> write_outcome) \<Rightarrow> (nat \<times> gerr option) act" where
  "process_batch locked write =
     attempt (batch_tx locked write) fail (\<lambda>(published, failed, werr).
     attempt
       (if failed \<noteq> [] then
          move_to_dlq failed (case werr of None \<Rightarrow> [] | Some e \<Rightarrow> error_text e)
        else ret ())
       fail (\<lambda>_.
     ret (length published, werr)))"

primrec cleanup_loop :: "nat \<Rightarrow> time \<Rightarrow> nat \<Rightarrow> nat act" where
  "cleanup_loop 0 cutoff deleted = ret deleted"
| "cleanup_loop (Suc i) cutoff deleted =
     attempt (stmt (delete_expired cutoff)) (\<lambda>_. ret deleted) (\<lambda>n.
     if n < cleanup_batch then ret (deleted + n) else cleanup_loop i cutoff (deleted + n))"

definition cleanup :: "time \<Rightarrow> nat act" where
  "cleanup app_now = cleanup_loop 20 (app_now - retention) 0"

definition relay_delay :: "gerr + nat \<times> gerr option \<Rightarrow> 64 word \<Rightarrow> 64 word" where
  "relay_delay result delay =
     (case result of
        Inl _ \<Rightarrow> relay_backoff delay
      | Inr (_, Some _) \<Rightarrow> relay_backoff delay
      | Inr (n, None) \<Rightarrow> if n = batch_size then 0 else relay_interval)"

section \<open>What the statements do\<close>

lemma publish_row_sel [simp]:
  "ob_id (publish_row t r) = ob_id r" "ob_aggregate (publish_row t r) = ob_aggregate r"
  "ob_type (publish_row t r) = ob_type r" "ob_payload (publish_row t r) = ob_payload r"
  "ob_published (publish_row t r) = Some t" "ob_retries (publish_row t r) = ob_retries r"
  by (simp_all add: publish_row_def)

lemma fail_row_sel [simp]:
  "ob_id (fail_row t r) = ob_id r" "ob_aggregate (fail_row t r) = ob_aggregate r"
  "ob_type (fail_row t r) = ob_type r" "ob_payload (fail_row t r) = ob_payload r"
  "ob_published (fail_row t r) = ob_published r" "ob_retries (fail_row t r) = ob_retries r + 1"
  by (simp_all add: fail_row_def)

lemma new_outbox_sel [simp]:
  "ob_id (new_outbox i a ty p t) = i" "ob_aggregate (new_outbox i a ty p t) = a"
  "ob_type (new_outbox i a ty p t) = ty" "ob_payload (new_outbox i a ty p t) = p"
  "ob_published (new_outbox i a ty p t) = None" "ob_retries (new_outbox i a ty p t) = 0"
  by (simp_all add: new_outbox_def)

lemma insert_outbox_sql [sql_simps]:
  "insert_outbox a ty p n d = Inr (u, d') \<longleftrightarrow>
     int4 a \<and> (\<forall>r\<in>set (outbox d). ob_id r \<noteq> serial n) \<and>
     d' = d\<lparr>outbox := outbox d @ [new_outbox (serial n) a ty p (now d)]\<rparr>"
  by (auto simp: insert_outbox_def)

lemma outbox_statements_sql [sql_simps]:
  "update_published ids n d = Inr (u, d') \<longleftrightarrow> d' = mark_published ids d"
  "update_published ids n d \<noteq> Inl e"
  "update_failed ids n d = Inr (u, d') \<longleftrightarrow> d' = mark_poisoned ids d"
  "update_failed ids n d \<noteq> Inl e"
  "delete_exhausted ids err n d = Inr (u, d') \<longleftrightarrow> d' = move_exhausted ids err d"
  "delete_exhausted ids err n d \<noteq> Inl e"
  "select_batch locked n d = Inr (rows, d') \<longleftrightarrow> rows = batch_rows locked d \<and> d' = d"
  "select_batch locked n d \<noteq> Inl e"
  by (auto simp: update_published_def update_failed_def delete_exhausted_def select_batch_def sql_simps)

lemma set_batch_rows: "set (batch_rows locked d) \<subseteq> {r \<in> set (outbox d). due locked r}"
  using set_take_subset [of batch_size "sort_key ob_id (filter (due locked) (outbox d))"]
  by (auto simp: batch_rows_def)

text \<open>The ids Kafka took, and the ids of messages it will never take.\<close>

definition batch_ids ::
  "int set \<Rightarrow> (message list \<Rightarrow> write_outcome) \<Rightarrow> database \<Rightarrow> gerr + int list \<times> int list" where
  "batch_ids locked write d =
     (let rows = batch_rows locked d; ids = map ob_id rows
      in case per_message (length ids) (write (map message_of rows)) of
           Inl e \<Rightarrow> Inl e
         | Inr es \<Rightarrow> Inr (published_ids ids es, poisoned_ids ids es))"

definition batch_eff ::
  "int set \<Rightarrow> (message list \<Rightarrow> write_outcome) \<Rightarrow> database \<Rightarrow>
   int list \<times> int list \<times> gerr option \<Rightarrow> database \<Rightarrow> bool" where
  "batch_eff locked write d r d' \<longleftrightarrow>
     (if batch_rows locked d = [] then r = ([], [], None) \<and> d' = d
      else batch_ids locked write d = Inr (fst r, fst (snd r)) \<and>
        (snd (snd r) = None \<longrightarrow> fst (snd r) = []) \<and>
        d' = mark_poisoned (fst (snd r)) (mark_published (fst r) d))"

lemma mark_nothing [simp]: "mark_published [] d = d" "mark_poisoned [] d = d"
  by (simp_all add: mark_published_def mark_poisoned_def update_where_def)

lemma published_ids_all [simp]: "published_ids (map f rows) (replicate (length rows) None) = map f rows"
  by (induction rows) (simp_all add: published_ids_def)

lemma poisoned_ids_none [simp]: "poisoned_ids (map f rows) (replicate (length rows) None) = []"
  by (induction rows) (simp_all add: poisoned_ids_def)

lemma performs_batch_tx:
  "performs (batch_tx locked write) (batch_eff locked write) (\<lambda>d e. as_pg_error e = None)"
  unfolding batch_tx_def
  by (rule performs_tx,
      auto simp: wp_simps sql_simps Let_def elim!: wp_stmt_tx wp_commit_ok split: sum.splits,
      auto simp: batch_eff_def batch_ids_def kafka_unavailable_def per_message_def Let_def
        split: write_outcome.splits if_splits)

text \<open>
  What one batch may do to one row: leave it, mark it published if Kafka took its message, or count
  an attempt if Kafka called its message poison. \<open>answer i e\<close>: the message of the row with id \<open>i\<close> was
  answered with \<open>e\<close>.
\<close>

definition answer ::
  "int set \<Rightarrow> (message list \<Rightarrow> write_outcome) \<Rightarrow> database \<Rightarrow> int \<Rightarrow> write_error option \<Rightarrow> bool" where
  "answer locked write d i e \<longleftrightarrow>
     (let rows = batch_rows locked d in
      case per_message (length rows) (write (map message_of rows)) of
        Inl _ \<Rightarrow> False
      | Inr es \<Rightarrow> \<exists>j. j < length rows \<and> j < length es \<and> ob_id (rows ! j) = i \<and> es ! j = e)"

definition same_event :: "outbox_row \<Rightarrow> outbox_row \<Rightarrow> bool" where
  "same_event r r' \<longleftrightarrow> ob_id r' = ob_id r \<and> ob_aggregate r' = ob_aggregate r \<and>
     ob_type r' = ob_type r \<and> ob_payload r' = ob_payload r"

definition row_move :: "(int \<Rightarrow> write_error option \<Rightarrow> bool) \<Rightarrow> outbox_row \<Rightarrow> outbox_row \<Rightarrow> bool" where
  "row_move ans r r' \<longleftrightarrow>
     same_event r r' \<and>
     (ob_published r' \<noteq> ob_published r \<longrightarrow> ob_published r' \<noteq> None \<and> ans (ob_id r) None) \<and>
     (ob_retries r' \<noteq> ob_retries r \<longrightarrow>
        ob_retries r' = ob_retries r + 1 \<and> (\<exists>e. is_poison e \<and> ans (ob_id r) (Some e)))"

lemma mem_filter_zip:
  "i \<in> set (map fst (filter P (zip ids es))) \<longleftrightarrow>
     (\<exists>j. j < length ids \<and> j < length es \<and> ids ! j = i \<and> P (ids ! j, es ! j))"
  by (auto simp: image_iff in_set_zip)

lemma mem_published_ids:
  "i \<in> set (published_ids ids es) \<longleftrightarrow>
     (\<exists>j. j < length ids \<and> j < length es \<and> ids ! j = i \<and> es ! j = None)"
  unfolding published_ids_def mem_filter_zip by simp

lemma mem_poisoned_ids:
  "i \<in> set (poisoned_ids ids es) \<longleftrightarrow>
     (\<exists>j. j < length ids \<and> j < length es \<and> ids ! j = i \<and> (\<exists>e. es ! j = Some e \<and> is_poison e))"
  unfolding poisoned_ids_def mem_filter_zip by (auto split: option.splits)

lemma list_all2_map_self: "list_all2 R t (map f t) \<longleftrightarrow> (\<forall>r\<in>set t. R r (f r))"
  by (induction t) auto

lemma update_where_twice:
  "update_where q g (update_where p f t) =
     map (\<lambda>r. let r' = if p r then f r else r in if q r' then g r' else r') t"
  by (simp add: update_where_def Let_def)

lemma batch_eff_moves:
  assumes "batch_eff locked write d r d'"
  shows "list_all2 (row_move (answer locked write d)) (outbox d) (outbox d')"
    and "outbox_dlq d' = outbox_dlq d"
proof -
  have refl: "row_move ans r r" for ans r
    by (simp add: row_move_def same_event_def)
  show "list_all2 (row_move (answer locked write d)) (outbox d) (outbox d')"
  proof (cases "batch_rows locked d = []")
    case True
    then show ?thesis using assms refl by (simp add: batch_eff_def list_all2_same)
  next
    case False
    let ?rows = "batch_rows locked d"
    obtain es where es: "per_message (length ?rows) (write (map message_of ?rows)) = Inr es"
      and ids: "fst r = published_ids (map ob_id ?rows) es" "fst (snd r) = poisoned_ids (map ob_id ?rows) es"
      and d': "d' = mark_poisoned (fst (snd r)) (mark_published (fst r) d)"
      using assms False by (auto simp: batch_eff_def batch_ids_def Let_def split: sum.splits)
    have pub: "answer locked write d i None" if "i \<in> set (fst r)" for i
      using that es by (auto simp: answer_def Let_def ids mem_published_ids)
    have poi: "\<exists>e. is_poison e \<and> answer locked write d i (Some e)" if "i \<in> set (fst (snd r))" for i
      using that es by (simp add: answer_def Let_def ids mem_poisoned_ids) (metis nth_map)
    show ?thesis
      unfolding d' mark_poisoned_def mark_published_def
      using pub poi
      by (auto simp: update_where_twice list_all2_map_self row_move_def same_event_def Let_def)
  qed
  show "outbox_dlq d' = outbox_dlq d"
    using assms by (auto simp: batch_eff_def mark_published_def mark_poisoned_def split: if_splits)
qed

text \<open>The other two statements of the relay, as effects: no event disappears unpublished.\<close>

definition event_kept :: "outbox_row \<Rightarrow> database \<Rightarrow> bool" where
  "event_kept r d \<longleftrightarrow>
     (\<exists>r'\<in>set (outbox d). same_event r r') \<or>
     (\<exists>q\<in>set (outbox_dlq d). dl_aggregate q = ob_aggregate r \<and> dl_type q = ob_type r \<and>
        dl_payload q = ob_payload r)"

lemma batch_keeps:
  assumes "batch_eff locked write d x d'" and "r \<in> set (outbox d)"
  shows "\<exists>r'\<in>set (outbox d'). row_move (answer locked write d) r r'"
  using batch_eff_moves(1) [OF assms(1)] assms(2)
  by (metis in_set_conv_nth list_all2_conv_all_nth)

lemma move_exhausted_keeps:
  "r \<in> set (outbox d) \<Longrightarrow> event_kept r (move_exhausted ids err d)"
  by (cases "exhausted ids r")
    (force simp: event_kept_def move_exhausted_def set_delete_where same_event_def dead_letter_def)+

lemma ids_subset:
  "set (published_ids ids es) \<subseteq> set ids" "set (poisoned_ids ids es) \<subseteq> set ids"
  by (auto simp: published_ids_def poisoned_ids_def dest: set_zip_leftD)

lemma batch_eff_ids:
  assumes "batch_eff locked write d x d'"
  shows "set (fst x) \<union> set (fst (snd x)) \<subseteq> ob_id ` set (batch_rows locked d)"
proof (cases "batch_rows locked d = []")
  case False
  let ?ids = "map ob_id (batch_rows locked d)"
  have eq: "batch_ids locked write d = Inr (fst x, fst (snd x))"
    using assms False by (simp add: batch_eff_def)
  show ?thesis
  proof (cases "per_message (length ?ids) (write (map message_of (batch_rows locked d)))")
    case (Inr es)
    then have "published_ids ?ids es = fst x" "poisoned_ids ?ids es = fst (snd x)"
      using eq by (simp_all add: batch_ids_def Let_def)
    with ids_subset [of ?ids es] show ?thesis by simp
  qed (use eq in \<open>simp add: batch_ids_def Let_def\<close>)
qed (use assms in \<open>simp add: batch_eff_def\<close>)

lemma batch_rows_due: "r \<in> set (batch_rows locked d) \<Longrightarrow> ob_retries r < max_retries"
  using set_batch_rows [of locked d] by (auto simp: due_def)

text \<open>
  C17: The relay marks an event as published only if Kafka took its message. The transaction of a
  batch is atomic, changes no event's id, aggregate, type or payload, deletes none and touches no dead letter;
  it sets published_at only on rows whose message was answered without an error, and counts an
  attempt (exactly one) only for rows whose message Kafka refused for good. A batch that fails
  changes nothing, and its error is never a Postgres error unless a call failed.
\<close>

theorem relay_marks_what_kafka_took:
  "performs (batch_tx locked write)
     (\<lambda>d r d'. list_all2 (row_move (answer locked write d)) (outbox d) (outbox d') \<and>
        outbox_dlq d' = outbox_dlq d)
     (\<lambda>d e. as_pg_error e = None)"
  by (rule performs_weaken [OF performs_batch_tx]) (use batch_eff_moves in blast)+

text \<open>
  C18: An event whose attempts are used up is never sent again. The rows a batch selects have fewer
  than five counted attempts, so a row that reached five attempts and was not moved to the dead letter
  table (because that statement failed, which the relay only logs) is neither selected, nor marked,
  nor counted by any later batch.
\<close>

theorem relay_strands_exhausted:
  assumes "distinct (map ob_id (outbox d))" and "r \<in> set (outbox d)" and "max_retries \<le> ob_retries r"
    and "batch_eff locked write d x d'"
  shows "r \<notin> set (batch_rows locked d) \<and> r \<in> set (outbox d') \<and>
    ob_id r \<notin> set (fst x) \<and> ob_id r \<notin> set (fst (snd x))"
proof -
  have not_in: "ob_id r \<notin> set (map ob_id (batch_rows locked d))"
  proof
    assume "ob_id r \<in> set (map ob_id (batch_rows locked d))"
    then obtain s where s: "s \<in> set (batch_rows locked d)" and "ob_id s = ob_id r" by auto
    then have "s = r"
      using set_batch_rows [of locked d] distinct_key_eq [OF assms(1), of s r] assms(2) by auto
    with s assms(3) batch_rows_due show False by fastforce
  qed
  have ids: "ob_id r \<notin> set (fst x) \<and> ob_id r \<notin> set (fst (snd x))"
    using batch_eff_ids [OF assms(4)] not_in by auto
  have "r \<in> set (outbox d')"
    using assms(2,4) ids
    by (auto simp: batch_eff_def mark_poisoned_def mark_published_def update_where_twice Let_def
        split: if_splits intro!: image_eqI [of r _ r])
  with ids not_in show ?thesis by auto
qed

theorem relay_strands_exhausted_witness:
  "let r = (new_outbox 1 7 ''order_created'' [] 0)\<lparr>ob_retries := 5\<rparr>;
       d = empty_db\<lparr>outbox := [r]\<rparr>
   in r \<notin> set (batch_rows {} d) \<and> r \<in> set (outbox d)"
proof -
  let ?r = "(new_outbox 1 7 ''order_created'' [] 0)\<lparr>ob_retries := 5\<rparr>"
  let ?d = "empty_db\<lparr>outbox := [?r]\<rparr>"
  have "batch_eff {} (\<lambda>_. WriteOk) ?d ([], [], None) ?d"
    by (simp add: batch_eff_def batch_rows_def due_def max_retries_def)
  from relay_strands_exhausted [OF _ _ _ this, of ?r] show ?thesis
    by (simp add: max_retries_def)
qed

end
