(* ===== verification/Retry.thy ===== *)
theory Retry
  imports Rely Backoff
begin

text \<open>
  \<open>internal/retry/retry.go\<close>: \<open>retry_do\<close> repeats a call that failed with a serialization conflict or a
  deadlock, at most five times, with a doubled and jittered pause before each repetition.
  \<open>is_retryable\<close> looks at the error itself, not at what it wraps.
\<close>

fun is_retryable :: "gerr \<Rightarrow> bool" where
  "is_retryable (PgError code k x) \<longleftrightarrow> code = ''40001'' \<or> code = ''40P01''"
| "is_retryable err \<longleftrightarrow> False"

definition max_attempts :: nat where
  "max_attempts = 5"

primrec retry_from :: "nat \<Rightarrow> nat \<Rightarrow> 'a act \<Rightarrow> 'a act" where
  "retry_from 0 n fn = fn"
| "retry_from (Suc left) n fn =
     attempt fn
       (\<lambda>err. if \<not> is_retryable err then fail err
          else attempt (pause (retry_delay n)) fail (\<lambda>_. retry_from left (Suc n) fn))
       ret"

definition retry_do :: "'a act \<Rightarrow> 'a act" where
  "retry_do fn = retry_from max_attempts 0 fn"

lemma retryable_pg: "is_retryable e \<Longrightarrow> as_pg_error e \<noteq> None"
  by (cases e) auto

lemma once_retry_from:
  assumes fn: "once fn R F" and F: "\<And>d e. F d e \<Longrightarrow> \<not> is_retryable e"
  shows "once (retry_from left n fn) R F"
proof (induction left arbitrary: n)
  case 0
  then show ?case by (simp add: fn)
next
  case (Suc left)
  show ?case
    unfolding once_def
  proof (intro allI impI)
    fix V d w
    assume out: "outside V d w"
    let ?Q = "\<lambda>a w'. \<exists>d0 d1. others V d d0 \<and> R d0 a d1 \<and> outside V d1 w'"
    let ?E = "\<lambda>e w'. \<exists>d0. others V d d0 \<and>
       (outside V d0 w' \<and> (F d0 e \<or> \<not> faultless V) \<or>
        \<not> faultless V \<and> as_pg_error e = None \<and> (\<exists>a d1. R d0 a d1 \<and> outside V d1 w'))"
    have again: "wp (retry_from left (Suc n) fn) ?Q ?E w'" if "others V d d0" "outside V d0 w'" for d0 w'
      by (rule wp_mono [OF onceD [OF Suc.IH that(2)]]) (use that(1) others_trans in blast)+
    have retry: "wp (pause (retry_delay n)) (\<lambda>_. wp (retry_from left (Suc n) fn) ?Q ?E) ?E w'"
      if "others V d d0" "outside V d0 w'" "\<not> faultless V" for d0 w'
    proof (rule wp_pause_outside [OF that(2)])
      note moved = others_trans [OF that(1) others_next [OF that(2)]]
      show "?E e w''" if "outside V (env (next_event w') d0) w''" for e w''
        using that moved \<open>\<not> faultless V\<close> by blast
      show "wp (retry_from left (Suc n) fn) ?Q ?E w''" if "outside V (env (next_event w') d0) w''" for w''
        using moved that by (rule again)
    qed
    show "wp (retry_from (Suc left) n fn) ?Q ?E w"
      unfolding retry_from.simps wp_simps
    proof (rule wp_mono [OF onceD [OF fn out]])
      fix e w'
      assume bad: "?E e w'"
      show "(if \<not> is_retryable e then ?E e
         else wp (pause (retry_delay n)) (\<lambda>a. wp (retry_from left (Suc n) fn) ?Q ?E) ?E) w'"
      proof (cases "is_retryable e")
        case True
        then have "as_pg_error e \<noteq> None" by (rule retryable_pg)
        with bad True F show ?thesis using retry by auto
      qed (use bad in simp)
    qed simp
  qed
qed

text \<open>However often it repeats, the effect happens once.\<close>

lemma once_retry:
  "once fn R F \<Longrightarrow> (\<And>d e. F d e \<Longrightarrow> \<not> is_retryable e) \<Longrightarrow> once (retry_do fn) R F"
  unfolding retry_do_def by (rule once_retry_from)

section \<open>The pauses\<close>

lemma pause_trace:
  assumes "pause t w = (r, w')" and "0 < t"
  shows "case r of Inl e \<Rightarrow> trace w' = trace w
    | Inr u \<Rightarrow> \<exists>s. trace w' = trace w @ [EffSleep s] \<and> t \<le> s \<and> s < 2 * t"
  using assms
  by (auto simp: pause_def Let_def split: fault.splits if_splits)

lemma retry_from_trace:
  assumes fn: "\<And>w. trace (snd (fn w)) = trace w"
  shows "retry_from left n fn w = (r, w') \<Longrightarrow>
    \<exists>ts. trace w' = trace w @ map EffSleep ts \<and> length ts \<le> left \<and>
      (\<forall>i<length ts. retry_delay (n + i) \<le> ts ! i \<and> ts ! i < 2 * retry_delay (n + i))"
proof (induction left arbitrary: n w)
  case 0
  then show ?case using fn [of w] by (auto intro!: exI [of _ "[]"])
next
  case (Suc left)
  obtain r1 w1 where w1: "fn w = (r1, w1)" by (cases "fn w")
  have t1: "trace w1 = trace w" using fn [of w] w1 by simp
  show ?case
  proof (cases "\<exists>err. r1 = Inl err \<and> is_retryable err")
    case False
    then have "w' = w1" using Suc.prems w1
      by (auto simp: attempt_def fail_def ret_def split: sum.splits if_splits)
    then show ?thesis using t1 by (auto intro!: exI [of _ "[]"])
  next
    case True
    obtain r2 w2 where w2: "pause (retry_delay n) w1 = (r2, w2)" by (cases "pause (retry_delay n) w1")
    have pos: "0 < retry_delay n" using retry_pauses.bounds by blast
    show ?thesis
    proof (cases r2)
      case (Inl e)
      then have "w' = w2" using Suc.prems w1 w2 True
        by (auto simp: attempt_def fail_def split: if_splits)
      then show ?thesis using pause_trace [OF w2 pos] t1 Inl by (auto intro!: exI [of _ "[]"])
    next
      case (Inr u)
      then have rest: "retry_from left (Suc n) fn w2 = (r, w')" using Suc.prems w1 w2 True
        by (auto simp: attempt_def)
      from Suc.IH [OF rest] obtain ts where ts: "trace w' = trace w2 @ map EffSleep ts"
        "length ts \<le> left"
        "\<forall>i<length ts. retry_delay (Suc n + i) \<le> ts ! i \<and> ts ! i < 2 * retry_delay (Suc n + i)"
        by blast
      from pause_trace [OF w2 pos] Inr obtain s where s: "trace w2 = trace w1 @ [EffSleep s]"
        "retry_delay n \<le> s" "s < 2 * retry_delay n" by auto
      have "trace w' = trace w @ map EffSleep (s # ts)" using ts s t1 by simp
      moreover have "\<forall>i<length (s # ts). retry_delay (n + i) \<le> (s # ts) ! i \<and>
          (s # ts) ! i < 2 * retry_delay (n + i)"
        using ts(3) s by (auto simp: nth_Cons split: nat.splits)
      ultimately show ?thesis using ts(2) by (intro exI [of _ "s # ts"]) auto
    qed
  qed
qed

lemma sum_list_nth_less:
  "\<forall>i<length ts. 0 \<le> ts ! i \<and> ts ! i < b i \<Longrightarrow> (\<forall>i. 0 \<le> b i) \<Longrightarrow> length ts \<le> k \<Longrightarrow>
   sum_list ts \<le> (sum_list (map b [0..<k]) :: int)"
proof (induction ts arbitrary: b k)
  case Nil
  then show ?case by (auto intro!: sum_list_nonneg)
next
  case (Cons t ts)
  obtain j where k: "k = Suc j" using Cons.prems(3) by (cases k) auto
  have "sum_list ts \<le> sum_list (map (\<lambda>i. b (Suc i)) [0..<j])"
    using Cons.prems k by (intro Cons.IH) auto
  moreover have "t < b 0" using Cons.prems(1) by force
  moreover have "sum_list (map b [0..<Suc j]) = b 0 + sum_list (map (\<lambda>i. b (Suc i)) [0..<j])"
    by (simp add: upt_conv_Cons map_Suc_upt [symmetric] o_def del: upt_Suc)
  ultimately show ?case by (simp add: k)
qed

text \<open>
  C19: retry.Do pauses at most five times, and for less than 0.62 s in all: the pause before
  repetition i is at least 10 ms doubled i times and, with the jitter, less than twice that. The cap of 500 ms
  is never reached. (For a call that records no effects of its own.)
\<close>

theorem retry_pauses_bounded:
  assumes "\<And>w. trace (snd (fn w)) = trace w" and "retry_do fn w = (r, w')"
  shows "\<exists>ts. trace w' = trace w @ map EffSleep ts \<and> length ts \<le> 5 \<and>
    (\<forall>i<length ts. milliseconds 10 * 2 ^ i \<le> ts ! i \<and> ts ! i < milliseconds 20 * 2 ^ i) \<and>
    sum_list ts \<le> milliseconds 620"
proof -
  from retry_from_trace [OF assms(1) assms(2) [unfolded retry_do_def]] obtain ts where
    ts: "trace w' = trace w @ map EffSleep ts" "length ts \<le> 5"
      "\<forall>i<length ts. retry_delay i \<le> ts ! i \<and> ts ! i < 2 * retry_delay i"
    by (auto simp: max_attempts_def)
  have small: "retry_delay i = milliseconds 10 * 2 ^ i" if "i < 5" for i
  proof -
    have "i = 0 \<or> i = 1 \<or> i = 2 \<or> i = 3 \<or> i = 4" using that by linarith
    then show ?thesis by (auto simp: retry_delay_def)
  qed
  then have each: "\<forall>i<length ts. milliseconds 10 * 2 ^ i \<le> ts ! i \<and> ts ! i < milliseconds 20 * 2 ^ i"
    using ts by auto
  then have "\<forall>i<length ts. 0 \<le> ts ! i \<and> ts ! i < milliseconds 20 * 2 ^ i"
    by (meson order_trans zero_le_mult_iff zero_le_numeral zero_le_power)
  then have "sum_list ts \<le> sum_list (map (\<lambda>i. milliseconds 20 * 2 ^ i) [0..<5])"
    using ts(2) by (intro sum_list_nth_less) auto
  also have "\<dots> = milliseconds 620" by (simp add: upt_rec)
  finally show ?thesis using ts each by blast
qed

theorem retry_pauses_bounded_witness:
  "\<exists>ts. trace (snd (retry_do (fail (PgError ''40001'' [] []) :: unit act) (quiet_world empty_db))) =
     map EffSleep ts \<and> length ts \<le> 5 \<and> sum_list ts \<le> milliseconds 620"
proof -
  let ?fn = "fail (PgError ''40001'' [] []) :: unit act"
  obtain r w' where run: "retry_do ?fn (quiet_world empty_db) = (r, w')" by (cases "retry_do ?fn (quiet_world empty_db)")
  show ?thesis
    using retry_pauses_bounded [of ?fn, OF _ run] unfolding run
    by (auto simp: quiet_world_def fail_def)
qed

end
