(* ===== verification/Flight.thy ===== *)
theory Flight
  imports GoError
begin

text \<open>
  Callers that share one execution, as \<open>DoChan\<close> of \<open>golang.org/x/sync/singleflight\<close> documents it: while a call with a key is running, every
  further call with the key waits for the result of the first one. The code waits in a \<open>select\<close> on the result and on the end of its own
  context (\<open>service/order_service.go\<close>, \<open>handler/idempotency.go\<close>).

  A list of \<open>gerr option\<close> stands for the callers of one execution, in any order: \<open>Some e\<close> is a caller whose context ended with \<open>e\<close> before the
  result was there, \<open>None\<close> one that waited for it. The execution goes on without those that left. \<open>deliver\<close> is what each of them gets.
\<close>

definition deliver :: "gerr option list \<Rightarrow> gerr + 'a \<Rightarrow> (gerr + 'a) list" where
  "deliver callers r = map (\<lambda>gone. case gone of Some ctx_err \<Rightarrow> Inl ctx_err | None \<Rightarrow> r) callers"

lemma length_deliver [simp]: "length (deliver callers r) = length callers"
  by (simp add: deliver_def)

lemma deliver_Inr: "Inr a \<in> set (deliver callers r) \<Longrightarrow> r = Inr a"
  by (auto simp: deliver_def split: option.splits)

lemma deliver_waiting: "i < length callers \<Longrightarrow> callers ! i = None \<Longrightarrow> deliver callers r ! i = r"
  by (simp add: deliver_def)

lemma deliver_single [simp]: "deliver [None] r = [r]" "deliver [Some e] r = [Inl e]"
  by (simp_all add: deliver_def)

end
