(* ===== verification/OrderSvc.thy ===== *)
theory OrderSvc
  imports Orders Outbox Retry Flight
begin

text \<open>
  \<open>internal/service/order_service.go\<close>, with \<open>TxManager.Do\<close> of \<open>internal/txm/txm.go\<close> and
  \<open>kafka/producer.go\<close>: the order service between the handlers and the repository.

  \<open>create_order_svc\<close> is \<open>createOrder\<close>: it checks the request, then creates the order and its
  outbox event in one transaction, repeated on conflicts, and sends the event to Kafka as well.
  \<open>create_orders\<close> is \<open>CreateOrder\<close> for all concurrent callers with one key: they share one such call (theory \<open>Flight\<close>), on a
  context of its own; \<open>create_order_call\<close> is \<open>CreateOrder\<close> as one caller sees it. The service is modelled as \<open>app.go\<close>
  builds it: with a transaction manager, an outbox and a producer.
\<close>

section \<open>The service\<close>

definition tx_do :: "'a act \<Rightarrow> 'a act" where
  "tx_do fn =
     attempt begin_tx fail (\<lambda>_. defer_rollback (
     attempt fn fail (\<lambda>a.
     attempt commit_tx fail (\<lambda>_.
     ret a))))"

definition item_of :: "create_item \<Rightarrow> order_item" where
  "item_of c = \<lparr>oi_id = 0, oi_order = 0, oi_product = ci_product c, oi_quantity = ci_quantity c,
     oi_price = 0\<rparr>"

fun check_items :: "int set \<Rightarrow> create_item list \<Rightarrow> gerr + order_item list" where
  "check_items seen [] = Inr []"
| "check_items seen (item # items) =
     (if ci_quantity item \<le> 0 then Inl (NewError ''quantity must be greater than 0'')
      else if ci_product item \<in> seen then Inl (NewError ''duplicate product_id'')
      else case check_items (insert (ci_product item) seen) items of
        Inl e \<Rightarrow> Inl e
      | Inr rest \<Rightarrow> Inr (item_of item # rest))"

definition validate_items :: "create_item list \<Rightarrow> gerr + order_item list" where
  "validate_items items =
     (if items = [] then Inl (NewError ''order must have at least one item'')
      else check_items {} items)"

definition order_created :: "int \<Rightarrow> json_object" where
  "order_created oid = [(''order_id'', oid)]"

definition create_tx :: "order_item list \<Rightarrow> string \<Rightarrow> (int \<times> bool) act" where
  "create_tx items key = tx_do (
     attempt (create_order items key) fail (\<lambda>(oid, exists).
     if exists then ret (oid, exists)
     else
     attempt (stmt (insert_outbox oid ''order_created'' (order_created oid))) fail (\<lambda>_.
     ret (oid, exists))))"

definition new_producer :: "string list \<Rightarrow> kafka_writer" where
  "new_producer brokers = \<lparr>kw_addr = brokers, kw_topic = ''orders'', kw_balancer = LeastBytes\<rparr>"

text \<open>The message of \<open>SendOrderCreated\<close>; the clock of the process is the database's here, nothing reads \<open>created_at\<close>.\<close>

definition send_order_created :: "int \<Rightarrow> unit act" where
  "send_order_created oid w =
     extern (EffKafka \<lparr>om_order_id = oid, om_event = ''order_created'', om_created_at = now (db w)\<rparr>) w"

lemma idle_send [intro]:
  assumes "\<And>e. idle (h e)" and "idle (k ())"
  shows "idle (attempt (send_order_created oid) h k)"
  unfolding idle_def
proof (intro allI impI)
  fix V d w
  assume out: "outside V d w"
  let ?x = "EffKafka \<lparr>om_order_id = oid, om_event = ''order_created'', om_created_at = now (db w)\<rparr>"
  have "attempt (send_order_created oid) h k w = attempt (extern ?x) h k w"
    by (simp add: attempt_def send_order_created_def)
  then show "wp (attempt (send_order_created oid) h k) (\<lambda>_ w'. \<exists>d'. others V d d' \<and> outside V d' w') (\<lambda>_ _. False) w"
    using idle_extern [of h k ?x] assms out by (simp add: idle_def wp_def)
qed

definition create_order_svc :: "create_item list \<Rightarrow> string \<Rightarrow> (int \<times> bool) act" where
  "create_order_svc items key =
     (case validate_items items of
        Inl err \<Rightarrow> fail err
      | Inr ois \<Rightarrow>
          attempt (retry_do (create_tx ois key)) fail (\<lambda>(oid, exists).
          if \<not> exists then
            attempt (send_order_created oid) (\<lambda>_. ret (oid, exists)) (\<lambda>_. ret (oid, exists))
          else ret (oid, exists)))"

definition create_orders :: "gerr option list \<Rightarrow> create_item list \<Rightarrow> string \<Rightarrow> (gerr + int \<times> bool) list act" where
  "create_orders callers items key =
     attempt (result_of (create_order_svc items key)) fail (\<lambda>r. ret (deliver callers r))"

definition create_order_call :: "gerr option \<Rightarrow> create_item list \<Rightarrow> string \<Rightarrow> (int \<times> bool) act" where
  "create_order_call gone items key =
     (if key \<noteq> [] then
        attempt (create_orders [gone] items key) fail (\<lambda>rs. case hd rs of Inl err \<Rightarrow> fail err | Inr x \<Rightarrow> ret x)
      else create_order_svc items [])"

definition default_limit :: int where "default_limit = 50"
definition max_limit :: int where "max_limit = 100"

definition clamp_limit :: "int \<Rightarrow> int" where
  "clamp_limit limit =
     (let limit = (if limit \<le> 0 then default_limit else limit)
      in if max_limit < limit then max_limit else limit)"

definition get_orders_svc ::
  "int \<Rightarrow> order_cursor option \<Rightarrow> (order list \<times> order_cursor option) act" where
  "get_orders_svc limit cursor = get_orders (clamp_limit limit) cursor"

definition cancel_order_svc :: "int \<Rightarrow> int act" where
  "cancel_order_svc oid =
     attempt (get_order_by_id oid) fail (\<lambda>order.
     if ord_status order = Cancelled then fail (Sentinel ErrOrderAlreadyCancelled)
     else cancel_order oid)"

section \<open>Validation\<close>

lemma check_items_Inr:
  "check_items seen items = Inr ois \<longleftrightarrow>
     (\<forall>i\<in>set items. 0 < ci_quantity i) \<and> distinct (map ci_product items) \<and>
     ci_product ` set items \<inter> seen = {} \<and> ois = map item_of items"
proof (induction items arbitrary: seen ois)
  case (Cons i items)
  note IH = Cons.IH [of "insert (ci_product i) seen"]
  show ?case
  proof (cases "check_items (insert (ci_product i) seen) items")
    case (Inl e)
    then show ?thesis using IH [of "map item_of items"] by auto
  next
    case (Inr rest)
    then show ?thesis using IH [of rest] by auto
  qed
qed auto

definition good_items :: "order_item list \<Rightarrow> bool" where
  "good_items items \<longleftrightarrow> items \<noteq> [] \<and> distinct (map oi_product items) \<and> (\<forall>i\<in>set items. 0 < oi_quantity i)"

lemma item_of_sel [simp]:
  "oi_product (item_of c) = ci_product c" "oi_quantity (item_of c) = ci_quantity c"
  by (simp_all add: item_of_def)

lemma validate_items_Inr:
  "validate_items items = Inr ois \<longleftrightarrow>
     items \<noteq> [] \<and> (\<forall>i\<in>set items. 0 < ci_quantity i) \<and> distinct (map ci_product items) \<and>
     ois = map item_of items"
  by (auto simp: validate_items_def check_items_Inr)

lemma validate_items_good: "validate_items items = Inr ois \<Longrightarrow> good_items ois"
  by (auto simp: validate_items_Inr good_items_def distinct_map inj_on_def)

section \<open>The creating transaction\<close>

definition add_event :: "int \<Rightarrow> database \<Rightarrow> database \<Rightarrow> bool" where
  "add_event oid d d' \<longleftrightarrow>
     (\<exists>i. 0 < i \<and> (\<forall>r\<in>set (outbox d). ob_id r \<noteq> i) \<and>
        d' = d\<lparr>outbox := outbox d @ [new_outbox i oid ''order_created'' (order_created oid) (now d)]\<rparr>)"

definition placed_eff ::
  "order_item list \<Rightarrow> string \<Rightarrow> database \<Rightarrow> int \<times> bool \<Rightarrow> database \<Rightarrow> bool" where
  "placed_eff items key d r d' \<longleftrightarrow>
     (if snd r then create_eff items key d r d'
      else \<exists>d1. create_eff items key d r d1 \<and> add_event (fst r) d1 d')"

definition placed_err :: "order_item list \<Rightarrow> string \<Rightarrow> database \<Rightarrow> gerr \<Rightarrow> bool" where
  "placed_err items key d e \<longleftrightarrow>
     create_err items key d e \<or> e = encode_error \<or> e = unique_violation ''outbox_pkey''"

lemma insert_outbox_err:
  "insert_outbox a ty p n d = Inl e \<Longrightarrow> e = encode_error \<or> e = unique_violation ''outbox_pkey''"
  by (auto simp: insert_outbox_def split: if_splits)

lemma add_event_intro:
  "\<forall>r\<in>set (outbox d). ob_id r \<noteq> serial n \<Longrightarrow>
   add_event oid d (d\<lparr>outbox := outbox d @
     [new_outbox (serial n) oid ''order_created'' (order_created oid) (now d)]\<rparr>)"
  by (auto simp: add_event_def intro!: exI [of _ "serial n"])

lemma performs_create_tx: "performs (create_tx items key) (placed_eff items key) (placed_err items key)"
  unfolding create_tx_def tx_do_def
proof (rule performs_tx, unfold wp_simps, erule wp_create_order)
  fix V d0 and w' :: world and e
  assume "undone V d0 w'" and "create_err items key d0 e \<or> \<not> faultless V"
  then show "tx_bad (placed_eff items key) (placed_err items key) V d0 e w'"
    by (auto simp: undone_bad placed_err_def)
next
  fix V d0 r d' and w' :: world
  assume eff: "create_eff items key d0 r d'" and tx: "in_tx V d0 d' w'"
  show "wp (case r of (oid, exists) \<Rightarrow>
      if exists then ret (oid, exists)
      else attempt (stmt (insert_outbox oid ''order_created'' (order_created oid))) fail
             (\<lambda>_. ret (oid, exists)))
     (\<lambda>a. wp commit_tx (\<lambda>_. tx_ok (placed_eff items key) V d0 a)
        (tx_bad (placed_eff items key) (placed_err items key) V d0))
     (tx_bad (placed_eff items key) (placed_err items key) V d0) w'"
    using tx eff
    by (cases r)
      (auto simp: wp_simps sql_simps placed_eff_def placed_err_def
        elim!: wp_stmt_tx wp_commit_ok dest: insert_outbox_err intro!: exI [of _ d'] add_event_intro)
qed

lemma take_stock_not_retryable: "take_stock q pid n d = Inl e \<Longrightarrow> \<not> is_retryable e"
  by (auto simp: take_stock_def Let_def encode_error_def integer_overflow_def split: if_splits)

lemma insert_item_not_retryable: "insert_item oid pid q price n d = Inl e \<Longrightarrow> \<not> is_retryable e"
  by (auto simp: insert_item_def encode_error_def numeric_overflow_def check_violation_def
      unique_violation_def foreign_key_violation_def split: if_splits)

lemma errorf_not_retryable [simp]: "\<not> is_retryable (errorf_w pre e post)"
  by (simp add: errorf_w_def)

lemma items_err_not_retryable: "items_err oid items d e \<Longrightarrow> \<not> is_retryable e"
  by (induction items arbitrary: d)
    (auto simp: item_err_def split: if_splits dest: take_stock_not_retryable insert_item_not_retryable)

lemma placed_err_not_retryable: "placed_err items key d e \<Longrightarrow> \<not> is_retryable e"
  by (auto simp: placed_err_def create_err_def unique_violation_def encode_error_def
      dest: items_err_not_retryable)

lemma once_create: "once (retry_do (create_tx items key)) (placed_eff items key) (placed_err items key)"
  by (rule once_retry [OF once_performs [OF performs_create_tx]]) (rule placed_err_not_retryable)

definition created_eff :: "create_item list \<Rightarrow> string \<Rightarrow> database \<Rightarrow> int \<times> bool \<Rightarrow> database \<Rightarrow> bool" where
  "created_eff items key d r d' \<longleftrightarrow>
     (case validate_items items of Inl _ \<Rightarrow> False | Inr ois \<Rightarrow> placed_eff ois key d r d')"

definition created_err :: "create_item list \<Rightarrow> string \<Rightarrow> database \<Rightarrow> gerr \<Rightarrow> bool" where
  "created_err items key d e \<longleftrightarrow>
     (case validate_items items of Inl err \<Rightarrow> e = err | Inr ois \<Rightarrow> placed_err ois key d e)"

lemma served_create: "served (create_order_svc items key) (created_eff items key) (created_err items key)"
proof (cases "validate_items items")
  case (Inl err)
  then show ?thesis
    by (auto simp: create_order_svc_def created_err_def served_def wp_simps intro: others_refl)
next
  case (Inr ois)
  let ?k = "\<lambda>(oid, exists). if \<not> exists
    then attempt (send_order_created oid) (\<lambda>_. ret (oid, exists)) (\<lambda>_. ret (oid, exists))
    else ret (oid, exists)"
  have "served (attempt (retry_do (create_tx ois key)) fail ?k)
      (\<lambda>d b d'. \<exists>a. b = a \<and> placed_eff ois key d a d') (placed_err ois key)"
  proof (rule served_idle [OF served_once [OF once_create]])
    show "idle (?k a)" for a
      by (cases a) auto
    show "b = a" if "?k a w = (Inr b, w')" for a w b w'
      using that by (cases a) (auto simp: attempt_def ret_def split: if_splits prod.splits sum.splits)
  qed
  with Inr show ?thesis
    by (simp add: create_order_svc_def created_eff_def [abs_def] created_err_def [abs_def])
qed

lemma idle_invalidate_all [intro]: "idle (invalidate_all pids)"
  by (induction pids) auto

lemma served_cancel:
  "served (cancel_order oid) (\<lambda>d b d'. \<exists>r. b = fst r \<and> cancel_eff oid d r d') (cancel_err oid)"
  unfolding cancel_order_def
proof (rule served_idle [OF served_once [OF once_performs [OF performs_cancel_tx]]])
  show "idle (case r of (cancelled, pids) \<Rightarrow> attempt (invalidate_all pids) fail (\<lambda>_. ret cancelled))" for r
    by (cases r) (auto intro!: idle_attempt)
  show "b = fst r" if "(case r of (cancelled, pids) \<Rightarrow>
      attempt (invalidate_all pids) fail (\<lambda>_. ret cancelled)) w = (Inr b, w')" for r w b w'
    using that by (cases r) (auto simp: attempt_def ret_def fail_def split: prod.splits sum.splits)
qed

end
