(* ===== verification/Ledger.thy ===== *)
theory Ledger
  imports OrderSvc
begin

text \<open>
  The books of the shop: what the schema and the order operations keep of products, orders and
  items (\<open>shop_inv\<close>), and the conservation law of the stock. A unit of a product is either in
  \<open>products.stock\<close> (\<open>stock_of\<close>) or held by an item of an order that is not cancelled (\<open>reserved\<close>); creating
  and cancelling move units between the two and never make or lose one.
\<close>

definition stock_of :: "int \<Rightarrow> database \<Rightarrow> int" where
  "stock_of pid d = sum_list (map p_stock (filter (\<lambda>p. p_id p = pid) (products d)))"

definition live :: "int \<Rightarrow> database \<Rightarrow> bool" where
  "live oid d \<longleftrightarrow> (\<exists>r\<in>set (orders d). o_id r = oid \<and> o_status r \<noteq> Cancelled)"

definition reserved :: "int \<Rightarrow> database \<Rightarrow> int" where
  "reserved pid d =
     sum_list (map oi_quantity (filter (\<lambda>i. oi_product i = pid \<and> live (oi_order i) d) (order_items d)))"

definition units :: "int \<Rightarrow> database \<Rightarrow> int" where
  "units pid d = stock_of pid d + reserved pid d"

definition item_ok :: "database \<Rightarrow> order_item \<Rightarrow> bool" where
  "item_ok d i \<longleftrightarrow> 0 < oi_quantity i \<and> 0 \<le> oi_price i \<and>
     oi_order i \<in> o_id ` set (orders d) \<and> oi_product i \<in> p_id ` set (products d)"

definition item_key :: "order_item \<Rightarrow> int \<times> int" where
  "item_key i = (oi_order i, oi_product i)"

definition shop_inv :: "database \<Rightarrow> bool" where
  "shop_inv d \<longleftrightarrow>
     distinct (map p_id (products d)) \<and> distinct (map o_id (orders d)) \<and>
     distinct (map item_key (order_items d)) \<and>
     (\<forall>p\<in>set (products d). 0 \<le> p_stock p) \<and> (\<forall>i\<in>set (order_items d). item_ok d i)"

section \<open>Sums over tables\<close>

lemma sum_stock_take:
  assumes "distinct (map p_id ps)" and "\<exists>p\<in>set ps. in_stock q x p"
  shows "sum_list (map p_stock (filter (\<lambda>p. p_id p = pid)
      (update_where (in_stock q x) (add_stock (- q)) ps))) =
    sum_list (map p_stock (filter (\<lambda>p. p_id p = pid) ps)) - (if pid = x then q else 0)"
  using assms
proof (induction ps)
  case (Cons p ps)
  show ?case
  proof (cases "in_stock q x p")
    case True
    then have "\<forall>p'\<in>set ps. p_id p' \<noteq> x" using Cons.prems(1) head_key_neq [of p_id p ps] by auto
    then have "update_where (in_stock q x) (add_stock (- q)) ps = ps"
      by (intro update_where_none) auto
    then show ?thesis using True by simp
  next
    case False
    then have ex: "\<exists>p\<in>set ps. in_stock q x p" and d: "distinct (map p_id ps)" using Cons.prems by auto
    have "p_id p \<noteq> x" using False Cons.prems head_key_neq [of p_id p ps] by auto
    then show ?thesis using Cons.IH [OF d ex] by auto
  qed
qed simp

lemma sum_stock_add:
  assumes "\<And>p. p \<in> set ps \<Longrightarrow> p_id (f p) = p_id p \<and> p_stock (f p) = p_stock p + g (p_id p)"
    and "distinct (map p_id ps)"
  shows "sum_list (map p_stock (filter (\<lambda>p. p_id p = pid) (map f ps))) =
    sum_list (map p_stock (filter (\<lambda>p. p_id p = pid) ps)) + (if pid \<in> p_id ` set ps then g pid else 0)"
  using assms
proof (induction ps)
  case (Cons p ps)
  have "sum_list (map p_stock (filter (\<lambda>p. p_id p = pid) (map f ps))) =
    sum_list (map p_stock (filter (\<lambda>p. p_id p = pid) ps)) + (if pid \<in> p_id ` set ps then g pid else 0)"
    by (rule Cons.IH) (use Cons.prems in auto)
  then show ?case using Cons.prems by auto
qed simp

lemma sum_filter_split:
  "sum_list (map q (filter P xs)) =
     sum_list (map q (filter (\<lambda>x. P x \<and> B x) xs)) + (sum_list (map q (filter (\<lambda>x. P x \<and> \<not> B x) xs)) :: int)"
  by (induction xs) auto

lemma sum_filter_key:
  assumes "distinct (map k xs)"
  shows "sum_list (map q (filter (\<lambda>x. k x = v) xs)) =
    (case List.find (\<lambda>x. k x = v) xs of None \<Rightarrow> 0 :: int | Some x \<Rightarrow> q x)"
  using assms
proof (induction xs)
  case (Cons x xs)
  have none: "filter (\<lambda>y. k y = k x) xs = []"
    using Cons.prems by (auto simp: filter_empty_conv) (metis image_eqI)
  show ?case using Cons none by (cases "k x = v") auto
qed simp

section \<open>Creating\<close>

lemma item_eff_ledger:
  assumes "item_eff oid i d d'" and "shop_inv d" and "live oid d"
    and fresh: "(oid, oi_product i) \<notin> item_key ` set (order_items d)"
  shows "shop_inv d'" and "units pid d' = units pid d" and "orders d' = orders d"
    and "item_key ` set (order_items d') = insert (oid, oi_product i) (item_key ` set (order_items d))"
proof -
  obtain p iid where find: "List.find (\<lambda>p. p_id p = oi_product i) (products d) = Some p"
    and some: "\<exists>p\<in>set (products d). in_stock (oi_quantity i) (oi_product i) p"
    and pos: "0 < oi_quantity i" "0 \<le> p_price p"
    and d': "d' = item_db (p_price p) iid oid i d"
    using assms(1) by (auto simp: item_eff_def)
  have ids: "map p_id (products d') = map p_id (products d)"
    by (simp add: d' item_db_def map_update_where)
  then have idset: "p_id ` set (products d') = p_id ` set (products d)"
    by (metis set_map)
  show orders: "orders d' = orders d" by (simp add: d' item_db_def)
  show keys: "item_key ` set (order_items d') =
      insert (oid, oi_product i) (item_key ` set (order_items d))"
    by (simp add: d' item_db_def item_key_def)
  have "oid \<in> o_id ` set (orders d)" using assms(3) by (auto simp: live_def)
  moreover have "oi_product i \<in> p_id ` set (products d)" using find_Some_in [OF find] by force
  ultimately show "shop_inv d'"
    using assms(2) pos fresh ids idset orders
    by (auto simp: shop_inv_def d' item_db_def item_ok_def set_update_where item_key_def)
  have "live = (\<lambda>x d0. live x d0)" by simp
  then have live_eq: "live x d' = live x d" for x by (simp add: live_def orders)
  have "stock_of pid d' = stock_of pid d - (if pid = oi_product i then oi_quantity i else 0)"
    using sum_stock_take [OF _ some] assms(2) by (simp add: stock_of_def d' item_db_def shop_inv_def)
  moreover have "reserved pid d' = reserved pid d + (if pid = oi_product i then oi_quantity i else 0)"
    unfolding reserved_def live_eq using assms(3) by (simp add: d' item_db_def)
  ultimately show "units pid d' = units pid d" by (simp add: units_def)
qed

lemma items_eff_ledger:
  "items_eff oid is d d' \<Longrightarrow> shop_inv d \<Longrightarrow> live oid d \<Longrightarrow> distinct (map oi_product is) \<Longrightarrow>
   (\<forall>i\<in>set is. (oid, oi_product i) \<notin> item_key ` set (order_items d)) \<Longrightarrow>
   shop_inv d' \<and> units pid d' = units pid d \<and> orders d' = orders d"
proof (induction "is" arbitrary: d)
  case (Cons i "is")
  then obtain d1 where d1: "item_eff oid i d d1" "items_eff oid is d1 d'" by auto
  have step: "shop_inv d1" "units pid d1 = units pid d" "orders d1 = orders d"
    "item_key ` set (order_items d1) = insert (oid, oi_product i) (item_key ` set (order_items d))"
    using item_eff_ledger [OF d1(1) Cons.prems(2,3)] Cons.prems(5) by auto
  have "live oid d1" using Cons.prems(3) by (simp add: live_def step(3))
  moreover have "\<forall>j\<in>set is. (oid, oi_product j) \<notin> item_key ` set (order_items d1)"
    using Cons.prems(4,5) by (simp add: step(4)) (metis image_eqI)
  ultimately show ?case using Cons.IH [OF d1(2) step(1)] Cons.prems(4) step by simp
qed simp

lemma open_order_sel [simp]:
  "orders (open_order oid key d) = orders d @ [new_order oid (now d)]"
  "products (open_order oid key d) = products d"
  "order_items (open_order oid key d) = order_items d"
  by (simp_all add: open_order_def Let_def keep_idem_key_def)

lemma remember_order_sel [simp]:
  "orders (remember_order oid key d) = orders d"
  "products (remember_order oid key d) = products d"
  "order_items (remember_order oid key d) = order_items d"
  by (simp_all add: remember_order_def)

lemma ledger_cong:
  assumes "products d' = products d" "orders d' = orders d" "order_items d' = order_items d"
  shows "shop_inv d' = shop_inv d" and "units pid d' = units pid d"
  using assms by (simp_all add: shop_inv_def units_def stock_of_def reserved_def live_def item_ok_def)

lemma live_mono_new:
  "shop_inv d \<Longrightarrow> oid \<notin> o_id ` set (orders d) \<Longrightarrow> reserved pid (open_order oid key d) = reserved pid d"
  unfolding reserved_def
  by (rule arg_cong [where f = "\<lambda>xs. sum_list (map oi_quantity xs)"], rule filter_cong)
    (auto simp: live_def shop_inv_def item_ok_def)

lemma place_ledger:
  assumes "place_eff items key oid d d'" and "shop_inv d" and "distinct (map oi_product items)"
  shows "shop_inv d' \<and> units pid d' = units pid d"
proof -
  obtain d1 where new: "oid \<notin> o_id ` set (orders d)"
    and d1: "items_eff oid (sort_key oi_product items) (open_order oid key d) d1"
    and d': "d' = remember_order oid key d1"
    using assms(1) by (auto simp: place_eff_def)
  have inv: "shop_inv (open_order oid key d)"
    using assms(2) new by (auto simp: shop_inv_def item_ok_def)
  have "live oid (open_order oid key d)" by (auto simp: live_def)
  moreover have "distinct (map oi_product (sort_key oi_product items))"
    using assms(3) by (simp add: distinct_map)
  moreover have "\<forall>i\<in>set (sort_key oi_product items).
      (oid, oi_product i) \<notin> item_key ` set (order_items (open_order oid key d))"
    using assms(2) new by (auto simp: shop_inv_def item_ok_def item_key_def)
  ultimately have "shop_inv d1 \<and> units pid d1 = units pid (open_order oid key d)"
    using items_eff_ledger [OF d1 inv] by blast
  moreover have "units pid (open_order oid key d) = units pid d"
    using live_mono_new [OF assms(2) new] by (simp add: units_def stock_of_def)
  ultimately show ?thesis
    unfolding d' by (simp add: ledger_cong [of "remember_order oid key d1" d1])
qed

section \<open>Cancelling\<close>

lemma cancel_db_sel [simp]:
  "products (cancel_db oid d) = map (restore_product oid d) (products d)"
  "orders (cancel_db oid d) =
     update_where (\<lambda>r. o_id r = oid) (\<lambda>r. r\<lparr>o_status := Cancelled\<rparr>) (orders d)"
  "order_items (cancel_db oid d) = order_items d"
  by (simp_all add: cancel_db_def)

lemma live_cancel_db: "live x (cancel_db oid d) \<longleftrightarrow> x \<noteq> oid \<and> live x d"
  by (auto simp: live_def set_update_where split: if_splits)

lemma cancel_ledger:
  assumes inv: "shop_inv d" and "live oid d"
    and stock: "\<forall>p\<in>set (products d). restored_item oid d p \<noteq> None \<longrightarrow> 0 \<le> p_stock (restore_product oid d p)"
  shows "shop_inv (cancel_db oid d)" and "units pid (cancel_db oid d) = units pid d"
proof -
  let ?held = "\<lambda>pid. case List.find (\<lambda>i. item_key i = (oid, pid)) (order_items d) of
    None \<Rightarrow> 0 | Some i \<Rightarrow> oi_quantity i"
  have restored: "restored_item oid d p = List.find (\<lambda>i. item_key i = (oid, p_id p)) (order_items d)" for p
    by (simp add: restored_item_def item_key_def)
  have sel: "p_id (restore_product oid d p) = p_id p \<and>
      p_stock (restore_product oid d p) = p_stock p + ?held (p_id p)" for p
    by (simp add: restore_product_def restored split: option.splits)
  have ids: "p_id \<circ> restore_product oid d = p_id"
    using sel by (simp add: fun_eq_iff)
  have pids: "p_id ` restore_product oid d ` set (products d) = p_id ` set (products d)"
    using sel by (simp add: image_image)
  have oids: "map o_id (orders (cancel_db oid d)) = map o_id (orders d)"
    by (simp add: map_update_where)
  then have "o_id ` set (orders (cancel_db oid d)) = o_id ` set (orders d)"
    by (metis set_map)
  moreover have "0 \<le> p_stock (restore_product oid d p)" if "p \<in> set (products d)" for p
    using that stock inv by (cases "restored_item oid d p") (auto simp: restore_product_def shop_inv_def)
  ultimately show "shop_inv (cancel_db oid d)"
    using inv oids by (simp add: shop_inv_def item_ok_def ids pids)
  have "stock_of pid (cancel_db oid d) =
      stock_of pid d + (if pid \<in> p_id ` set (products d) then ?held pid else 0)"
    unfolding stock_of_def cancel_db_sel
    by (rule sum_stock_add) (use sel inv in \<open>auto simp: shop_inv_def\<close>)
  also have "(if pid \<in> p_id ` set (products d) then ?held pid else 0) = ?held pid"
    using inv by (auto simp: shop_inv_def item_ok_def item_key_def split: option.splits dest!: find_Some_in)
  finally have st: "stock_of pid (cancel_db oid d) = stock_of pid d + ?held pid" .
  have "reserved pid d =
      sum_list (map oi_quantity (filter (\<lambda>i. (oi_product i = pid \<and> live (oi_order i) d) \<and> oi_order i = oid) (order_items d))) +
      sum_list (map oi_quantity (filter (\<lambda>i. (oi_product i = pid \<and> live (oi_order i) d) \<and> oi_order i \<noteq> oid) (order_items d)))"
    unfolding reserved_def by (rule sum_filter_split)
  also have "filter (\<lambda>i. (oi_product i = pid \<and> live (oi_order i) d) \<and> oi_order i = oid) (order_items d) =
      filter (\<lambda>i. item_key i = (oid, pid)) (order_items d)"
    using assms(2) by (intro filter_cong) (auto simp: item_key_def)
  also have "sum_list (map oi_quantity \<dots>) = ?held pid"
    by (rule sum_filter_key) (use inv in \<open>simp add: shop_inv_def\<close>)
  also have "sum_list (map oi_quantity (filter (\<lambda>i. (oi_product i = pid \<and> live (oi_order i) d) \<and> oi_order i \<noteq> oid) (order_items d))) =
      reserved pid (cancel_db oid d)"
    by (simp add: reserved_def live_cancel_db conj_ac)
  finally show "units pid (cancel_db oid d) = units pid d"
    using st by (simp add: units_def)
qed

lemma refund_eff_shop:
  "refund_eff oid d d' \<Longrightarrow> products d' = products d \<and> orders d' = orders d \<and> order_items d' = order_items d"
  by (auto simp: refund_eff_def split: option.splits if_splits)

lemma cancel_eff_ledger:
  assumes "cancel_eff oid d r d'" and "shop_inv d"
  shows "shop_inv d' \<and> units pid d' = units pid d"
proof -
  obtain row where row: "List.find (\<lambda>r. o_id r = oid) (orders d) = Some row"
    and cases: "o_status row = Pending \<and> d' = cancel_db oid d \<or>
      o_status row = Paid \<and> refund_eff oid (cancel_db oid d) d'"
    using assms(1) by (auto simp: cancel_eff_def)
  have "live oid d" using find_Some_in [OF row] cases by (auto simp: live_def)
  moreover have "\<forall>p\<in>set (products d). restored_item oid d p \<noteq> None \<longrightarrow> 0 \<le> p_stock (restore_product oid d p)"
    using assms(1) by (simp add: cancel_eff_def)
  ultimately have led: "shop_inv (cancel_db oid d)" "units pid (cancel_db oid d) = units pid d"
    using cancel_ledger assms(2) by auto
  from cases show ?thesis
  proof
    assume "o_status row = Pending \<and> d' = cancel_db oid d"
    with led show ?thesis by simp
  next
    assume "o_status row = Paid \<and> refund_eff oid (cancel_db oid d) d'"
    then have "products d' = products (cancel_db oid d)" "orders d' = orders (cancel_db oid d)"
      "order_items d' = order_items (cancel_db oid d)" using refund_eff_shop by blast+
    with led ledger_cong [of d' "cancel_db oid d"] show ?thesis by simp
  qed
qed

lemma add_event_shop:
  "add_event oid d d' \<Longrightarrow> products d' = products d \<and> orders d' = orders d \<and> order_items d' = order_items d"
  by (auto simp: add_event_def)

lemma placed_ledger:
  assumes "placed_eff items key d r d'" and "shop_inv d" and "good_items items"
  shows "shop_inv d' \<and> units pid d' = units pid d"
proof -
  have create: "shop_inv d1 \<and> units pid d1 = units pid d" if "create_eff items key d r d1" for d1
    using that assms(2,3) place_ledger [of items key "fst r" d d1 pid]
    by (auto simp: create_eff_def good_items_def split: option.splits)
  show ?thesis
  proof (cases "snd r")
    case False
    then obtain d1 where "create_eff items key d r d1" and ev: "add_event (fst r) d1 d'"
      using assms(1) by (auto simp: placed_eff_def)
    with create ledger_cong [of d' d1] add_event_shop [OF ev] show ?thesis by simp
  qed (use assms(1) create in \<open>simp add: placed_eff_def\<close>)
qed

end
