(* ===== verification/Payments.thy ===== *)
theory Payments
  imports Store
begin

text \<open>
  \<open>internal/repository/payment_repo.go\<close>: the payment rows and their history.

  \<open>by_key\<close>, \<open>start\<close>, \<open>start_or_resume\<close> and \<open>transition\<close> are the methods of \<open>PaymentRepo\<close>; the
  SQL statements they run are the definitions above them. The unique indexes
  \<open>payments_one_active_per_order\<close> and \<open>payments_idempotency_key\<close>, the check on the amount and the
  foreign key are part of \<open>insert_payment\<close>; Postgres looks at them in the order in which the
  migrations created them.
\<close>

record payment_info =
  pi_id :: int
  pi_amount :: money
  pi_status :: payment_status
  pi_provider :: string

definition payment_info_of :: "payment \<Rightarrow> payment_info" where
  "payment_info_of p = \<lparr>pi_id = pay_id p, pi_amount = pay_amount p, pi_status = pay_status p,
     pi_provider = (case pay_provider p of None \<Rightarrow> '''' | Some s \<Rightarrow> s)\<rparr>"

definition null_if_empty :: "string \<Rightarrow> string option" where
  "null_if_empty s = (if s = '''' then None else Some s)"

definition active :: "payment_status \<Rightarrow> bool" where
  "active s \<longleftrightarrow> s = PaymentPending \<or> s = PaymentSucceeded"

section \<open>Statements\<close>

definition select_payment_by_key :: "string \<Rightarrow> payment_info sql" where
  "select_payment_by_key key = query (\<lambda>d. row_or_none
     (map_option payment_info_of (List.find (\<lambda>p. pay_key p = Some key) (payments d))))"

definition select_order_status :: "int \<Rightarrow> order_status sql" where
  "select_order_status oid = query (\<lambda>d. row_or_none
     (map_option o_status (List.find (\<lambda>r. o_id r = oid) (orders d))))"

definition order_total :: "int \<Rightarrow> database \<Rightarrow> money" where
  "order_total oid d =
     sum_list (map (\<lambda>i. oi_price i * oi_quantity i) (filter (\<lambda>i. oi_order i = oid) (order_items d)))"

definition sum_order_items :: "int \<Rightarrow> money sql" where
  "sum_order_items oid = query (\<lambda>d. Inr (order_total oid d))"

definition new_payment :: "int \<Rightarrow> int \<Rightarrow> money \<Rightarrow> string \<Rightarrow> time \<Rightarrow> payment" where
  "new_payment pid oid amount key t = \<lparr>pay_id = pid, pay_order = oid, pay_amount = amount,
     pay_status = PaymentPending, pay_provider = None, pay_key = null_if_empty key,
     pay_created = t, pay_attempts = 0, pay_next = t, pay_manual = None\<rparr>"

definition insert_payment :: "int \<Rightarrow> money \<Rightarrow> string \<Rightarrow> int sql" where
  "insert_payment oid amount key n d =
     (if \<not> numeric_fits 12 amount then Inl numeric_overflow
      else if \<not> 0 < amount then Inl (check_violation ''payments_amount_check'')
      else if exists_where (\<lambda>p. pay_id p = serial n) (payments d)
        then Inl (unique_violation ''payments_pkey'')
      else if exists_where (\<lambda>p. pay_order p = oid \<and> active (pay_status p)) (payments d)
        then Inl (unique_violation ''payments_one_active_per_order'')
      else if key \<noteq> [] \<and> exists_where (\<lambda>p. pay_key p = Some key) (payments d)
        then Inl (unique_violation ''payments_idempotency_key'')
      else if \<not> exists_where (\<lambda>r. o_id r = oid) (orders d)
        then Inl (foreign_key_violation ''payments_order_id_fkey'')
      else Inr (serial n,
        d\<lparr>payments := payments d @ [new_payment (serial n) oid amount key (now d)]\<rparr>))"

definition add_payment_event ::
  "int \<Rightarrow> payment_status option \<Rightarrow> payment_status \<Rightarrow> string \<Rightarrow> unit sql" where
  "add_payment_event pid from to reason n d =
     (if \<not> exists_where (\<lambda>p. pay_id p = pid) (payments d)
      then Inl (foreign_key_violation ''payment_events_payment_id_fkey'')
      else Inr ((), d\<lparr>payment_events := payment_events d @
        [\<lparr>pe_payment = pid, pe_from = from, pe_to = to, pe_reason = reason\<rparr>]\<rparr>))"

definition select_payment_status :: "int \<Rightarrow> (payment_status \<times> int) sql" where
  "select_payment_status pid = query (\<lambda>d. row_or_none
     (map_option (\<lambda>p. (pay_status p, pay_order p)) (List.find (\<lambda>p. pay_id p = pid) (payments d))))"

definition mark_payment :: "payment_status \<Rightarrow> string \<Rightarrow> payment \<Rightarrow> payment" where
  "mark_payment to provider_id p = p\<lparr>pay_status := to,
     pay_provider := (case null_if_empty provider_id of None \<Rightarrow> pay_provider p | Some s \<Rightarrow> Some s)\<rparr>"

definition set_payment_status :: "int \<Rightarrow> payment_status \<Rightarrow> string \<Rightarrow> unit sql" where
  "set_payment_status pid to provider_id n d = Inr ((), d\<lparr>payments :=
     update_where (\<lambda>p. pay_id p = pid) (mark_payment to provider_id) (payments d)\<rparr>)"

definition pay_pending_order :: "int \<Rightarrow> nat sql" where
  "pay_pending_order oid n d = Inr (count_where (\<lambda>r. o_id r = oid \<and> o_status r = Pending) (orders d),
     d\<lparr>orders := update_where (\<lambda>r. o_id r = oid \<and> o_status r = Pending)
       (\<lambda>r. r\<lparr>o_status := Paid\<rparr>) (orders d)\<rparr>)"

section \<open>The repository\<close>

definition by_key :: "string \<Rightarrow> payment_info act" where
  "by_key key = stmt (select_payment_by_key key)"

definition start :: "int \<Rightarrow> string \<Rightarrow> (int \<times> money) act" where
  "start oid key =
     attempt begin_tx fail (\<lambda>_. defer_rollback (
     attempt (stmt (select_order_status oid))
       (\<lambda>err. if errors_is err NoRows then fail (Sentinel ErrOrderNotFound) else fail err) (\<lambda>status.
     if status \<noteq> Pending
     then fail (errorf_w '''' (Sentinel ErrInvalidStatusTransition)
            ('': order is '' @ order_status_text status))
     else
     attempt (stmt (sum_order_items oid)) fail (\<lambda>amount.
     attempt (stmt (insert_payment oid amount key))
       (\<lambda>err. if is_unique_violation err ''payments_one_active_per_order''
          then fail (Sentinel ErrPaymentAlreadyActive)
          else fail err) (\<lambda>pid.
     attempt (stmt (add_payment_event pid None PaymentPending ''started'')) fail (\<lambda>_.
     attempt commit_tx fail (\<lambda>_.
     ret (pid, amount))))))))"

definition start_or_resume :: "int \<Rightarrow> string \<Rightarrow> payment_info act" where
  "start_or_resume oid key =
     (let begin_new =
        attempt (start oid key)
          (\<lambda>err. if is_unique_violation err ''payments_idempotency_key'' then by_key key else fail err)
          (\<lambda>(pid, amount). ret \<lparr>pi_id = pid, pi_amount = amount, pi_status = PaymentPending,
             pi_provider = ''''\<rparr>)
      in if key \<noteq> '''' then
           attempt (by_key key)
             (\<lambda>err. if \<not> errors_is err NoRows then fail err else begin_new)
             ret
         else begin_new)"

definition transition :: "int \<Rightarrow> payment_status \<Rightarrow> string \<Rightarrow> string \<Rightarrow> unit act" where
  "transition pid to provider_id reason =
     attempt begin_tx fail (\<lambda>_. defer_rollback (
     attempt (stmt (select_payment_status pid))
       (\<lambda>err. if errors_is err NoRows then fail (Sentinel ErrPaymentNotFound) else fail err)
       (\<lambda>(from, oid).
     if \<not> can_transition_payment from to
     then fail (errorf_w '''' (Sentinel ErrPaymentTransition)
            ('': '' @ payment_status_text from @ '' -> '' @ payment_status_text to))
     else
     attempt (stmt (set_payment_status pid to provider_id)) fail (\<lambda>_.
     attempt (stmt (add_payment_event pid (Some from) to reason)) fail (\<lambda>_.
     attempt
       (if to = PaymentSucceeded
        then attempt (stmt (pay_pending_order oid)) fail (\<lambda>affected.
          if affected = 0
          then fail (errorf_w '''' (Sentinel ErrInvalidStatusTransition)
                 ('': order '' @ show_int oid @ '' is no longer pending''))
          else ret ())
        else ret ())
       fail (\<lambda>_.
     commit_tx))))))"

section \<open>What the transactions do\<close>

lemma select_payment_by_key_sql [sql_simps]:
  "select_payment_by_key key n d = Inr (a, d') \<longleftrightarrow>
     (\<exists>p. List.find (\<lambda>p. pay_key p = Some key) (payments d) = Some p \<and> a = payment_info_of p) \<and> d' = d"
  "select_payment_by_key key n d = Inl e \<longleftrightarrow>
     List.find (\<lambda>p. pay_key p = Some key) (payments d) = None \<and> e = NoRows"
  by (auto simp: select_payment_by_key_def sql_simps)

lemma select_order_status_sql [sql_simps]:
  "select_order_status oid n d = Inr (a, d') \<longleftrightarrow>
     (\<exists>r. List.find (\<lambda>r. o_id r = oid) (orders d) = Some r \<and> a = o_status r) \<and> d' = d"
  "select_order_status oid n d = Inl e \<longleftrightarrow>
     List.find (\<lambda>r. o_id r = oid) (orders d) = None \<and> e = NoRows"
  by (auto simp: select_order_status_def sql_simps)

lemma select_payment_status_sql [sql_simps]:
  "select_payment_status pid n d = Inr (a, d') \<longleftrightarrow>
     (\<exists>p. List.find (\<lambda>p. pay_id p = pid) (payments d) = Some p \<and> a = (pay_status p, pay_order p)) \<and> d' = d"
  "select_payment_status pid n d = Inl e \<longleftrightarrow>
     List.find (\<lambda>p. pay_id p = pid) (payments d) = None \<and> e = NoRows"
  by (auto simp: select_payment_status_def sql_simps)

lemma sum_order_items_sql [sql_simps]:
  "sum_order_items oid n d = Inr (a, d') \<longleftrightarrow> a = order_total oid d \<and> d' = d"
  "sum_order_items oid n d \<noteq> Inl e"
  by (simp_all add: sum_order_items_def sql_simps)

lemma add_payment_event_sql [sql_simps]:
  "add_payment_event pid from to reason n d = Inr (a, d') \<longleftrightarrow>
     (\<exists>p\<in>set (payments d). pay_id p = pid) \<and>
     d' = d\<lparr>payment_events := payment_events d @
        [\<lparr>pe_payment = pid, pe_from = from, pe_to = to, pe_reason = reason\<rparr>]\<rparr>"
  "add_payment_event pid from to reason n d = Inl e \<longleftrightarrow>
     \<not> (\<exists>p\<in>set (payments d). pay_id p = pid) \<and>
     e = foreign_key_violation ''payment_events_payment_id_fkey''"
  by (auto simp: add_payment_event_def)

lemma mark_payment_sel [simp]:
  "pay_id (mark_payment to pr p) = pay_id p"
  "pay_order (mark_payment to pr p) = pay_order p"
  "pay_amount (mark_payment to pr p) = pay_amount p"
  "pay_status (mark_payment to pr p) = to"
  "pay_key (mark_payment to pr p) = pay_key p"
  "pay_created (mark_payment to pr p) = pay_created p"
  by (simp_all add: mark_payment_def)

lemma new_payment_sel [simp]:
  "pay_id (new_payment pid oid amount key t) = pid"
  "pay_order (new_payment pid oid amount key t) = oid"
  "pay_amount (new_payment pid oid amount key t) = amount"
  "pay_status (new_payment pid oid amount key t) = PaymentPending"
  "pay_provider (new_payment pid oid amount key t) = None"
  "pay_key (new_payment pid oid amount key t) = null_if_empty key"
  by (simp_all add: new_payment_def)

lemma set_payment_status_sql [sql_simps]:
  "set_payment_status pid to provider_id n d = Inr (a, d') \<longleftrightarrow> d' = d\<lparr>payments :=
     update_where (\<lambda>p. pay_id p = pid) (mark_payment to provider_id) (payments d)\<rparr>"
  "set_payment_status pid to provider_id n d \<noteq> Inl e"
  by (auto simp: set_payment_status_def)

lemma pay_pending_order_sql [sql_simps]:
  "pay_pending_order oid n d = Inr (a, d') \<longleftrightarrow>
     a = count_where (\<lambda>r. o_id r = oid \<and> o_status r = Pending) (orders d) \<and>
     d' = d\<lparr>orders := update_where (\<lambda>r. o_id r = oid \<and> o_status r = Pending)
       (\<lambda>r. r\<lparr>o_status := Paid\<rparr>) (orders d)\<rparr>"
  "pay_pending_order oid n d \<noteq> Inl e"
  by (auto simp: pay_pending_order_def)

lemma insert_payment_sql [sql_simps]:
  "insert_payment oid amount key n d = Inr (a, d') \<longleftrightarrow>
     a = serial n \<and> numeric_fits 12 amount \<and> 0 < amount \<and>
     (\<forall>p\<in>set (payments d). pay_id p \<noteq> serial n \<and> \<not> (pay_order p = oid \<and> active (pay_status p)) \<and>
        (key \<noteq> [] \<longrightarrow> pay_key p \<noteq> Some key)) \<and>
     (\<exists>r\<in>set (orders d). o_id r = oid) \<and>
     d' = d\<lparr>payments := payments d @ [new_payment (serial n) oid amount key (now d)]\<rparr>"
  by (auto simp: insert_payment_def)

definition insert_payment_err :: "int \<Rightarrow> money \<Rightarrow> string \<Rightarrow> database \<Rightarrow> gerr \<Rightarrow> bool" where
  "insert_payment_err oid amount key d e \<longleftrightarrow>
     (if \<not> numeric_fits 12 amount then e = numeric_overflow
      else if \<not> 0 < amount then e = check_violation ''payments_amount_check''
      else e = unique_violation ''payments_pkey'' \<or>
        (if \<exists>p\<in>set (payments d). pay_order p = oid \<and> active (pay_status p)
         then e = unique_violation ''payments_one_active_per_order''
         else if key \<noteq> [] \<and> (\<exists>p\<in>set (payments d). pay_key p = Some key)
         then e = unique_violation ''payments_idempotency_key''
         else e = foreign_key_violation ''payments_order_id_fkey'' \<and>
           (\<forall>r\<in>set (orders d). o_id r \<noteq> oid)))"

lemma insert_payment_Inl:
  "insert_payment oid amount key n d = Inl e \<Longrightarrow> insert_payment_err oid amount key d e"
  by (auto simp: insert_payment_def insert_payment_err_def split: if_splits)

definition transition_db :: "payment \<Rightarrow> payment_status \<Rightarrow> string \<Rightarrow> string \<Rightarrow> database \<Rightarrow> database" where
  "transition_db p to provider_id reason d =
     (let d' = d\<lparr>
        payments := update_where (\<lambda>q. pay_id q = pay_id p) (mark_payment to provider_id) (payments d),
        payment_events := payment_events d @
          [\<lparr>pe_payment = pay_id p, pe_from = Some (pay_status p), pe_to = to, pe_reason = reason\<rparr>]\<rparr>
      in if to = PaymentSucceeded
         then d'\<lparr>orders := update_where (\<lambda>r. o_id r = pay_order p \<and> o_status r = Pending)
           (\<lambda>r. r\<lparr>o_status := Paid\<rparr>) (orders d)\<rparr>
         else d')"

definition transition_eff ::
  "int \<Rightarrow> payment_status \<Rightarrow> string \<Rightarrow> string \<Rightarrow> database \<Rightarrow> unit \<Rightarrow> database \<Rightarrow> bool" where
  "transition_eff pid to provider_id reason d u d' \<longleftrightarrow>
     (\<exists>p. List.find (\<lambda>p. pay_id p = pid) (payments d) = Some p \<and>
        can_transition_payment (pay_status p) to \<and>
        (to = PaymentSucceeded \<longrightarrow> (\<exists>r\<in>set (orders d). o_id r = pay_order p \<and> o_status r = Pending)) \<and>
        d' = transition_db p to provider_id reason d)"

definition transition_err :: "int \<Rightarrow> payment_status \<Rightarrow> database \<Rightarrow> gerr \<Rightarrow> bool" where
  "transition_err pid to d e \<longleftrightarrow>
     (case List.find (\<lambda>p. pay_id p = pid) (payments d) of
        None \<Rightarrow> e = Sentinel ErrPaymentNotFound
      | Some p \<Rightarrow>
          if \<not> can_transition_payment (pay_status p) to
          then e = errorf_w [] (Sentinel ErrPaymentTransition)
            ('': '' @ payment_status_text (pay_status p) @ '' -> '' @ payment_status_text to)
          else to = PaymentSucceeded \<and>
            (\<forall>r\<in>set (orders d). o_id r = pay_order p \<longrightarrow> o_status r \<noteq> Pending) \<and>
            e = errorf_w [] (Sentinel ErrInvalidStatusTransition)
              ('': order '' @ show_int (pay_order p) @ '' is no longer pending''))"

lemma performs_transition:
  "performs (transition pid to provider_id reason)
     (transition_eff pid to provider_id reason) (transition_err pid to)"
  unfolding transition_def
  by (rule performs_tx,
      auto simp: wp_simps sql_simps bex_update_where elim!: wp_stmt_tx wp_commit_ok_unit,
      auto simp: transition_eff_def transition_db_def transition_err_def Let_def count_where_pos
        count_where_zero dest: find_Some_in)

definition start_db :: "int \<Rightarrow> string \<Rightarrow> int \<Rightarrow> database \<Rightarrow> database" where
  "start_db oid key pid d = d\<lparr>
     payments := payments d @ [new_payment pid oid (order_total oid d) key (now d)],
     payment_events := payment_events d @
       [\<lparr>pe_payment = pid, pe_from = None, pe_to = PaymentPending, pe_reason = ''started''\<rparr>]\<rparr>"

definition start_eff :: "int \<Rightarrow> string \<Rightarrow> database \<Rightarrow> int \<times> money \<Rightarrow> database \<Rightarrow> bool" where
  "start_eff oid key d r d' \<longleftrightarrow>
     0 < fst r \<and> snd r = order_total oid d \<and> 0 < order_total oid d \<and>
     (\<exists>ord. List.find (\<lambda>r. o_id r = oid) (orders d) = Some ord \<and> o_status ord = Pending) \<and>
     (\<forall>p\<in>set (payments d). pay_id p \<noteq> fst r \<and> \<not> (pay_order p = oid \<and> active (pay_status p)) \<and>
        (key \<noteq> [] \<longrightarrow> pay_key p \<noteq> Some key)) \<and>
     d' = start_db oid key (fst r) d"

definition start_err :: "int \<Rightarrow> string \<Rightarrow> database \<Rightarrow> gerr \<Rightarrow> bool" where
  "start_err oid key d e \<longleftrightarrow>
     (case List.find (\<lambda>r. o_id r = oid) (orders d) of
        None \<Rightarrow> e = Sentinel ErrOrderNotFound
      | Some r \<Rightarrow>
          if o_status r \<noteq> Pending
          then e = errorf_w [] (Sentinel ErrInvalidStatusTransition)
            ('': order is '' @ order_status_text (o_status r))
          else \<exists>e'. insert_payment_err oid (order_total oid d) key d e' \<and>
            e = (if is_unique_violation e' ''payments_one_active_per_order''
                 then Sentinel ErrPaymentAlreadyActive else e'))"

lemma performs_start: "performs (start oid key) (start_eff oid key) (start_err oid key)"
  unfolding start_def
  by (rule performs_tx,
      auto simp: wp_simps sql_simps elim!: wp_stmt_tx wp_commit_ok,
      auto simp: start_eff_def start_db_def start_err_def serial_def
        dest: find_Some_in insert_payment_Inl)

text \<open>
  C16: Transition is atomic.
\<close>

theorem transition_atomic:
  "performs (transition pid to provider_id reason)
     (transition_eff pid to provider_id reason) (transition_err pid to)"
  by (rule performs_transition)

end
