(* ===== verification/Provider.thy ===== *)
theory Provider
  imports Store
begin

text \<open>
  \<open>internal/payment/fake_provider.go\<close>: the stand-in for the payment provider, with its own journal
  (\<open>fake_provider_charges\<close>, \<open>fake_provider_refunds\<close>, \<open>fake_provider_settings\<close>), written outside the
  service's transactions. Every method runs on the pool, one statement at a time. The draw
  \<open>rand.Float64() < failRate\<close> of \<open>Charge\<close> is the argument \<open>unlucky\<close>; the delay and the logging are
  left out.
\<close>

record provider_charge =
  pc_key :: string
  pc_charge :: string
  pc_amount :: money
  pc_status :: string
  pc_created :: time

definition charge_name :: "int \<Rightarrow> string" where
  "charge_name i = ''ch_'' @ show_int i"

definition refund_name :: "int \<Rightarrow> string" where
  "refund_name i = ''rf_'' @ show_int i"

lemma charge_name_inj [simp]: "charge_name i = charge_name j \<longleftrightarrow> i = j"
  by (simp add: charge_name_def)

lemma charge_name_nonempty [simp]: "charge_name i \<noteq> []"
  by (simp add: charge_name_def)

primrec charge_state_text :: "charge_state \<Rightarrow> string" where
  "charge_state_text Charged = ''charged''"
| "charge_state_text Declined = ''declined''"

section \<open>Statements\<close>

definition select_down :: "bool sql" where
  "select_down = query (\<lambda>d. row_or_none (provider_down d))"

definition new_charge :: "int \<Rightarrow> int \<Rightarrow> money \<Rightarrow> charge_state \<Rightarrow> string \<Rightarrow> time \<Rightarrow> charge" where
  "new_charge cid oid amount status key t = \<lparr>ch_id = cid, ch_order = oid, ch_amount = amount,
     ch_status = status, ch_key = (if key = '''' then None else Some key), ch_created = t\<rparr>"

definition insert_charge :: "int \<Rightarrow> money \<Rightarrow> charge_state \<Rightarrow> string \<Rightarrow> int sql" where
  "insert_charge oid amount status key n d =
     (if \<not> int4 oid then Inl encode_error
      else if \<not> numeric_fits 12 amount then Inl numeric_overflow
      else if key \<noteq> '''' \<and> exists_where (\<lambda>c. ch_key c = Some key) (charges d) then Inl NoRows
      else if exists_where (\<lambda>c. ch_id c = serial n) (charges d)
        then Inl (unique_violation ''fake_provider_charges_pkey'')
      else Inr (serial n,
        d\<lparr>charges := charges d @ [new_charge (serial n) oid amount status key (now d)]\<rparr>))"

definition select_charge :: "string \<Rightarrow> (int \<times> charge_state) sql" where
  "select_charge key = query (\<lambda>d. row_or_none
     (map_option (\<lambda>c. (ch_id c, ch_status c)) (List.find (\<lambda>c. ch_key c = Some key) (charges d))))"

definition insert_provider_refund :: "string \<Rightarrow> string \<Rightarrow> money \<Rightarrow> int sql" where
  "insert_provider_refund key charge_id amount n d =
     (if \<not> numeric_fits 12 amount then Inl numeric_overflow
      else if exists_where (\<lambda>r. pr_key r = key) (provider_refunds d) then Inl NoRows
      else if exists_where (\<lambda>r. pr_id r = serial n) (provider_refunds d)
        then Inl (unique_violation ''fake_provider_refunds_pkey'')
      else Inr (serial n, d\<lparr>provider_refunds := provider_refunds d @
        [\<lparr>pr_id = serial n, pr_key = key, pr_charge = charge_id, pr_amount = amount\<rparr>]\<rparr>))"

definition select_provider_refund :: "string \<Rightarrow> int sql" where
  "select_provider_refund key = query (\<lambda>d. row_or_none
     (map_option pr_id (List.find (\<lambda>r. pr_key r = key) (provider_refunds d))))"

definition select_charges_between ::
  "time \<Rightarrow> time \<Rightarrow> (int \<times> string \<times> money \<times> charge_state \<times> time \<times> bool) list sql" where
  "select_charges_between from to = query (\<lambda>d. Inr
     (map (\<lambda>c. (ch_id c, (case ch_key c of None \<Rightarrow> '''' | Some k \<Rightarrow> k), ch_amount c, ch_status c,
           ch_created c, exists_where (\<lambda>r. pr_charge r = charge_name (ch_id c)) (provider_refunds d)))
       (filter (\<lambda>c. from \<le> ch_created c \<and> ch_created c < to) (charges d))))"

section \<open>The provider's methods\<close>

definition is_down :: "bool act" where
  "is_down = attempt (stmt select_down) (\<lambda>_. ret False) ret"

definition provider_error :: "gerr \<Rightarrow> gerr" where
  "provider_error err = errorf_w ''provider internal error: '' err ''''"

definition charge :: "bool \<Rightarrow> string \<Rightarrow> int \<Rightarrow> money \<Rightarrow> string act" where
  "charge unlucky key oid amount =
     attempt is_down fail (\<lambda>down.
     if down then fail (Sentinel ErrProviderUnavailable)
     else
     let status = (if unlucky then Declined else Charged) in
     attempt
       (attempt (stmt (insert_charge oid amount status key))
         (\<lambda>err. if errors_is err NoRows
            then attempt (stmt (select_charge key)) (\<lambda>err. fail (provider_error err)) ret
            else fail (provider_error err))
         (\<lambda>cid. ret (cid, status)))
       fail (\<lambda>(cid, status).
     if status = Declined then fail (Sentinel ErrDeclined)
     else ret (charge_name cid)))"

definition refund_charge :: "string \<Rightarrow> string \<Rightarrow> money \<Rightarrow> string act" where
  "refund_charge key charge_id amount =
     attempt is_down fail (\<lambda>down.
     if down then fail (Sentinel ErrProviderUnavailable)
     else
     attempt
       (attempt (stmt (insert_provider_refund key charge_id amount))
         (\<lambda>err. if errors_is err NoRows
            then attempt (stmt (select_provider_refund key)) (\<lambda>err. fail (provider_error err)) ret
            else fail (provider_error err))
         ret)
       fail (\<lambda>rid.
     ret (refund_name rid)))"

datatype charge_lookup = ChargeNotFound | ChargeSucceeded | ChargeDeclined

definition charge_status :: "string \<Rightarrow> (charge_lookup \<times> string) act" where
  "charge_status key =
     attempt is_down fail (\<lambda>down.
     if down then fail (Sentinel ErrProviderUnavailable)
     else
     attempt (stmt (select_charge key))
       (\<lambda>err. if errors_is err NoRows then ret (ChargeNotFound, '''') else fail (provider_error err))
       (\<lambda>(cid, status).
     if status = Declined then ret (ChargeDeclined, '''')
     else ret (ChargeSucceeded, charge_name cid)))"

definition list_charges :: "time \<Rightarrow> time \<Rightarrow> provider_charge list act" where
  "list_charges from to =
     attempt is_down fail (\<lambda>down.
     if down then fail (Sentinel ErrProviderUnavailable)
     else
     attempt (stmt (select_charges_between from to)) fail (\<lambda>rows.
     ret (map (\<lambda>(cid, key, amount, status, created, refunded).
       \<lparr>pc_key = key, pc_charge = charge_name cid, pc_amount = amount,
         pc_status = (if refunded \<and> status = Charged then ''refunded'' else charge_state_text status),
         pc_created = created\<rparr>) rows)))"

section \<open>Statements as relations\<close>

lemma new_charge_sel [simp]:
  "ch_id (new_charge cid oid amount status key t) = cid"
  "ch_order (new_charge cid oid amount status key t) = oid"
  "ch_amount (new_charge cid oid amount status key t) = amount"
  "ch_status (new_charge cid oid amount status key t) = status"
  "ch_key (new_charge cid oid amount status key t) = (if key = [] then None else Some key)"
  "ch_created (new_charge cid oid amount status key t) = t"
  by (simp_all add: new_charge_def)

lemma insert_charge_sql [sql_simps]:
  "insert_charge oid amount status key n d = Inr (a, d') \<longleftrightarrow>
     a = serial n \<and> int4 oid \<and> numeric_fits 12 amount \<and>
     (\<forall>c\<in>set (charges d). ch_id c \<noteq> serial n \<and> (key \<noteq> [] \<longrightarrow> ch_key c \<noteq> Some key)) \<and>
     d' = d\<lparr>charges := charges d @ [new_charge (serial n) oid amount status key (now d)]\<rparr>"
  by (auto simp: insert_charge_def)

lemma select_charge_sql [sql_simps]:
  "select_charge key n d = Inr (a, d') \<longleftrightarrow>
     (\<exists>c. List.find (\<lambda>c. ch_key c = Some key) (charges d) = Some c \<and> a = (ch_id c, ch_status c)) \<and> d' = d"
  "select_charge key n d = Inl e \<longleftrightarrow>
     List.find (\<lambda>c. ch_key c = Some key) (charges d) = None \<and> e = NoRows"
  by (auto simp: select_charge_def sql_simps)

lemma select_down_sql [sql_simps]:
  "select_down n d = Inr (a, d') \<longleftrightarrow> provider_down d = Some a \<and> d' = d"
  by (simp add: select_down_def sql_simps)

lemma insert_provider_refund_sql [sql_simps]:
  "insert_provider_refund key charge_id amount n d = Inr (a, d') \<longleftrightarrow>
     a = serial n \<and> numeric_fits 12 amount \<and>
     (\<forall>r\<in>set (provider_refunds d). pr_id r \<noteq> serial n \<and> pr_key r \<noteq> key) \<and>
     d' = d\<lparr>provider_refunds := provider_refunds d @
        [\<lparr>pr_id = serial n, pr_key = key, pr_charge = charge_id, pr_amount = amount\<rparr>]\<rparr>"
  by (auto simp: insert_provider_refund_def)

lemma select_provider_refund_sql [sql_simps]:
  "select_provider_refund key n d = Inr (a, d') \<longleftrightarrow>
     (\<exists>r. List.find (\<lambda>r. pr_key r = key) (provider_refunds d) = Some r \<and> a = pr_id r) \<and> d' = d"
  by (auto simp: select_provider_refund_def sql_simps)

end
