(* ===== verification/PaySvc.thy ===== *)
theory PaySvc
  imports Payments Provider Rely
begin

text \<open>
  \<open>internal/service/payment_service.go\<close>: \<open>pay\<close> is \<open>PaymentService.Pay\<close>. Its first arguments are the
  fields of the service (\<open>store_start\<close>, \<open>store_transition\<close>, \<open>provider_charge_fn\<close>): the two methods of \<open>PaymentStore\<close>, the one of \<open>PaymentProvider\<close> and the demo
  switch \<open>crashAfterCharge\<close>. \<open>ProcessExit\<close> is \<open>os.Exit(1)\<close>.

  The locale \<open>payment_deps\<close> is what the service needs of its store and its provider to be correct; it is
  stated with the rules of rely and guarantee, so that other requests, the workers and other replicas
  may act between any two calls. It is interpreted on the repository and on the provider of this
  repository in the theory that has the steps of the whole system.
\<close>

definition declined_now :: "gerr \<Rightarrow> gerr" where
  "declined_now err = errorf_w [] (Sentinel ErrPaymentDeclined) ('': '' @ error_text err)"

definition declined_earlier :: gerr where
  "declined_earlier = errorf_w [] (Sentinel ErrPaymentDeclined) '': declined earlier''"

definition payment_closed :: "payment_status \<Rightarrow> gerr" where
  "payment_closed s =
     errorf_w [] (Sentinel ErrPaymentTransition) ('': payment is '' @ payment_status_text s)"

text \<open>Of \<open>NewPaymentService\<close> the demo switch, read from the environment.\<close>

definition new_payment_service :: "(string \<Rightarrow> string) \<Rightarrow> bool" where
  "new_payment_service os_env \<longleftrightarrow> os_env ''PAY_CRASH_AFTER_CHARGE'' = ''1''"

definition pay ::
  "(int \<Rightarrow> string \<Rightarrow> payment_info act) \<Rightarrow>
   (int \<Rightarrow> payment_status \<Rightarrow> string \<Rightarrow> string \<Rightarrow> unit act) \<Rightarrow>
   (string \<Rightarrow> int \<Rightarrow> money \<Rightarrow> string act) \<Rightarrow> bool \<Rightarrow> int \<Rightarrow> string \<Rightarrow> string act" where
  "pay store_start store_transition provider_charge_fn crash_after_charge oid key =
     attempt (store_start oid key) fail (\<lambda>p.
     if pi_status p = PaymentSucceeded then ret (pi_provider p)
     else if pi_status p = PaymentFailed then fail declined_earlier
     else if pi_status p = PaymentExpired \<or> pi_status p = PaymentRefunded
     then fail (payment_closed (pi_status p))
     else
     attempt (provider_charge_fn key oid (pi_amount p))
       (\<lambda>err.
          if errors_is err (Sentinel ErrDeclined) then
            attempt (store_transition (pi_id p) PaymentFailed [] (error_text err))
              (\<lambda>_. fail (declined_now err)) (\<lambda>_. fail (declined_now err))
          else fail err)
       (\<lambda>charge_id.
          if crash_after_charge then fail ProcessExit
          else
            attempt (store_transition (pi_id p) PaymentSucceeded charge_id ''provider confirmed'') fail (\<lambda>_.
            ret charge_id)))"

locale payment_deps =
  fixes S :: "database \<Rightarrow> database \<Rightarrow> bool" and I :: "database \<Rightarrow> bool"
    and store_start :: "int \<Rightarrow> string \<Rightarrow> payment_info act"
    and store_transition :: "int \<Rightarrow> payment_status \<Rightarrow> string \<Rightarrow> string \<Rightarrow> unit act"
    and provider_charge_fn :: "string \<Rightarrow> int \<Rightarrow> money \<Rightarrow> string act"
    and known :: "string \<Rightarrow> payment_info \<Rightarrow> database \<Rightarrow> bool"
    and charged :: "string \<Rightarrow> money \<Rightarrow> string \<Rightarrow> database \<Rightarrow> bool"
    and declined :: "string \<Rightarrow> database \<Rightarrow> bool"
    and paid :: "string \<Rightarrow> string \<Rightarrow> database \<Rightarrow> bool"
  assumes I_stable: "stable S I"
    and known_stable: "stable S (\<lambda>d. I d \<and> known key p d)"
    and charged_stable: "stable S (\<lambda>d. I d \<and> known key p d \<and> charged key (pi_amount p) c d)"
    and declined_stable: "stable S (\<lambda>d. I d \<and> known key p d \<and> declined key d)"
    and begin_or_find: "key \<noteq> [] \<Longrightarrow> runs S V I (store_start oid key)
      (\<lambda>p d. I d \<and> known key p d \<and> (pi_status p = PaymentSucceeded \<longrightarrow> paid key (pi_provider p) d))
      (\<lambda>e d. I d)"
    and charge_once: "runs S V (\<lambda>d. I d \<and> known key p d) (provider_charge_fn key oid (pi_amount p))
      (\<lambda>c d. I d \<and> known key p d \<and> charged key (pi_amount p) c d)
      (\<lambda>e d. I d \<and> known key p d \<and> (errors_is e (Sentinel ErrDeclined) \<longrightarrow> declined key d))"
    and record_success: "runs S V (\<lambda>d. I d \<and> known key p d \<and> charged key (pi_amount p) c d)
      (store_transition (pi_id p) PaymentSucceeded c reason) (\<lambda>_ d. I d \<and> paid key c d) (\<lambda>e d. I d)"
    and record_failure: "runs S V (\<lambda>d. I d \<and> known key p d \<and> declined key d)
      (store_transition (pi_id p) PaymentFailed [] reason) (\<lambda>_ d. I d) (\<lambda>e d. I d)"
begin

text \<open>Whatever happens around it, a payment that is reported as paid is one.\<close>

lemma runs_pay:
  assumes "key \<noteq> []"
  shows "runs S V I (pay store_start store_transition provider_charge_fn crash oid key)
     (\<lambda>c d. I d \<and> paid key c d) (\<lambda>e d. I d)"
  unfolding pay_def
proof (rule runs_attempt [OF begin_or_find [OF assms]])
  show "runs S V I (fail e) (\<lambda>c d. I d \<and> paid key c d) (\<lambda>e d. I d)" for e
    by (rule runs_fail)
  fix p
  have failed: "runs S V (\<lambda>d. I d \<and> known key p d \<and> (errors_is e (Sentinel ErrDeclined) \<longrightarrow> declined key d))
      (if errors_is e (Sentinel ErrDeclined)
       then attempt (store_transition (pi_id p) PaymentFailed [] (error_text e))
              (\<lambda>_. fail (declined_now e)) (\<lambda>_. fail (declined_now e))
       else fail e) (\<lambda>c d. I d \<and> paid key c d) (\<lambda>e d. I d)" for e
  proof (rule runs_if)
    assume "errors_is e (Sentinel ErrDeclined)"
    then show "runs S V (\<lambda>d. I d \<and> known key p d \<and> (errors_is e (Sentinel ErrDeclined) \<longrightarrow> declined key d))
        (attempt (store_transition (pi_id p) PaymentFailed [] (error_text e))
          (\<lambda>_. fail (declined_now e)) (\<lambda>_. fail (declined_now e)))
        (\<lambda>c d. I d \<and> paid key c d) (\<lambda>e d. I d)"
      by (intro runs_attempt [where M = "\<lambda>_. I" and F = "\<lambda>_. I"] runs_fail runs_conseq [OF record_failure])
        auto
  qed (auto intro: runs_fail)
  have succeeded: "runs S V (\<lambda>d. I d \<and> known key p d \<and> charged key (pi_amount p) c d)
      (if crash then fail ProcessExit
       else attempt (store_transition (pi_id p) PaymentSucceeded c ''provider confirmed'') fail (\<lambda>_. ret c))
      (\<lambda>c d. I d \<and> paid key c d) (\<lambda>e d. I d)" for c
    by (intro runs_if runs_fail runs_attempt [OF record_success]) (auto intro: runs_fail runs_ret)
  have charging: "runs S V
      (\<lambda>d. I d \<and> known key p d \<and> (pi_status p = PaymentSucceeded \<longrightarrow> paid key (pi_provider p) d))
      (attempt (provider_charge_fn key oid (pi_amount p))
        (\<lambda>err. if errors_is err (Sentinel ErrDeclined)
          then attempt (store_transition (pi_id p) PaymentFailed [] (error_text err))
                 (\<lambda>_. fail (declined_now err)) (\<lambda>_. fail (declined_now err))
          else fail err)
        (\<lambda>c. if crash then fail ProcessExit
          else attempt (store_transition (pi_id p) PaymentSucceeded c ''provider confirmed'') fail (\<lambda>_. ret c)))
      (\<lambda>c d. I d \<and> paid key c d) (\<lambda>e d. I d)"
    by (rule runs_attempt [OF runs_conseq [OF charge_once] failed succeeded]) auto
  show "runs S V
      (\<lambda>d. I d \<and> known key p d \<and> (pi_status p = PaymentSucceeded \<longrightarrow> paid key (pi_provider p) d))
      (if pi_status p = PaymentSucceeded then ret (pi_provider p)
       else if pi_status p = PaymentFailed then fail declined_earlier
       else if pi_status p = PaymentExpired \<or> pi_status p = PaymentRefunded
       then fail (payment_closed (pi_status p))
       else attempt (provider_charge_fn key oid (pi_amount p))
        (\<lambda>err. if errors_is err (Sentinel ErrDeclined)
          then attempt (store_transition (pi_id p) PaymentFailed [] (error_text err))
                 (\<lambda>_. fail (declined_now err)) (\<lambda>_. fail (declined_now err))
          else fail err)
        (\<lambda>c. if crash then fail ProcessExit
          else attempt (store_transition (pi_id p) PaymentSucceeded c ''provider confirmed'') fail (\<lambda>_. ret c)))
      (\<lambda>c d. I d \<and> paid key c d) (\<lambda>e d. I d)"
    by (intro runs_if charging) (auto intro: runs_fail runs_ret)
qed

end

end
