(* ===== verification/Http.thy ===== *)
theory Http
  imports Domain "HOL-Library.Multiset"
begin

text \<open>
  What the handlers write and read of HTTP: responses, JSON texts, numbers in a URL.

  \<open>encode\<close> is the output of \<open>encoding/json\<close> for the values the handlers give it (bytes from 128 on are copied:
  the texts are UTF-8; the escapes of the two line separators U+2028 and U+2029 are left out). \<open>atoi\<close> is
  \<open>strconv.Atoi\<close> on 64 bits, with the value it returns beside an error. \<open>write_error\<close> and
  \<open>err_to_status\<close> are those of \<open>handler/errors.go\<close>, \<open>write_json\<close> is \<open>writeJSON\<close> of \<open>handler/health.go\<close>.
\<close>

section \<open>JSON\<close>

datatype json = JText string | JInt int | JList "json list" | JObject "(string \<times> json) list"

definition hex_digit :: "nat \<Rightarrow> char" where
  "hex_digit n = ''0123456789abcdef'' ! n"

definition json_escape :: "char \<Rightarrow> string" where
  "json_escape c =
     (let n = of_char c :: nat
      in if n = 34 \<or> n = 92 then [CHR 0x5C, c]
      else if n = 8 then [CHR 0x5C, CHR ''b'']
      else if n = 12 then [CHR 0x5C, CHR ''f'']
      else if n = 10 then [CHR 0x5C, CHR ''n'']
      else if n = 13 then [CHR 0x5C, CHR ''r'']
      else if n = 9 then [CHR 0x5C, CHR ''t'']
      else if n < 32 \<or> c = CHR ''<'' \<or> c = CHR ''>'' \<or> c = CHR ''&''
      then [CHR 0x5C, CHR ''u'', CHR ''0'', CHR ''0'', hex_digit (n div 16), hex_digit (n mod 16)]
      else [c])"

definition json_text :: "string \<Rightarrow> string" where
  "json_text s = [CHR 0x22] @ concat (map json_escape s) @ [CHR 0x22]"

fun commas :: "string list \<Rightarrow> string" where
  "commas [] = []"
| "commas [s] = s"
| "commas (s # ss) = s @ '','' @ commas ss"

primrec encode :: "json \<Rightarrow> string" where
  "encode (JText s) = json_text s"
| "encode (JInt i) = show_int i"
| "encode (JList vs) = ''['' @ commas (map encode vs) @ '']''"
| "encode (JObject fs) = ''{'' @ commas (map (\<lambda>(k, s). json_text k @ '':'' @ s) (map (map_prod id encode) fs)) @ ''}''"

section \<open>Responses\<close>

record response =
  rs_code :: int
  rs_json :: bool
  rs_retry :: bool
  rs_body :: string

definition newline :: string where
  "newline = [CHR 0x0A]"

definition write_json :: "int \<Rightarrow> json \<Rightarrow> response" where
  "write_json status body =
     \<lparr>rs_code = status, rs_json = True, rs_retry = False, rs_body = encode body @ newline\<rparr>"

definition error_response :: "string \<Rightarrow> json" where
  "error_response msg = JObject [(''error'', JText msg)]"

definition status_text :: "int \<Rightarrow> string" where
  "status_text status =
     (if status = 500 then ''Internal Server Error''
      else if status = 503 then ''Service Unavailable''
      else if status = 400 then ''Bad Request''
      else if status = 402 then ''Payment Required''
      else if status = 404 then ''Not Found''
      else if status = 409 then ''Conflict''
      else [])"

definition err_to_status :: "(gerr \<times> int) list" where
  "err_to_status =
     [(Sentinel ErrOrderNotFound, 404),
      (Sentinel ErrProductNotFound, 404),
      (Sentinel ErrInsufficientStock, 409),
      (Sentinel ErrInvalidStatusTransition, 409),
      (Sentinel ErrOrderAlreadyCancelled, 409),
      (Sentinel ErrInvalidCursor, 400),
      (Sentinel ErrOffsetNotSupported, 400),
      (Sentinel ErrPaymentDeclined, 402),
      (Sentinel ErrPaymentAlreadyActive, 409),
      (Sentinel ErrPaymentTransition, 409),
      (Sentinel ErrPaymentNotFound, 404),
      (Sentinel ErrPaymentInProgress, 409),
      (DeadlineExceeded, 503)]"

text \<open>\<open>for domainErr, code := range errToStatus\<close>, the map in the order of \<open>table\<close>\<close>

definition status_by :: "(gerr \<times> int) list \<Rightarrow> gerr \<Rightarrow> int" where
  "status_by table err =
     (case List.find (\<lambda>(e, code). errors_is err e) table of None \<Rightarrow> 500 | Some (e, code) \<Rightarrow> code)"

definition write_error_by :: "(gerr \<times> int) list \<Rightarrow> gerr \<Rightarrow> response" where
  "write_error_by table err =
     (let status = status_by table err;
          msg = (if status \<noteq> 500 \<and> status \<noteq> 503 then error_text err else status_text status)
      in \<lparr>rs_code = status, rs_json = True, rs_retry = (status = 503),
        rs_body = encode (error_response msg) @ newline\<rparr>)"

definition write_error :: "gerr \<Rightarrow> response" where
  "write_error = write_error_by err_to_status"

section \<open>Numbers\<close>

datatype num_error = SyntaxError | RangeError

definition digit_value :: "char \<Rightarrow> int option" where
  "digit_value c =
     (let n = of_char c :: nat in if 48 \<le> n \<and> n \<le> 57 then Some (int n - 48) else None)"

definition max_uint64 :: int where "max_uint64 = 2 ^ 64 - 1"
definition int64_cutoff :: int where "int64_cutoff = 2 ^ 63"

fun parse_uint :: "int \<Rightarrow> string \<Rightarrow> int \<times> num_error option" where
  "parse_uint n [] = (n, None)"
| "parse_uint n (c # cs) =
     (case digit_value c of
        None \<Rightarrow> (0, Some SyntaxError)
      | Some v \<Rightarrow>
          if max_uint64 < n * 10 + v then (max_uint64, Some RangeError)
          else parse_uint (n * 10 + v) cs)"

definition atoi :: "string \<Rightarrow> int \<times> num_error option" where
  "atoi s =
     (let neg = (case s of c # cs \<Rightarrow> c = CHR ''-'' | [] \<Rightarrow> False);
          s = (case s of c # cs \<Rightarrow> if c = CHR ''-'' \<or> c = CHR ''+'' then cs else s | [] \<Rightarrow> s)
      in if s = [] then (0, Some SyntaxError)
      else case parse_uint 0 s of (un, err) \<Rightarrow>
        if err = Some SyntaxError then (0, err)
        else if \<not> neg \<and> int64_cutoff \<le> un then (int64_cutoff - 1, Some RangeError)
        else if neg \<and> int64_cutoff < un then (- int64_cutoff, Some RangeError)
        else ((if neg then - un else un), None))"

section \<open>The status of an error\<close>

primrec root_cause :: "gerr \<Rightarrow> gerr" where
  "root_cause (Sentinel s) = Sentinel s"
| "root_cause Canceled = Canceled"
| "root_cause DeadlineExceeded = DeadlineExceeded"
| "root_cause NoRows = NoRows"
| "root_cause RedisNil = RedisNil"
| "root_cause (PgError c k t) = PgError c k t"
| "root_cause (NewError t) = NewError t"
| "root_cause ProcessExit = ProcessExit"
| "root_cause (Wrap t e) = root_cause e"

lemma errors_is_root: "(\<forall>t e'. x \<noteq> Wrap t e') \<Longrightarrow> errors_is err x \<longleftrightarrow> root_cause err = x"
  by (induction err) auto

lemma table_no_wrap: "(e, code) \<in> set err_to_status \<Longrightarrow> e \<noteq> Wrap t e'"
  by (auto simp: err_to_status_def)

lemma table_distinct: "distinct (map fst err_to_status)"
  by (simp add: err_to_status_def)

lemma status_by_root:
  assumes "distinct (map fst table)" and "\<And>e code t e'. (e, code) \<in> set table \<Longrightarrow> e \<noteq> Wrap t e'"
  shows "status_by table err = (case map_of table (root_cause err) of None \<Rightarrow> 500 | Some code \<Rightarrow> code)"
  using assms
proof (induction table)
  case (Cons x table)
  obtain e code where x: "x = (e, code)" by (cases x)
  have is_root: "errors_is err e \<longleftrightarrow> root_cause err = e"
    using Cons.prems(2) [of e code] x by (intro errors_is_root) auto
  have "status_by table err = (case map_of table (root_cause err) of None \<Rightarrow> 500 | Some code \<Rightarrow> code)"
    by (rule Cons.IH) (use Cons.prems in auto)
  then show ?case using is_root x by (auto simp: status_by_def)
qed (simp add: status_by_def)

lemma status_of_root: "status_by err_to_status err =
    (case map_of err_to_status (root_cause err) of None \<Rightarrow> 500 | Some code \<Rightarrow> code)"
  by (rule status_by_root [OF table_distinct table_no_wrap])

text \<open>
  C27: The status of an error does not depend on the order in which Go's map gives its entries: writeError answers
  the same for every order of errToStatus, because a chain of wrapped errors has one root and only roots are in the map.
\<close>

theorem write_error_order_independent:
  assumes "mset table = mset err_to_status"
  shows "write_error_by table err = write_error err"
proof -
  have set: "set table = set err_to_status" using assms by (metis set_mset_mset)
  have "distinct (map fst table)"
    using table_distinct assms by (metis mset_eq_imp_distinct_iff mset_map)
  moreover from this have "map_of table = map_of err_to_status"
    using table_distinct set by (metis map_of_eqI map_of_inject_set)
  ultimately have "status_by table err = status_by err_to_status err"
    using status_by_root [of table err] table_no_wrap set status_of_root by metis
  then show ?thesis by (simp add: write_error_def write_error_by_def)
qed

theorem write_error_order_independent_witness:
  "rs_code (write_error_by (rev err_to_status) (errorf_w ''GetProductByID: '' (Sentinel ErrProductNotFound) [])) = 404"
proof -
  have "rs_code (write_error (errorf_w ''GetProductByID: '' (Sentinel ErrProductNotFound) [])) = 404" by code_simp
  then show ?thesis by (subst write_error_order_independent) simp_all
qed

section \<open>Reading numbers back\<close>

lemma parse_uint_append:
  "parse_uint n xs = (m, None) \<Longrightarrow> parse_uint n (xs @ ys) = parse_uint m ys"
  by (induction n xs rule: parse_uint.induct) (auto split: option.splits if_splits)

lemma digit_value_char: "k < 10 \<Longrightarrow> digit_value (char_of (48 + k :: nat)) = Some (int k)"
  by (simp add: digit_value_def of_char_of)

lemma parse_show_nat: "int k \<le> max_uint64 \<Longrightarrow> parse_uint 0 (show_nat k) = (int k, None)"
proof (induction k rule: show_nat.induct)
  case (1 k)
  show ?case
  proof (cases "k < 10")
    case True
    then show ?thesis using "1.prems" digit_value_char [OF True] by (simp add: show_nat_small)
  next
    case False
    have "int (k div 10) \<le> max_uint64" using "1.prems" by (simp add: zdiv_int)
    then have "parse_uint 0 (show_nat (k div 10)) = (int (k div 10), None)"
      using "1.IH" False by blast
    moreover have "int (k div 10) * 10 + int (k mod 10) = int k" by presburger
    ultimately show ?thesis
      using "1.prems" digit_value_char [of "k mod 10"] False
      by (simp add: show_nat_large parse_uint_append)
  qed
qed

lemma show_nat_no_plus: "show_nat n \<noteq> CHR ''+'' # s"
proof
  assume "show_nat n = CHR ''+'' # s"
  then obtain d where "d < 10" and "CHR ''+'' = (char_of (48 + d :: nat) :: char)"
    using show_nat_hd [of n] by auto
  then have "(of_char (CHR ''+'') :: nat) = of_char (char_of (48 + d) :: char)"
    by simp
  then show False using \<open>d < 10\<close> by (simp add: of_char_of)
qed

lemma atoi_read:
  assumes "- (2 ^ 63) \<le> i" and "i < 2 ^ 63"
  shows "atoi (show_int i) = (i, None)"
proof (cases "i < 0")
  case True
  then have "parse_uint 0 (show_nat (nat (- i))) = (- i, None)"
    using parse_show_nat [of "nat (- i)"] assms by (simp add: max_uint64_def)
  then show ?thesis using True assms by (simp add: atoi_def show_int_def Let_def int64_cutoff_def)
next
  case False
  then have parse: "parse_uint 0 (show_nat (nat i)) = (i, None)"
    using parse_show_nat [of "nat i"] assms by (simp add: max_uint64_def)
  obtain c cs where s: "show_nat (nat i) = c # cs" using show_nat_nonempty [of "nat i"] by (cases "show_nat (nat i)") auto
  then have "c \<noteq> CHR ''-''" "c \<noteq> CHR ''+''"
    using show_nat_no_minus [of "nat i" cs] show_nat_no_plus [of "nat i" cs] by auto
  then show ?thesis using False assms parse s by (simp add: atoi_def show_int_def Let_def int64_cutoff_def)
qed

end
