(* ===== verification/Idem.thy ===== *)
theory Idem
  imports Rely Http Flight
begin

text \<open>
  Payments that are safe to repeat: \<open>repository/idempotency_repo.go\<close> and \<open>handler/idempotency.go\<close>.

  \<open>claim\<close>, \<open>complete\<close> and \<open>release\<close> are the methods of \<open>IdempotencyRepo\<close>; \<open>claim_db\<close> is what a claim does as one
  transaction. \<open>exec_idempotent\<close> is \<open>execIdempotent\<close> over the methods of an \<open>IdempotencyStore\<close> and the wrapped
  handler; the \<open>captureWriter\<close> is the response the handler returns. \<open>idempotent\<close> is the handler \<open>Idempotent\<close>; its
  \<open>digest\<close> is the hexadecimal SHA-256. Concurrent requests with the same key and fingerprint share one execution (theory
  \<open>Flight\<close>): \<open>idempotent\<close> gives the answer of each of the \<open>callers\<close> of one execution, whose request is \<open>r\<close>; a caller
  whose context ends first returns without writing anything.
\<close>

section \<open>The repository\<close>

definition idempotency_lease :: time where "idempotency_lease = seconds 15"
definition idempotency_ttl :: time where "idempotency_ttl = hours 24"

definition insert_request :: "string \<Rightarrow> string \<Rightarrow> nat sql" where
  "insert_request key hash n d =
     (if exists_where (\<lambda>r. rq_key r = key) (pay_requests d) then Inr (0, d)
      else Inr (1, d\<lparr>pay_requests := pay_requests d @
        [\<lparr>rq_key = key, rq_hash = hash, rq_status = InProgress, rq_code = None, rq_body = None,
          rq_locked = now d + idempotency_lease, rq_expires = now d + idempotency_ttl,
          rq_created = now d\<rparr>]\<rparr>))"

definition select_request ::
  "string \<Rightarrow> (string \<times> request_status \<times> int option \<times> string option \<times> bool \<times> bool) sql" where
  "select_request key = query (\<lambda>d. row_or_none (map_option
     (\<lambda>r. (rq_hash r, rq_status r, rq_code r, rq_body r, rq_locked r < now d, rq_expires r < now d))
     (List.find (\<lambda>r. rq_key r = key) (pay_requests d))))"

definition renewed :: "string \<Rightarrow> time \<Rightarrow> pay_request \<Rightarrow> pay_request" where
  "renewed hash t r = r\<lparr>rq_hash := hash, rq_status := InProgress, rq_code := None, rq_body := None,
     rq_locked := t + idempotency_lease, rq_expires := t + idempotency_ttl, rq_created := t\<rparr>"

definition renew_request :: "string \<Rightarrow> string \<Rightarrow> unit sql" where
  "renew_request key hash n d = Inr ((), d\<lparr>pay_requests :=
     update_where (\<lambda>r. rq_key r = key) (renewed hash (now d)) (pay_requests d)\<rparr>)"

definition extend_lease :: "string \<Rightarrow> unit sql" where
  "extend_lease key n d = Inr ((), d\<lparr>pay_requests :=
     update_where (\<lambda>r. rq_key r = key) (\<lambda>r. r\<lparr>rq_locked := now d + idempotency_lease\<rparr>) (pay_requests d)\<rparr>)"

definition owner :: idempotency_claim where "owner = empty_claim\<lparr>claim_owner := True\<rparr>"
definition busy :: idempotency_claim where "busy = empty_claim\<lparr>claim_busy := True\<rparr>"
definition mismatch :: idempotency_claim where "mismatch = empty_claim\<lparr>claim_mismatch := True\<rparr>"

definition stored :: "int option \<Rightarrow> string option \<Rightarrow> idempotency_claim" where
  "stored code body = empty_claim\<lparr>claim_code := (case code of None \<Rightarrow> 0 | Some c \<Rightarrow> c),
     claim_body := (case body of None \<Rightarrow> [] | Some b \<Rightarrow> b)\<rparr>"

definition claim :: "string \<Rightarrow> string \<Rightarrow> idempotency_claim act" where
  "claim key hash =
     attempt begin_tx fail (\<lambda>_. defer_rollback (
     attempt (stmt (insert_request key hash)) fail (\<lambda>affected.
     if affected = 1 then attempt commit_tx fail (\<lambda>_. ret owner)
     else
     attempt (stmt (select_request key))
       (\<lambda>err. if errors_is err NoRows then ret busy else fail err)
       (\<lambda>(stored_hash, status, code, body, lease_expired, expired).
     if expired then
       attempt (stmt (renew_request key hash)) fail (\<lambda>_.
       attempt commit_tx fail (\<lambda>_. ret owner))
     else if stored_hash \<noteq> hash then ret mismatch
     else if status = Completed then ret (stored code body)
     else if \<not> lease_expired then ret busy
     else
       attempt (stmt (extend_lease key)) fail (\<lambda>_.
       attempt commit_tx fail (\<lambda>_. ret owner))))))"

definition complete_request :: "string \<Rightarrow> int \<Rightarrow> string \<Rightarrow> unit sql" where
  "complete_request key code body n d = Inr ((), d\<lparr>pay_requests :=
     update_where (\<lambda>r. rq_key r = key)
       (\<lambda>r. r\<lparr>rq_status := Completed, rq_code := Some code, rq_body := Some body\<rparr>) (pay_requests d)\<rparr>)"

definition complete :: "string \<Rightarrow> int \<Rightarrow> string \<Rightarrow> unit act" where
  "complete key code body = stmt (complete_request key code body)"

definition release_request :: "string \<Rightarrow> unit sql" where
  "release_request key n d = Inr ((), d\<lparr>pay_requests :=
     update_where (\<lambda>r. rq_key r = key \<and> rq_status r = InProgress) (\<lambda>r. r\<lparr>rq_locked := now d\<rparr>) (pay_requests d)\<rparr>)"

definition release :: "string \<Rightarrow> unit act" where
  "release key = stmt (release_request key)"

section \<open>The handler\<close>

definition json_response :: "int \<Rightarrow> string \<Rightarrow> bool \<Rightarrow> response" where
  "json_response code msg retry =
     \<lparr>rs_code = code, rs_json = True, rs_retry = retry, rs_body = encode (error_response msg) @ newline\<rparr>"

definition replayed :: "int \<Rightarrow> string \<Rightarrow> bool \<Rightarrow> response" where
  "replayed code body retry = \<lparr>rs_code = code, rs_json = True, rs_retry = retry, rs_body = body\<rparr>"

definition exec_idempotent ::
  "(string \<Rightarrow> string \<Rightarrow> idempotency_claim act) \<Rightarrow> (string \<Rightarrow> int \<Rightarrow> string \<Rightarrow> unit act) \<Rightarrow>
   (string \<Rightarrow> unit act) \<Rightarrow> response act \<Rightarrow> string \<Rightarrow> string \<Rightarrow> response act" where
  "exec_idempotent store_claim store_complete store_release next_handler key hash =
     attempt (store_claim key hash) (\<lambda>_. ret (json_response 503 ''Service Unavailable'' True)) (\<lambda>c.
     if claim_mismatch c
     then ret (json_response 422 ''Idempotency-Key was already used with a different request'' False)
     else if claim_busy c
     then ret (json_response 409 ''request with this Idempotency-Key is still in progress, retry later'' True)
     else if \<not> claim_owner c then ret (replayed (claim_code c) (claim_body c) False)
     else
     attempt next_handler fail (\<lambda>rec.
     if 500 \<le> rs_code rec then
       attempt (store_release key)
         (\<lambda>_. ret (replayed (rs_code rec) (rs_body rec) (rs_code rec = 503)))
         (\<lambda>_. ret (replayed (rs_code rec) (rs_body rec) (rs_code rec = 503)))
     else
       attempt (store_complete key (rs_code rec) (rs_body rec))
         (\<lambda>_. ret (replayed (rs_code rec) (rs_body rec) False))
         (\<lambda>_. ret (replayed (rs_code rec) (rs_body rec) False))))"

record http_request =
  hq_method :: string
  hq_path :: string
  hq_id :: string
  hq_query :: "string \<Rightarrow> string"
  hq_key :: string
  hq_body :: string

definition max_body :: int where "max_body = 65536"

text \<open>What \<open>net/http\<close> sends for a handler that returns without having written anything.\<close>

definition nothing_written :: response where
  "nothing_written = \<lparr>rs_code = 200, rs_json = False, rs_retry = False, rs_body = []\<rparr>"

definition idempotent ::
  "(string \<Rightarrow> string \<Rightarrow> idempotency_claim act) \<Rightarrow> (string \<Rightarrow> int \<Rightarrow> string \<Rightarrow> unit act) \<Rightarrow>
   (string \<Rightarrow> unit act) \<Rightarrow> (string \<Rightarrow> string) \<Rightarrow> (http_request \<Rightarrow> response act) \<Rightarrow> gerr option list \<Rightarrow>
   http_request \<Rightarrow> response list act" where
  "idempotent store_claim store_complete store_release digest next_handler callers r =
     (let key = hq_key r in
      if key = [] \<or> 255 < int (length key)
      then ret (map (\<lambda>_. write_json 400 (error_response ''Idempotency-Key header is required for payments'')) callers)
      else if max_body < int (length (hq_body r))
      then ret (map (\<lambda>_. write_json 400 (error_response ''cannot read request body'')) callers)
      else
        let hash = digest (hq_method r @ '' '' @ hq_path r @ newline @ hq_body r)
        in attempt (exec_idempotent store_claim store_complete store_release (next_handler r) key hash) fail (\<lambda>x.
        ret (map (\<lambda>got. case got of Inl ctx_err \<Rightarrow> nothing_written | Inr x \<Rightarrow> x) (deliver callers (Inr x)))))"

text \<open>The answers of the callers: \<open>P\<close> holds of each, but for those that left.\<close>

definition answered :: "gerr option list \<Rightarrow> (response \<Rightarrow> bool) \<Rightarrow> response list \<Rightarrow> bool" where
  "answered callers P xs \<longleftrightarrow> list_all2 (\<lambda>gone x. P x \<or> gone \<noteq> None \<and> x = nothing_written) callers xs"

lemma answered_refused: "P x \<Longrightarrow> answered callers P (map (\<lambda>_. x) callers)"
  by (simp add: answered_def list_all2_map2 list_all2_same)

lemma answered_delivered:
  "P x \<Longrightarrow> answered callers P (map (\<lambda>got. case got of Inl e \<Rightarrow> nothing_written | Inr x \<Rightarrow> x) (deliver callers (Inr x)))"
  by (auto simp: answered_def deliver_def list_all2_map2 list_all2_same split: option.splits)

section \<open>A claim is one step\<close>

fun claim_db :: "string \<Rightarrow> string \<Rightarrow> database \<Rightarrow> idempotency_claim \<times> database" where
  "claim_db key hash d =
     (case List.find (\<lambda>r. rq_key r = key) (pay_requests d) of
        None \<Rightarrow> (owner, d\<lparr>pay_requests := pay_requests d @
          [\<lparr>rq_key = key, rq_hash = hash, rq_status = InProgress, rq_code = None, rq_body = None,
            rq_locked = now d + idempotency_lease, rq_expires = now d + idempotency_ttl,
            rq_created = now d\<rparr>]\<rparr>)
      | Some r \<Rightarrow>
          if rq_expires r < now d then (owner, d\<lparr>pay_requests :=
            update_where (\<lambda>r. rq_key r = key) (renewed hash (now d)) (pay_requests d)\<rparr>)
          else if rq_hash r \<noteq> hash then (mismatch, d)
          else if rq_status r = Completed then (stored (rq_code r) (rq_body r), d)
          else if \<not> rq_locked r < now d then (busy, d)
          else (owner, d\<lparr>pay_requests := update_where (\<lambda>r. rq_key r = key)
            (\<lambda>r. r\<lparr>rq_locked := now d + idempotency_lease\<rparr>) (pay_requests d)\<rparr>))"

declare claim_db.simps [simp del]

lemma insert_request_sql [sql_simps]:
  "insert_request key hash n d = Inr (a, d') \<longleftrightarrow>
     (if \<exists>r\<in>set (pay_requests d). rq_key r = key then a = 0 \<and> d' = d
      else a = 1 \<and> d' = snd (claim_db key hash d))"
  "insert_request key hash n d \<noteq> Inl e"
  by (auto simp: insert_request_def claim_db.simps split: option.splits dest: find_Some_in
      simp: find_None_iff)

lemma request_updates_sql [sql_simps]:
  "renew_request key hash n d = Inr (u, d') \<longleftrightarrow> d' = d\<lparr>pay_requests :=
     update_where (\<lambda>r. rq_key r = key) (renewed hash (now d)) (pay_requests d)\<rparr>"
  "renew_request key hash n d \<noteq> Inl e"
  "extend_lease key n d = Inr (u, d') \<longleftrightarrow> d' = d\<lparr>pay_requests := update_where (\<lambda>r. rq_key r = key)
     (\<lambda>r. r\<lparr>rq_locked := now d + idempotency_lease\<rparr>) (pay_requests d)\<rparr>"
  "extend_lease key n d \<noteq> Inl e"
  by (auto simp: renew_request_def extend_lease_def)

lemma select_request_sql [sql_simps]:
  "select_request key n d = Inr (a, d') \<longleftrightarrow> d' = d \<and>
     (\<exists>r. List.find (\<lambda>r. rq_key r = key) (pay_requests d) = Some r \<and>
        a = (rq_hash r, rq_status r, rq_code r, rq_body r, rq_locked r < now d, rq_expires r < now d))"
  "select_request key n d = Inl e \<longleftrightarrow> List.find (\<lambda>r. rq_key r = key) (pay_requests d) = None \<and> e = NoRows"
  by (auto simp: select_request_def sql_simps)

lemma claim_frame: "claim_db key hash d = (c, d') \<Longrightarrow> \<exists>rs. d' = d\<lparr>pay_requests := rs\<rparr>"
  by (auto simp: claim_db.simps intro: exI [of _ "pay_requests d"] split: option.splits if_splits)

lemma request_frames:
  "release_request key n d = Inr (u, d') \<Longrightarrow> \<exists>rs. d' = d\<lparr>pay_requests := rs\<rparr>"
  "complete_request key code body n d = Inr (u, d') \<Longrightarrow> \<exists>rs. d' = d\<lparr>pay_requests := rs\<rparr>"
  by (auto simp: release_request_def complete_request_def)

text \<open>Or it finds no row after the insert met one (it was deleted in between), and is told to come back.\<close>

definition claim_eff :: "string \<Rightarrow> string \<Rightarrow> database \<Rightarrow> idempotency_claim \<Rightarrow> database \<Rightarrow> bool" where
  "claim_eff key hash d c d' \<longleftrightarrow> claim_db key hash d = (c, d') \<or> c = busy \<and> d' = d"

lemma performs_claim: "performs (claim key hash) (claim_eff key hash) (\<lambda>d e. False)"
  unfolding claim_def claim_eff_def
  by (rule performs_tx,
      auto simp: wp_simps sql_simps elim!: wp_stmt_tx wp_commit_ok split: if_splits,
      auto simp: claim_db.simps find_None_iff dest: find_Some_in split: option.splits)

section \<open>What the handler needs of its store\<close>

text \<open>
  \<open>fine key code body d\<close>: the answer is true in \<open>d\<close>, and will be. The store gives back only what was
  stored, so that if the wrapped handler's answers are true, every answer is, first or repeated.
\<close>

locale idempotency_store =
  fixes S :: "database \<Rightarrow> database \<Rightarrow> bool" and I :: "database \<Rightarrow> bool"
    and store_claim :: "string \<Rightarrow> string \<Rightarrow> idempotency_claim act"
    and store_complete :: "string \<Rightarrow> int \<Rightarrow> string \<Rightarrow> unit act"
    and store_release :: "string \<Rightarrow> unit act"
    and fine :: "string \<Rightarrow> int \<Rightarrow> string \<Rightarrow> database \<Rightarrow> bool"
  assumes stable_fine: "stable S (\<lambda>d. I d \<and> fine key code body d)"
    and refusals_fine: "code \<noteq> 200 \<Longrightarrow> fine key code body d"
    and claims: "runs S V I (store_claim key hash)
      (\<lambda>c d. I d \<and> (\<not> claim_owner c \<and> \<not> claim_mismatch c \<and> \<not> claim_busy c \<longrightarrow>
         fine key (claim_code c) (claim_body c) d)) (\<lambda>_. I)"
    and completes: "runs S V (\<lambda>d. I d \<and> fine key code body d) (store_complete key code body) (\<lambda>_. I) (\<lambda>_. I)"
    and releases: "runs S V I (store_release key) (\<lambda>_. I) (\<lambda>_. I)"
begin

lemma runs_finish:
  assumes "runs S V (\<lambda>d. I d \<and> fine key code body d) m (\<lambda>_. I) (\<lambda>_. I)"
  shows "runs S V (\<lambda>d. I d \<and> fine key code body d)
    (attempt m (\<lambda>_. ret (replayed code body retry)) (\<lambda>_. ret (replayed code body retry)))
    (\<lambda>r d. I d \<and> fine key (rs_code r) (rs_body r) d) (\<lambda>_. I)"
proof (rule runs_attempt)
  show "runs S V (\<lambda>d. I d \<and> fine key code body d) m (\<lambda>_ d. I d \<and> fine key code body d)
      (\<lambda>_ d. I d \<and> fine key code body d)"
    by (rule runs_conseq [OF runs_frame [OF assms stable_fine]]) auto
qed (auto intro!: runs_ret simp: replayed_def)

lemma runs_exec:
  assumes handler: "runs S V I next_handler (\<lambda>r d. I d \<and> fine key (rs_code r) (rs_body r) d) (\<lambda>_. I)"
  shows "runs S V I (exec_idempotent store_claim store_complete store_release next_handler key hash)
    (\<lambda>r d. I d \<and> fine key (rs_code r) (rs_body r) d) (\<lambda>_. I)"
proof -
  have act: "runs S V I
      (attempt next_handler fail (\<lambda>rec.
       if 500 \<le> rs_code rec then
         attempt (store_release key)
           (\<lambda>_. ret (replayed (rs_code rec) (rs_body rec) (rs_code rec = 503)))
           (\<lambda>_. ret (replayed (rs_code rec) (rs_body rec) (rs_code rec = 503)))
       else
         attempt (store_complete key (rs_code rec) (rs_body rec))
           (\<lambda>_. ret (replayed (rs_code rec) (rs_body rec) False))
           (\<lambda>_. ret (replayed (rs_code rec) (rs_body rec) False))))
      (\<lambda>r d. I d \<and> fine key (rs_code r) (rs_body r) d) (\<lambda>_. I)"
  proof (rule runs_attempt [OF handler runs_fail])
    fix rec :: response
    show "runs S V (\<lambda>d. I d \<and> fine key (rs_code rec) (rs_body rec) d)
        (if 500 \<le> rs_code rec then
           attempt (store_release key)
             (\<lambda>_. ret (replayed (rs_code rec) (rs_body rec) (rs_code rec = 503)))
             (\<lambda>_. ret (replayed (rs_code rec) (rs_body rec) (rs_code rec = 503)))
         else
           attempt (store_complete key (rs_code rec) (rs_body rec))
             (\<lambda>_. ret (replayed (rs_code rec) (rs_body rec) False))
             (\<lambda>_. ret (replayed (rs_code rec) (rs_body rec) False)))
        (\<lambda>r d. I d \<and> fine key (rs_code r) (rs_body r) d) (\<lambda>_. I)"
      by (intro runs_if runs_finish completes) (rule runs_conseq [OF releases], auto)
  qed
  have refuse: "runs S V I (ret (json_response code msg retry))
      (\<lambda>r d. I d \<and> fine key (rs_code r) (rs_body r) d) (\<lambda>_. I)" if "code \<noteq> 200" for code msg retry
    using refusals_fine [OF that] by (intro runs_ret) (simp add: json_response_def)
  have decide: "runs S V
      (\<lambda>d. I d \<and> (\<not> claim_owner c \<and> \<not> claim_mismatch c \<and> \<not> claim_busy c \<longrightarrow>
         fine key (claim_code c) (claim_body c) d))
      (if claim_mismatch c
       then ret (json_response 422 ''Idempotency-Key was already used with a different request'' False)
       else if claim_busy c
       then ret (json_response 409 ''request with this Idempotency-Key is still in progress, retry later'' True)
       else if \<not> claim_owner c then ret (replayed (claim_code c) (claim_body c) False)
       else
         attempt next_handler fail (\<lambda>rec.
         if 500 \<le> rs_code rec then
           attempt (store_release key)
             (\<lambda>_. ret (replayed (rs_code rec) (rs_body rec) (rs_code rec = 503)))
             (\<lambda>_. ret (replayed (rs_code rec) (rs_body rec) (rs_code rec = 503)))
         else
           attempt (store_complete key (rs_code rec) (rs_body rec))
             (\<lambda>_. ret (replayed (rs_code rec) (rs_body rec) False))
             (\<lambda>_. ret (replayed (rs_code rec) (rs_body rec) False))))
      (\<lambda>r d. I d \<and> fine key (rs_code r) (rs_body r) d) (\<lambda>_. I)" for c
    by (intro runs_if runs_conseq [OF refuse] runs_conseq [OF act] runs_ret) (auto simp: replayed_def)
  show ?thesis
    unfolding exec_idempotent_def by (rule runs_attempt [OF claims refuse decide]) simp
qed

lemma runs_idempotent:
  assumes "\<And>key. hq_key r = key \<Longrightarrow> key \<noteq> [] \<Longrightarrow>
    runs S V I (next_handler r) (\<lambda>x d. I d \<and> fine key (rs_code x) (rs_body x) d) (\<lambda>_. I)"
  shows "runs S V I (idempotent store_claim store_complete store_release digest next_handler callers r)
    (\<lambda>xs d. I d \<and> answered callers (\<lambda>x. fine (hq_key r) (rs_code x) (rs_body x) d) xs) (\<lambda>_. I)"
proof -
  have refuse: "runs S V I (ret (map (\<lambda>_. write_json 400 j) callers))
      (\<lambda>xs d. I d \<and> answered callers (\<lambda>x. fine (hq_key r) (rs_code x) (rs_body x) d) xs) (\<lambda>_. I)" for j
    by (intro runs_ret conjI answered_refused) (auto simp: write_json_def refusals_fine)
  have exec: "runs S V I (attempt (exec_idempotent store_claim store_complete store_release (next_handler r) (hq_key r) h) fail
      (\<lambda>x. ret (map (\<lambda>got. case got of Inl ctx_err \<Rightarrow> nothing_written | Inr x \<Rightarrow> x) (deliver callers (Inr x)))))
      (\<lambda>xs d. I d \<and> answered callers (\<lambda>x. fine (hq_key r) (rs_code x) (rs_body x) d) xs) (\<lambda>_. I)"
    if "hq_key r \<noteq> []" for h
    by (rule runs_attempt [OF runs_exec [OF assms [OF refl that]] runs_fail runs_ret])
      (auto intro: answered_delivered)
  show ?thesis
  proof (cases "hq_key r = []")
    case True
    then show ?thesis using refuse by (simp add: idempotent_def Let_def)
  next
    case False
    show ?thesis unfolding idempotent_def Let_def by (intro runs_if refuse exec [OF False])
  qed
qed

end

section \<open>Repeating a request\<close>





end
