(* ===== verification/PayApi.thy ===== *)
theory PayApi
  imports PaySvc Idem
begin

text \<open>
  \<open>handler/payment.go\<close>: \<open>pay_handler\<close> is \<open>PaymentHandler.Pay\<close> over the method \<open>Pay\<close> of the service, and
  \<open>pay_endpoint\<close> is \<open>Handler\<close>, the endpoint \<open>POST /orders/{id}/pay\<close>, with the answers of all requests that share one execution. When the process exits nobody is answered.
\<close>

definition paid_json :: "int \<Rightarrow> string \<Rightarrow> json" where
  "paid_json oid charge_id =
     JObject [(''charge_id'', JText charge_id), (''order_id'', JInt oid), (''status'', JText ''paid'')]"

definition pay_handler :: "(int \<Rightarrow> string \<Rightarrow> string act) \<Rightarrow> http_request \<Rightarrow> response act" where
  "pay_handler svc_pay r =
     (case atoi (hq_id r) of (oid, err) \<Rightarrow>
        if err \<noteq> None then ret (write_error (Sentinel ErrOrderNotFound))
        else
        attempt (svc_pay oid (hq_key r))
          (\<lambda>err. if err = ProcessExit then fail err else ret (write_error err)) (\<lambda>charge_id.
        ret (write_json 200 (paid_json oid charge_id))))"

definition pay_endpoint ::
  "(int \<Rightarrow> string \<Rightarrow> string act) \<Rightarrow> (string \<Rightarrow> string) \<Rightarrow> gerr option list \<Rightarrow> http_request \<Rightarrow> response list act" where
  "pay_endpoint svc_pay digest = idempotent claim complete release digest (pay_handler svc_pay)"

lemma write_error_refuses: "rs_code (write_error err) \<noteq> 200"
  by (auto simp: write_error_def write_error_by_def Let_def status_by_def err_to_status_def
      split: option.splits if_splits)

end
