(* ===== verification/Refunds.thy ===== *)
theory Refunds
  imports Payments Provider Rely Backoff
begin

text \<open>
  \<open>internal/worker/refund_worker.go\<close>: the worker that returns the money of cancelled orders.

  \<open>process_due\<close> is \<open>ProcessDue\<close>: it leases the due refunds in one statement (\<open>lease_refunds\<close>), then
  for each asks the provider, outside any transaction, and records the answer (\<open>mark_succeeded\<close>,
  \<open>mark_failed\<close>). \<open>locked\<close> are the rows that other replicas hold and \<open>SKIP LOCKED\<close> leaves out. The
  provider's \<open>Refund\<close> is an argument. The worker's settings \<open>cfg\<close> are an argument too
  (\<open>NewRefundWorker\<close> with its option \<open>WithRefundRetry\<close>); the loop \<open>Run\<close> is in \<open>Workers\<close>.
\<close>

record due_refund =
  dr_id :: int
  dr_payment :: int
  dr_amount :: money
  dr_attempts :: int
  dr_charge :: string

section \<open>Settings\<close>

record refund_settings =
  fw_interval :: time
  fw_lease :: time
  fw_retry_base :: time
  fw_retry_cap :: time
  fw_max_attempts :: int
  fw_batch :: nat

definition with_refund_retry :: "time \<Rightarrow> time \<Rightarrow> int \<Rightarrow> refund_settings \<Rightarrow> refund_settings" where
  "with_refund_retry base cap n w = w\<lparr>fw_retry_base := base, fw_retry_cap := cap, fw_max_attempts := n\<rparr>"

definition new_refund_worker :: "(refund_settings \<Rightarrow> refund_settings) list \<Rightarrow> refund_settings" where
  "new_refund_worker opts = fold (\<lambda>opt w. opt w) opts
     \<lparr>fw_interval = seconds 1, fw_lease = seconds 30, fw_retry_base = seconds 2, fw_retry_cap = minutes 1,
      fw_max_attempts = 8, fw_batch = 10\<rparr>"

definition refund_pause :: "refund_settings \<Rightarrow> nat \<Rightarrow> time" where
  "refund_pause cfg attempts =
     sint (shift_backoff (word_of_int (fw_retry_base cfg)) (word_of_int (fw_retry_cap cfg)) attempts)"

text \<open>By default the pauses are those of the schedule in \<open>Backoff\<close>.\<close>

lemma refund_pause_new: "refund_pause (new_refund_worker []) = refund_backoff"
  by (rule ext) (simp add: refund_pause_def refund_backoff_def new_refund_worker_def)

definition refund_key :: "int \<Rightarrow> string" where
  "refund_key i = ''refund-'' @ show_int i"

lemma refund_key_inj [simp]: "refund_key i = refund_key j \<longleftrightarrow> i = j"
  by (simp add: refund_key_def)

section \<open>Statements\<close>

definition due_ids :: "refund_settings \<Rightarrow> int set \<Rightarrow> database \<Rightarrow> int list" where
  "due_ids cfg locked d = map rf_id (take (fw_batch cfg) (sort_key rf_id
     (filter (\<lambda>r. rf_status r = RefundPending \<and> rf_next r \<le> now d \<and> rf_id r \<notin> locked) (refunds d))))"

definition payment_of :: "refund \<Rightarrow> database \<Rightarrow> payment option" where
  "payment_of r d = List.find (\<lambda>p. pay_id p = rf_payment r) (payments d)"

definition lease_refund :: "refund_settings \<Rightarrow> time \<Rightarrow> refund \<Rightarrow> refund" where
  "lease_refund cfg t r = r\<lparr>rf_attempts := rf_attempts r + 1, rf_next := t + fw_lease cfg\<rparr>"

definition due_of :: "refund \<Rightarrow> payment \<Rightarrow> due_refund" where
  "due_of r p = \<lparr>dr_id = rf_id r, dr_payment = rf_payment r, dr_amount = rf_amount r,
     dr_attempts = rf_attempts r,
     dr_charge = (case pay_provider p of None \<Rightarrow> [] | Some c \<Rightarrow> c)\<rparr>"

definition leased :: "refund_settings \<Rightarrow> int set \<Rightarrow> database \<Rightarrow> refund \<Rightarrow> bool" where
  "leased cfg locked d r \<longleftrightarrow> rf_id r \<in> set (due_ids cfg locked d) \<and> payment_of r d \<noteq> None"

definition lease_refunds :: "refund_settings \<Rightarrow> int set \<Rightarrow> due_refund list sql" where
  "lease_refunds cfg locked n d =
     Inr (map (\<lambda>r. due_of (lease_refund cfg (now d) r) (the (payment_of r d)))
            (filter (leased cfg locked d) (refunds d)),
       d\<lparr>refunds := update_where (leased cfg locked d) (lease_refund cfg (now d)) (refunds d)\<rparr>)"

definition settle_refund :: "string \<Rightarrow> refund \<Rightarrow> refund" where
  "settle_refund provider_id r =
     r\<lparr>rf_status := RefundSucceeded, rf_provider := Some provider_id, rf_error := None\<rparr>"

abbreviation refund_open :: "int \<Rightarrow> refund \<Rightarrow> bool" where
  "refund_open i r \<equiv> rf_id r = i \<and> rf_status r = RefundPending"

definition update_refund_succeeded :: "int \<Rightarrow> string \<Rightarrow> unit sql" where
  "update_refund_succeeded i provider_id n d = Inr ((), d\<lparr>refunds :=
     update_where (refund_open i) (settle_refund provider_id) (refunds d)\<rparr>)"

definition set_payment_refunded :: "int \<Rightarrow> unit sql" where
  "set_payment_refunded pid n d = Inr ((), d\<lparr>payments :=
     update_where (\<lambda>p. pay_id p = pid) (\<lambda>p. p\<lparr>pay_status := PaymentRefunded\<rparr>) (payments d)\<rparr>)"

definition update_refund_manual :: "int \<Rightarrow> string \<Rightarrow> unit sql" where
  "update_refund_manual i err n d = Inr ((), d\<lparr>refunds :=
     update_where (refund_open i)
       (\<lambda>r. r\<lparr>rf_status := RefundManualReview, rf_error := Some err\<rparr>) (refunds d)\<rparr>)"

definition update_refund_later :: "int \<Rightarrow> time \<Rightarrow> string \<Rightarrow> unit sql" where
  "update_refund_later i backoff err n d = Inr ((), d\<lparr>refunds :=
     update_where (refund_open i)
       (\<lambda>r. r\<lparr>rf_next := now d + backoff, rf_error := Some err\<rparr>) (refunds d)\<rparr>)"

section \<open>The worker\<close>

definition mark_succeeded :: "due_refund \<Rightarrow> string \<Rightarrow> unit act" where
  "mark_succeeded r provider_id =
     attempt begin_tx fail (\<lambda>_. defer_rollback (
     attempt (stmt (update_refund_succeeded (dr_id r) provider_id)) fail (\<lambda>_.
     attempt (stmt (select_payment_status (dr_payment r))) fail (\<lambda>(from, oid).
     if \<not> can_transition_payment from PaymentRefunded
     then fail (errorf_w [] (Sentinel ErrPaymentTransition)
            ('': '' @ payment_status_text from @ '' -> refunded''))
     else
     attempt (stmt (set_payment_refunded (dr_payment r))) fail (\<lambda>_.
     attempt (stmt (add_payment_event (dr_payment r) (Some from) PaymentRefunded
         (''refund '' @ provider_id))) fail (\<lambda>_.
     commit_tx))))))"

definition mark_failed :: "refund_settings \<Rightarrow> due_refund \<Rightarrow> gerr \<Rightarrow> unit act" where
  "mark_failed cfg r perr =
     (if fw_max_attempts cfg \<le> dr_attempts r
      then stmt (update_refund_manual (dr_id r) (error_text perr))
      else stmt (update_refund_later (dr_id r) (refund_pause cfg (nat (dr_attempts r))) (error_text perr)))"

primrec refund_each ::
  "refund_settings \<Rightarrow> (string \<Rightarrow> string \<Rightarrow> money \<Rightarrow> string act) \<Rightarrow> due_refund list \<Rightarrow> unit act" where
  "refund_each cfg refund_fn [] = ret ()"
| "refund_each cfg refund_fn (r # rs) =
     attempt
       (attempt (refund_fn (refund_key (dr_id r)) (dr_charge r) (dr_amount r))
         (mark_failed cfg r) (mark_succeeded r))
       (\<lambda>_. refund_each cfg refund_fn rs) (\<lambda>_. refund_each cfg refund_fn rs)"

definition process_due ::
  "refund_settings \<Rightarrow> (string \<Rightarrow> string \<Rightarrow> money \<Rightarrow> string act) \<Rightarrow> int set \<Rightarrow> unit act" where
  "process_due cfg refund_fn locked =
     attempt (stmt (lease_refunds cfg locked)) fail (refund_each cfg refund_fn)"

section \<open>What the transaction does\<close>

lemma settle_refund_sel [simp]:
  "rf_id (settle_refund c r) = rf_id r" "rf_payment (settle_refund c r) = rf_payment r"
  "rf_amount (settle_refund c r) = rf_amount r" "rf_status (settle_refund c r) = RefundSucceeded"
  by (simp_all add: settle_refund_def)

lemma lease_refund_sel [simp]:
  "rf_id (lease_refund cfg t r) = rf_id r" "rf_payment (lease_refund cfg t r) = rf_payment r"
  "rf_amount (lease_refund cfg t r) = rf_amount r" "rf_status (lease_refund cfg t r) = rf_status r"
  by (simp_all add: lease_refund_def)

lemma refund_statements_sql [sql_simps]:
  "update_refund_succeeded i c n d = Inr (a, d') \<longleftrightarrow> d' = d\<lparr>refunds :=
     update_where (refund_open i) (settle_refund c) (refunds d)\<rparr>"
  "update_refund_succeeded i c n d \<noteq> Inl e"
  "set_payment_refunded pid n d = Inr (a, d') \<longleftrightarrow> d' = d\<lparr>payments :=
     update_where (\<lambda>p. pay_id p = pid) (\<lambda>p. p\<lparr>pay_status := PaymentRefunded\<rparr>) (payments d)\<rparr>"
  "set_payment_refunded pid n d \<noteq> Inl e"
  by (auto simp: update_refund_succeeded_def set_payment_refunded_def)

definition refunded_db :: "due_refund \<Rightarrow> string \<Rightarrow> payment_status \<Rightarrow> database \<Rightarrow> database" where
  "refunded_db r provider_id from d = d\<lparr>
     refunds := update_where (refund_open (dr_id r)) (settle_refund provider_id) (refunds d),
     payments := update_where (\<lambda>p. pay_id p = dr_payment r) (\<lambda>p. p\<lparr>pay_status := PaymentRefunded\<rparr>) (payments d),
     payment_events := payment_events d @
       [\<lparr>pe_payment = dr_payment r, pe_from = Some from, pe_to = PaymentRefunded,
         pe_reason = ''refund '' @ provider_id\<rparr>]\<rparr>"

definition refunded_eff :: "due_refund \<Rightarrow> string \<Rightarrow> database \<Rightarrow> unit \<Rightarrow> database \<Rightarrow> bool" where
  "refunded_eff r provider_id d u d' \<longleftrightarrow>
     (\<exists>p. List.find (\<lambda>p. pay_id p = dr_payment r) (payments d) = Some p \<and>
        pay_status p = PaymentSucceeded \<and> d' = refunded_db r provider_id (pay_status p) d)"

definition refunded_err :: "due_refund \<Rightarrow> database \<Rightarrow> gerr \<Rightarrow> bool" where
  "refunded_err r d e \<longleftrightarrow>
     (case List.find (\<lambda>p. pay_id p = dr_payment r) (payments d) of
        None \<Rightarrow> e = NoRows
      | Some p \<Rightarrow> pay_status p \<noteq> PaymentSucceeded \<and>
          e = errorf_w [] (Sentinel ErrPaymentTransition)
            ('': '' @ payment_status_text (pay_status p) @ '' -> refunded''))"

lemma performs_mark_succeeded:
  "performs (mark_succeeded r provider_id) (refunded_eff r provider_id) (refunded_err r)"
  unfolding mark_succeeded_def
  by (rule performs_tx,
      auto simp: wp_simps sql_simps bex_update_where elim!: wp_stmt_tx wp_commit_ok_unit,
      auto simp: refunded_eff_def refunded_db_def refunded_err_def can_transition_payment_iff
        dest: find_Some_in)

end
