(* ===== verification/Reconcile.thy ===== *)
theory Reconcile
  imports Payments Provider Rely Backoff
begin

text \<open>
  \<open>internal/worker/reconcile_worker.go\<close>: the worker that settles payments stuck in \<open>pending\<close> by asking
  the provider what became of the charge.

  \<open>process_stuck\<close> is \<open>ProcessDue\<close>; \<open>reconcile\<close>, \<open>resolve\<close>, \<open>retry_or_manual\<close>, \<open>schedule\<close> and \<open>manual\<close> are
  the methods of the same names. The provider's \<open>ChargeStatus\<close> and the repository's \<open>Transition\<close>, the
  interfaces \<open>ChargeChecker\<close> and \<open>PaymentTransitioner\<close>, are arguments, and so are the worker's settings \<open>cfg\<close>
  (\<open>NewReconcileWorker\<close> with its option \<open>WithReconcileTiming\<close>); ages are whole nanoseconds. The count of stuck payments is
  asked for as the code does; the gauge that shows it is left out. \<open>age_text\<close> stands
  for \<open>p.age.Round(time.Second)\<close> as text, which only goes into the reason.
\<close>

record stuck_payment =
  st_id :: int
  st_key :: string
  st_attempts :: int
  st_age :: time

section \<open>Settings\<close>

record reconcile_settings =
  rw_interval :: time
  rw_lease :: time
  rw_stuck_after :: time
  rw_expire_after :: time
  rw_retry_base :: time
  rw_retry_cap :: time
  rw_max_attempts :: int
  rw_batch :: nat

definition with_reconcile_timing ::
  "time \<Rightarrow> time \<Rightarrow> time \<Rightarrow> time \<Rightarrow> int \<Rightarrow> reconcile_settings \<Rightarrow> reconcile_settings" where
  "with_reconcile_timing stuck expire base cap n w =
     w\<lparr>rw_stuck_after := stuck, rw_expire_after := expire, rw_retry_base := base, rw_retry_cap := cap, rw_max_attempts := n\<rparr>"

definition new_reconcile_worker :: "(reconcile_settings \<Rightarrow> reconcile_settings) list \<Rightarrow> reconcile_settings" where
  "new_reconcile_worker opts = fold (\<lambda>opt w. opt w) opts
     \<lparr>rw_interval = seconds 5, rw_lease = seconds 30, rw_stuck_after = minutes 2, rw_expire_after = minutes 15,
      rw_retry_base = seconds 10, rw_retry_cap = minutes 5, rw_max_attempts = 10, rw_batch = 20\<rparr>"

definition worker_backoff :: "reconcile_settings \<Rightarrow> nat \<Rightarrow> time" where
  "worker_backoff cfg attempts =
     sint (shift_backoff (word_of_int (rw_retry_base cfg)) (word_of_int (rw_retry_cap cfg)) attempts)"

section \<open>Statements\<close>

definition count_stuck :: "reconcile_settings \<Rightarrow> int sql" where
  "count_stuck cfg = query (\<lambda>d. Inr (int (length (filter
     (\<lambda>p. pay_status p = PaymentPending \<and> pay_created p < now d - rw_stuck_after cfg) (payments d)))))"

definition stuck_ids :: "reconcile_settings \<Rightarrow> int set \<Rightarrow> database \<Rightarrow> int list" where
  "stuck_ids cfg locked d = map pay_id (take (rw_batch cfg) (sort_key pay_id
     (filter (\<lambda>p. pay_status p = PaymentPending \<and> pay_manual p = None \<and>
          pay_created p < now d - rw_stuck_after cfg \<and> pay_next p \<le> now d \<and> pay_id p \<notin> locked) (payments d))))"

definition lease_payment :: "reconcile_settings \<Rightarrow> time \<Rightarrow> payment \<Rightarrow> payment" where
  "lease_payment cfg t p = p\<lparr>pay_attempts := pay_attempts p + 1, pay_next := t + rw_lease cfg\<rparr>"

definition stuck_of :: "time \<Rightarrow> payment \<Rightarrow> stuck_payment" where
  "stuck_of t p = \<lparr>st_id = pay_id p, st_key = (case pay_key p of None \<Rightarrow> [] | Some k \<Rightarrow> k),
     st_attempts = pay_attempts p, st_age = t - pay_created p\<rparr>"

definition lease_stuck :: "reconcile_settings \<Rightarrow> int set \<Rightarrow> stuck_payment list sql" where
  "lease_stuck cfg locked n d =
     (let hit = (\<lambda>p. pay_id p \<in> set (stuck_ids cfg locked d)) in
      Inr (map (\<lambda>p. stuck_of (now d) (lease_payment cfg (now d) p)) (filter hit (payments d)),
        d\<lparr>payments := update_where hit (lease_payment cfg (now d)) (payments d)\<rparr>))"

abbreviation payment_open :: "int \<Rightarrow> payment \<Rightarrow> bool" where
  "payment_open i p \<equiv> pay_id p = i \<and> pay_status p = PaymentPending"

definition update_next_reconcile :: "int \<Rightarrow> time \<Rightarrow> unit sql" where
  "update_next_reconcile i t n d = Inr ((), d\<lparr>payments :=
     update_where (payment_open i) (\<lambda>p. p\<lparr>pay_next := now d + t\<rparr>) (payments d)\<rparr>)"

definition update_manual_reason :: "int \<Rightarrow> string \<Rightarrow> unit sql" where
  "update_manual_reason i reason n d = Inr ((), d\<lparr>payments :=
     update_where (payment_open i) (\<lambda>p. p\<lparr>pay_manual := Some reason\<rparr>) (payments d)\<rparr>)"

section \<open>The worker\<close>

definition schedule :: "stuck_payment \<Rightarrow> time \<Rightarrow> unit act" where
  "schedule p after = attempt (stmt (update_next_reconcile (st_id p) after)) (\<lambda>_. ret ()) ret"

definition manual :: "stuck_payment \<Rightarrow> string \<Rightarrow> unit act" where
  "manual p reason = attempt (stmt (update_manual_reason (st_id p) reason)) (\<lambda>_. ret ()) ret"

definition retry_or_manual :: "reconcile_settings \<Rightarrow> stuck_payment \<Rightarrow> string \<Rightarrow> unit act" where
  "retry_or_manual cfg p reason =
     (if rw_max_attempts cfg \<le> st_attempts p
      then manual p (''gave up after '' @ show_int (st_attempts p) @ '' attempts: '' @ reason)
      else schedule p (worker_backoff cfg (nat (st_attempts p))))"

definition resolve ::
  "reconcile_settings \<Rightarrow> (int \<Rightarrow> payment_status \<Rightarrow> string \<Rightarrow> string \<Rightarrow> unit act) \<Rightarrow>
   stuck_payment \<Rightarrow> payment_status \<Rightarrow> string \<Rightarrow> string \<Rightarrow> unit act" where
  "resolve cfg transition_fn p to provider_id reason =
     attempt (transition_fn (st_id p) to provider_id reason)
       (\<lambda>err. if errors_is err (Sentinel ErrPaymentTransition) then ret ()
          else retry_or_manual cfg p (''record result: '' @ error_text err))
       ret"

definition reconcile ::
  "reconcile_settings \<Rightarrow> (string \<Rightarrow> (charge_lookup \<times> string) act) \<Rightarrow>
   (int \<Rightarrow> payment_status \<Rightarrow> string \<Rightarrow> string \<Rightarrow> unit act) \<Rightarrow>
   (time \<Rightarrow> string) \<Rightarrow> stuck_payment \<Rightarrow> unit act" where
  "reconcile cfg status_fn transition_fn age_text p =
     (if st_key p = [] then manual p ''no idempotency key: cannot ask provider about this payment''
      else
      attempt (status_fn (st_key p))
        (\<lambda>err. retry_or_manual cfg p (''provider status check failed: '' @ error_text err))
        (\<lambda>(status, charge_id).
          if status = ChargeSucceeded then
            resolve cfg transition_fn p PaymentSucceeded charge_id ''reconciled: charged at provider''
          else if status = ChargeDeclined then
            resolve cfg transition_fn p PaymentFailed [] ''reconciled: declined at provider''
          else if status = ChargeNotFound \<and> rw_expire_after cfg \<le> st_age p then
            resolve cfg transition_fn p PaymentExpired []
              (''reconciled: provider has no charge after '' @ age_text (st_age p))
          else schedule p (worker_backoff cfg (nat (st_attempts p)))))"

primrec reconcile_each ::
  "reconcile_settings \<Rightarrow> (string \<Rightarrow> (charge_lookup \<times> string) act) \<Rightarrow>
   (int \<Rightarrow> payment_status \<Rightarrow> string \<Rightarrow> string \<Rightarrow> unit act) \<Rightarrow>
   (time \<Rightarrow> string) \<Rightarrow> stuck_payment list \<Rightarrow> unit act" where
  "reconcile_each cfg status_fn transition_fn age_text [] = ret ()"
| "reconcile_each cfg status_fn transition_fn age_text (p # ps) =
     attempt (reconcile cfg status_fn transition_fn age_text p) fail (\<lambda>_.
     reconcile_each cfg status_fn transition_fn age_text ps)"

definition process_stuck ::
  "reconcile_settings \<Rightarrow> (string \<Rightarrow> (charge_lookup \<times> string) act) \<Rightarrow>
   (int \<Rightarrow> payment_status \<Rightarrow> string \<Rightarrow> string \<Rightarrow> unit act) \<Rightarrow>
   (time \<Rightarrow> string) \<Rightarrow> int set \<Rightarrow> unit act" where
  "process_stuck cfg status_fn transition_fn age_text locked =
     attempt (attempt (stmt (count_stuck cfg)) (\<lambda>_. ret ()) (\<lambda>_. ret ())) fail (\<lambda>_.
     attempt (stmt (lease_stuck cfg locked)) fail (\<lambda>batch.
     reconcile_each cfg status_fn transition_fn age_text batch))"

text \<open>The pauses are those of the schedule in \<open>Backoff\<close>.\<close>

lemma worker_backoff_new: "worker_backoff (new_reconcile_worker []) = reconcile_backoff"
  by (rule ext) (simp add: worker_backoff_def reconcile_backoff_def new_reconcile_worker_def)

section \<open>What the statements do\<close>

text \<open>The columns of a payment that the worker does not write itself.\<close>

definition pay_core :: "payment \<Rightarrow> int \<times> int \<times> money \<times> payment_status \<times> string option \<times> string option" where
  "pay_core p = (pay_id p, pay_order p, pay_amount p, pay_status p, pay_provider p, pay_key p)"

definition books_only :: "database \<Rightarrow> database \<Rightarrow> bool" where
  "books_only d d' \<longleftrightarrow>
     (\<exists>f. (\<forall>p. pay_core (f p) = pay_core p \<and> pay_created (f p) = pay_created p) \<and>
        d' = d\<lparr>payments := map f (payments d)\<rparr>)"

lemma books_only_update:
  "(\<And>p. pay_core (f p) = pay_core p \<and> pay_created (f p) = pay_created p) \<Longrightarrow>
   books_only d (d\<lparr>payments := update_where P f (payments d)\<rparr>)"
  unfolding books_only_def update_where_def by (rule exI [of _ "\<lambda>p. if P p then f p else p"]) auto

lemma performs_books:
  "performs (stmt (update_next_reconcile i t)) (\<lambda>d a d'. books_only d d') (\<lambda>d e. False)"
  "performs (stmt (update_manual_reason i reason)) (\<lambda>d a d'. books_only d d') (\<lambda>d e. False)"
  by (rule performs_weaken [OF performs_stmt];
      auto simp: update_next_reconcile_def update_manual_reason_def pay_core_def intro!: books_only_update)+

lemma performs_lease_stuck:
  "performs (stmt (lease_stuck cfg locked))
     (\<lambda>d batch d'. books_only d d' \<and>
        (\<forall>st\<in>set batch. \<exists>p\<in>set (payments d). pay_id p = st_id st \<and>
           pay_key p = (if st_key st = [] then pay_key p else Some (st_key st)))) (\<lambda>d e. False)"
  by (rule performs_weaken [OF performs_stmt])
    (auto simp: lease_stuck_def Let_def pay_core_def stuck_of_def lease_payment_def
      intro!: books_only_update split: option.splits)

end
