(* ===== verification/Recon.thy ===== *)
theory Recon
  imports Payments Provider Rely
begin

text \<open>
  \<open>internal/reconciliation\<close>: the audit of the payments against the provider's list of charges, and
  \<open>repository/job_lease.go\<close>, by which one replica wins the right to run it.

  \<open>classify\<close> is \<open>Classify\<close>; \<open>audit_fix\<close>, \<open>audit_record\<close> and \<open>audit\<close> are \<open>Job.fix\<close>, \<open>Job.record\<close> and \<open>Job.Run\<close>.
  The interfaces \<open>ChargeLister\<close> and \<open>PaymentTransitioner\<close> are arguments. So are \<open>amount_text\<close>, the text of a
  decimal of the library \<open>shopspring/decimal\<close>, and \<open>shuffle\<close>, the order in which Go's map gives its keys.
  \<open>audit_tick\<close> is what one tick of \<open>RunScheduledOnce\<close> does; \<open>try_claim\<close> is \<open>TryClaim\<close>; the loops are in \<open>Workers\<close>. The metrics are left out.
\<close>

section \<open>Classification\<close>

datatype kind = Matched | MissingAtProvider | MissingAtOurs | AmountMismatch | StatusMismatch

datatype action = NoAction | FixPaymentSucceeded | FixPaymentFailed | FixRefundSucceeded | Manual

primrec kind_text :: "kind \<Rightarrow> string" where
  "kind_text Matched = ''matched''"
| "kind_text MissingAtProvider = ''missing_at_provider''"
| "kind_text MissingAtOurs = ''missing_at_ours''"
| "kind_text AmountMismatch = ''amount_mismatch''"
| "kind_text StatusMismatch = ''status_mismatch''"

primrec action_text :: "action \<Rightarrow> string" where
  "action_text NoAction = []"
| "action_text FixPaymentSucceeded = ''payment_succeeded''"
| "action_text FixPaymentFailed = ''payment_failed''"
| "action_text FixRefundSucceeded = ''refund_succeeded''"
| "action_text Manual = ''manual''"

record ours =
  os_payment :: int
  os_order :: int
  os_key :: string
  os_amount :: money
  os_status :: payment_status
  os_charge :: string
  os_refund :: int
  os_refund_status :: string

record theirs =
  th_key :: string
  th_charge :: string
  th_amount :: money
  th_status :: string

record finding =
  fd_kind :: kind
  fd_action :: action
  fd_note :: string

definition quoted :: "string \<Rightarrow> string" where
  "quoted s = ''\"'' @ s @ ''\"''"

definition matched_pair :: "ours \<Rightarrow> theirs \<Rightarrow> bool" where
  "matched_pair ours theirs \<longleftrightarrow>
     os_status ours = PaymentSucceeded \<and> th_status theirs = ''charged'' \<or>
     os_status ours = PaymentFailed \<and> th_status theirs = ''declined'' \<or>
     os_status ours = PaymentExpired \<and> th_status theirs = ''declined'' \<or>
     os_status ours = PaymentRefunded \<and> th_status theirs = ''refunded'' \<and> os_refund_status ours = ''succeeded''"

definition classify :: "(money \<Rightarrow> string) \<Rightarrow> ours option \<Rightarrow> theirs option \<Rightarrow> finding" where
  "classify amount_text ours theirs =
     (case (ours, theirs) of
        (None, None) \<Rightarrow> \<lparr>fd_kind = Matched, fd_action = NoAction, fd_note = []\<rparr>
      | (None, Some th) \<Rightarrow>
          if th_status th = ''declined''
          then \<lparr>fd_kind = Matched, fd_action = NoAction, fd_note = ''declined at provider, no money moved''\<rparr>
          else \<lparr>fd_kind = MissingAtOurs, fd_action = Manual,
            fd_note = ''provider holds money we have no payment for: find the order, then refund or attach''\<rparr>
      | (Some os, None) \<Rightarrow>
          if os_status os = PaymentFailed \<or> os_status os = PaymentExpired \<or> os_status os = PaymentPending
          then \<lparr>fd_kind = Matched, fd_action = NoAction, fd_note = []\<rparr>
          else \<lparr>fd_kind = MissingAtProvider, fd_action = Manual,
            fd_note = ''we consider payment '' @ payment_status_text (os_status os) @
              '', provider has no charge: order may be shipped unpaid''\<rparr>
      | (Some os, Some th) \<Rightarrow>
          let money_moved = (th_status th = ''charged'' \<or> th_status th = ''refunded'')
          in if money_moved \<and> os_amount os \<noteq> th_amount th
          then \<lparr>fd_kind = AmountMismatch, fd_action = Manual,
            fd_note = ''we expect '' @ amount_text (os_amount os) @ '', provider charged '' @
              amount_text (th_amount th)\<rparr>
          else if matched_pair os th
          then \<lparr>fd_kind = Matched, fd_action = NoAction, fd_note = []\<rparr>
          else if os_status os = PaymentPending \<and> th_status th = ''charged''
          then \<lparr>fd_kind = StatusMismatch, fd_action = FixPaymentSucceeded,
            fd_note = ''pending here, charged at provider''\<rparr>
          else if os_status os = PaymentPending \<and> th_status th = ''declined''
          then \<lparr>fd_kind = StatusMismatch, fd_action = FixPaymentFailed,
            fd_note = ''pending here, declined at provider''\<rparr>
          else if th_status th = ''refunded'' \<and> os_refund os \<noteq> 0 \<and>
            (os_refund_status os = ''pending'' \<or> os_refund_status os = ''manual_review'') \<and>
            (os_status os = PaymentSucceeded \<or> os_status os = PaymentRefunded)
          then \<lparr>fd_kind = StatusMismatch, fd_action = FixRefundSucceeded,
            fd_note = ''refund done at provider, still pending here''\<rparr>
          else \<lparr>fd_kind = StatusMismatch, fd_action = Manual,
            fd_note = ''ours '' @ payment_status_text (os_status os) @ '' (refund '' @
              quoted (os_refund_status os) @ ''), provider '' @ th_status th\<rparr>)"

section \<open>Statements\<close>

primrec refund_status_text :: "refund_status \<Rightarrow> string" where
  "refund_status_text RefundPending = ''pending''"
| "refund_status_text RefundSucceeded = ''succeeded''"
| "refund_status_text RefundManualReview = ''manual_review''"

definition ours_of :: "database \<Rightarrow> payment \<Rightarrow> ours" where
  "ours_of d p =
     (let r = List.find (\<lambda>r. rf_payment r = pay_id p) (refunds d) in
      \<lparr>os_payment = pay_id p, os_order = pay_order p,
        os_key = (case pay_key p of None \<Rightarrow> [] | Some k \<Rightarrow> k), os_amount = pay_amount p,
        os_status = pay_status p, os_charge = (case pay_provider p of None \<Rightarrow> [] | Some c \<Rightarrow> c),
        os_refund = (case r of None \<Rightarrow> 0 | Some r \<Rightarrow> rf_id r),
        os_refund_status = (case r of None \<Rightarrow> [] | Some r \<Rightarrow> refund_status_text (rf_status r))\<rparr>)"

definition select_ours :: "time \<Rightarrow> time \<Rightarrow> string list \<Rightarrow> ours list sql" where
  "select_ours from to keys = query (\<lambda>d. Inr (map (ours_of d) (filter
     (\<lambda>p. case pay_key p of None \<Rightarrow> False
        | Some k \<Rightarrow> from \<le> pay_created p \<and> pay_created p < to \<or> k \<in> set keys) (payments d))))"

definition insert_run :: "time \<Rightarrow> time \<Rightarrow> int sql" where
  "insert_run from to n d =
     (if exists_where (\<lambda>r. rr_id r = serial n) (recon_runs d)
      then Inl (unique_violation ''reconciliation_runs_pkey'')
      else Inr (serial n, d\<lparr>recon_runs := recon_runs d @ [\<lparr>rr_id = serial n, rr_from = from, rr_to = to,
        rr_started = now d, rr_finished = None, rr_checked = 0, rr_matched = 0, rr_fixed = 0,
        rr_manual = 0\<rparr>]\<rparr>))"

definition insert_recon_item :: "recon_item \<Rightarrow> unit sql" where
  "insert_recon_item i n d =
     (if \<not> (case ri_our_amount i of None \<Rightarrow> True | Some m \<Rightarrow> numeric_fits 12 m) \<or>
         \<not> (case ri_provider_amount i of None \<Rightarrow> True | Some m \<Rightarrow> numeric_fits 12 m)
      then Inl numeric_overflow
      else if ri_action i \<noteq> ''auto_fixed'' \<and> ri_action i \<noteq> ''manual''
      then Inl (check_violation ''reconciliation_items_action_check'')
      else if \<not> exists_where (\<lambda>r. rr_id r = ri_run i) (recon_runs d)
      then Inl (foreign_key_violation ''reconciliation_items_run_id_fkey'')
      else Inr ((), d\<lparr>recon_items := recon_items d @ [i]\<rparr>))"

record report =
  rp_run :: int
  rp_checked :: int
  rp_matched :: int
  rp_fixed :: int
  rp_manual :: int
  rp_by_kind :: "kind \<Rightarrow> int"

definition finish_run :: "report \<Rightarrow> unit sql" where
  "finish_run rep n d = Inr ((), d\<lparr>recon_runs := update_where (\<lambda>r. rr_id r = rp_run rep)
     (\<lambda>r. r\<lparr>rr_finished := Some (now d), rr_checked := rp_checked rep, rr_matched := rp_matched rep,
        rr_fixed := rp_fixed rep, rr_manual := rp_manual rep\<rparr>) (recon_runs d)\<rparr>)"

definition confirm_row :: "refund \<Rightarrow> refund" where
  "confirm_row r = r\<lparr>rf_status := RefundSucceeded, rf_error := Some ''confirmed by reconciliation''\<rparr>"

definition confirm_refund :: "int \<Rightarrow> unit sql" where
  "confirm_refund i n d = Inr ((), d\<lparr>refunds := update_where
     (\<lambda>r. rf_id r = i \<and> (rf_status r = RefundPending \<or> rf_status r = RefundManualReview))
     confirm_row (refunds d)\<rparr>)"

section \<open>The job\<close>

definition margin :: time where "margin = hours 1"

definition theirs_of :: "provider_charge \<Rightarrow> theirs" where
  "theirs_of c = \<lparr>th_key = pc_key c, th_charge = pc_charge c, th_amount = pc_amount c,
     th_status = pc_status c\<rparr>"

definition theirs_by_key :: "provider_charge list \<Rightarrow> string \<Rightarrow> theirs option" where
  "theirs_by_key cs =
     foldl (\<lambda>m c. if pc_key c = [] then m else m(pc_key c \<mapsto> theirs_of c)) Map.empty cs"

definition provider_keys :: "time \<Rightarrow> time \<Rightarrow> provider_charge list \<Rightarrow> string list" where
  "provider_keys from to cs = map pc_key (filter
     (\<lambda>c. pc_key c \<noteq> [] \<and> \<not> pc_created c < from \<and> pc_created c < to) cs)"

definition ours_by_key :: "ours list \<Rightarrow> string \<Rightarrow> ours option" where
  "ours_by_key os = foldl (\<lambda>m x. m(os_key x \<mapsto> x)) Map.empty os"

definition nil_dereference :: gerr where
  "nil_dereference = NewError ''invalid memory address or nil pointer dereference''"

definition audit_fix ::
  "(int \<Rightarrow> payment_status \<Rightarrow> string \<Rightarrow> string \<Rightarrow> unit act) \<Rightarrow>
   action \<Rightarrow> ours option \<Rightarrow> theirs option \<Rightarrow> unit act" where
  "audit_fix transition_fn a ours theirs =
     (case (ours, theirs) of
        (Some os, Some th) \<Rightarrow>
          let reason = ''reconciliation: provider says '' @ th_status th in
          (case a of
             FixPaymentSucceeded \<Rightarrow> transition_fn (os_payment os) PaymentSucceeded (th_charge th) reason
           | FixPaymentFailed \<Rightarrow> transition_fn (os_payment os) PaymentFailed [] reason
           | FixRefundSucceeded \<Rightarrow>
               attempt
                 (if os_status os = PaymentSucceeded
                  then transition_fn (os_payment os) PaymentRefunded [] reason
                  else ret ())
                 fail (\<lambda>_. stmt (confirm_refund (os_refund os)))
           | _ \<Rightarrow> fail (NewError (''unknown action '' @ quoted (action_text a))))
      | _ \<Rightarrow> fail nil_dereference)"

definition recon_item_of ::
  "int \<Rightarrow> string \<Rightarrow> finding \<Rightarrow> string \<Rightarrow> ours option \<Rightarrow> theirs option \<Rightarrow> recon_item" where
  "recon_item_of run key f act ours theirs =
     \<lparr>ri_run = run, ri_kind = kind_text (fd_kind f), ri_action = act, ri_key = key,
       ri_payment = map_option os_payment ours, ri_order = map_option os_order ours,
       ri_our_status = map_option (\<lambda>x. payment_status_text (os_status x)) ours,
       ri_our_amount = map_option os_amount ours,
       ri_provider_status = map_option th_status theirs, ri_provider_amount = map_option th_amount theirs,
       ri_provider_charge = map_option th_charge theirs, ri_note = fd_note f\<rparr>"

definition audit_record ::
  "int \<Rightarrow> string \<Rightarrow> finding \<Rightarrow> string \<Rightarrow> ours option \<Rightarrow> theirs option \<Rightarrow> unit act" where
  "audit_record run key f act ours theirs =
     stmt (insert_recon_item (recon_item_of run key f act ours theirs))"

primrec audit_keys ::
  "(int \<Rightarrow> payment_status \<Rightarrow> string \<Rightarrow> string \<Rightarrow> unit act) \<Rightarrow> (money \<Rightarrow> string) \<Rightarrow>
   (string \<Rightarrow> ours option) \<Rightarrow> (string \<Rightarrow> theirs option) \<Rightarrow> report \<Rightarrow> string list \<Rightarrow> report act" where
  "audit_keys transition_fn amount_text ours theirs rep [] = ret rep"
| "audit_keys transition_fn amount_text ours theirs rep (k # ks) =
     (let f = classify amount_text (ours k) (theirs k);
          rep = rep\<lparr>rp_checked := rp_checked rep + 1\<rparr>
      in if fd_kind f = Matched
         then audit_keys transition_fn amount_text ours theirs (rep\<lparr>rp_matched := rp_matched rep + 1\<rparr>) ks
         else
         attempt
           (if fd_action f \<noteq> Manual then
              attempt (audit_fix transition_fn (fd_action f) (ours k) (theirs k))
                (\<lambda>err. ret (''manual'', f\<lparr>fd_note := fd_note f @ ''; auto-fix failed: '' @ error_text err\<rparr>))
                (\<lambda>_. ret (''auto_fixed'', f))
            else ret (''manual'', f))
           fail (\<lambda>(act, f).
         let rep = (if act = ''manual''
             then rep\<lparr>rp_manual := rp_manual rep + 1,
               rp_by_kind := (rp_by_kind rep)(fd_kind f := rp_by_kind rep (fd_kind f) + 1)\<rparr>
             else rep\<lparr>rp_fixed := rp_fixed rep + 1\<rparr>)
         in attempt (audit_record (rp_run rep) k f act (ours k) (theirs k)) fail (\<lambda>_.
         audit_keys transition_fn amount_text ours theirs rep ks)))"

definition empty_report :: "int \<Rightarrow> report" where
  "empty_report run = \<lparr>rp_run = run, rp_checked = 0, rp_matched = 0, rp_fixed = 0, rp_manual = 0,
     rp_by_kind = (\<lambda>_. 0)\<rparr>"

definition audit ::
  "(time \<Rightarrow> time \<Rightarrow> provider_charge list act) \<Rightarrow>
   (int \<Rightarrow> payment_status \<Rightarrow> string \<Rightarrow> string \<Rightarrow> unit act) \<Rightarrow>
   (money \<Rightarrow> string) \<Rightarrow> (string list \<Rightarrow> string list) \<Rightarrow> time \<Rightarrow> time \<Rightarrow> report act" where
  "audit list_fn transition_fn amount_text shuffle from to =
     attempt (list_fn (from - margin) (to + margin))
       (\<lambda>err. fail (errorf_w ''provider list: '' err [])) (\<lambda>theirs.
     let keys = provider_keys from to theirs in
     attempt (stmt (select_ours from to keys)) fail (\<lambda>ours.
     attempt (stmt (insert_run from to)) fail (\<lambda>run.
     attempt (audit_keys transition_fn amount_text (ours_by_key ours) (theirs_by_key theirs)
         (empty_report run) (shuffle (remdups (map os_key ours @ keys)))) fail (\<lambda>rep.
     attempt (stmt (finish_run rep)) fail (\<lambda>_.
     ret rep)))))"

section \<open>One replica per period\<close>

definition update_lease :: "string \<Rightarrow> time \<Rightarrow> nat sql" where
  "update_lease name every n d =
     (let hit = (\<lambda>l. jl_name l = name \<and> jl_next l \<le> now d)
      in Inr (count_where hit (job_leases d),
           d\<lparr>job_leases := update_where hit (\<lambda>l. l\<lparr>jl_next := now d + every\<rparr>) (job_leases d)\<rparr>))"

definition try_claim :: "string \<Rightarrow> time \<Rightarrow> bool act" where
  "try_claim name every =
     attempt (stmt (update_lease name every))
       (\<lambda>err. fail (errorf_w (''claim job '' @ quoted name @ '': '') err [])) (\<lambda>affected.
     ret (affected = 1))"

definition audit_tick ::
  "(time \<Rightarrow> bool act) \<Rightarrow> (time \<Rightarrow> time \<Rightarrow> report act) \<Rightarrow> time \<Rightarrow> time \<Rightarrow> time \<Rightarrow> unit act" where
  "audit_tick claim run app_now every window =
     attempt (claim every) (\<lambda>_. ret ()) (\<lambda>ok.
     if \<not> ok then ret ()
     else attempt (run (app_now - window) app_now) (\<lambda>_. ret ()) (\<lambda>_. ret ()))"

section \<open>What a classification means\<close>

lemma classify_fix:
  assumes "fd_action (classify amount_text ours theirs) = a" and "a \<noteq> NoAction" and "a \<noteq> Manual"
  shows "\<exists>os th. ours = Some os \<and> theirs = Some th \<and>
    (th_status th = ''charged'' \<or> th_status th = ''refunded'' \<longrightarrow> os_amount os = th_amount th) \<and>
    (case a of
       FixPaymentSucceeded \<Rightarrow> os_status os = PaymentPending \<and> th_status th = ''charged'' \<and>
         can_transition_payment (os_status os) PaymentSucceeded
     | FixPaymentFailed \<Rightarrow> os_status os = PaymentPending \<and> th_status th = ''declined'' \<and>
         can_transition_payment (os_status os) PaymentFailed
     | FixRefundSucceeded \<Rightarrow> th_status th = ''refunded'' \<and> os_refund os \<noteq> 0 \<and>
         os_refund_status os \<in> {''pending'', ''manual_review''} \<and>
         (can_transition_payment (os_status os) PaymentRefunded \<or> os_status os = PaymentRefunded)
     | _ \<Rightarrow> False)"
  using assms
  by (auto simp: classify_def Let_def can_transition_payment_iff split: option.splits if_splits)

text \<open>
  The audit corrects only what the provider has decided already. When Classify proposes a correction, both records
  are there; a payment is marked succeeded or failed only if it is pending here and the provider has charged or
  declined it; a refund is marked done only if the provider has refunded the payment's charge and our refund is
  still open; the corresponding transition is one of the allowed ones, and whenever money moved the two
  amounts agree. Nothing else is corrected without a person.
\<close>

theorem classify_fixes_are_safe:
  assumes "fd_action (classify amount_text ours theirs) = a" and "a \<noteq> NoAction" and "a \<noteq> Manual"
  shows "\<exists>os th. ours = Some os \<and> theirs = Some th \<and>
    (th_status th = ''charged'' \<or> th_status th = ''refunded'' \<longrightarrow> os_amount os = th_amount th) \<and>
    (case a of
       FixPaymentSucceeded \<Rightarrow> os_status os = PaymentPending \<and> th_status th = ''charged'' \<and>
         can_transition_payment (os_status os) PaymentSucceeded
     | FixPaymentFailed \<Rightarrow> os_status os = PaymentPending \<and> th_status th = ''declined'' \<and>
         can_transition_payment (os_status os) PaymentFailed
     | FixRefundSucceeded \<Rightarrow> th_status th = ''refunded'' \<and> os_refund os \<noteq> 0 \<and>
         os_refund_status os \<in> {''pending'', ''manual_review''} \<and>
         (can_transition_payment (os_status os) PaymentRefunded \<or> os_status os = PaymentRefunded)
     | _ \<Rightarrow> False)"
  using assms by (rule classify_fix)

theorem classify_fixes_are_safe_witness:
  "let os = \<lparr>os_payment = 1, os_order = 2, os_key = ''k'', os_amount = 500, os_status = PaymentPending,
         os_charge = [], os_refund = 0, os_refund_status = []\<rparr>;
       th = \<lparr>th_key = ''k'', th_charge = ''ch_1'', th_amount = 500, th_status = ''charged''\<rparr>
   in fd_action (classify (\<lambda>_. []) (Some os) (Some th)) = FixPaymentSucceeded \<and> os_status os = PaymentPending"
proof -
  let ?os = "\<lparr>os_payment = 1, os_order = 2, os_key = ''k'', os_amount = 500, os_status = PaymentPending,
         os_charge = [], os_refund = 0, os_refund_status = []\<rparr>"
  let ?th = "\<lparr>th_key = ''k'', th_charge = ''ch_1'', th_amount = 500, th_status = ''charged''\<rparr>"
  have "fd_action (classify (\<lambda>_. []) (Some ?os) (Some ?th)) = FixPaymentSucceeded" by code_simp
  from classify_fixes_are_safe [OF this] this show ?thesis by simp
qed

lemma classify_kinds:
  "fd_kind (classify amount_text ours theirs) = Matched \<Longrightarrow> fd_action (classify amount_text ours theirs) = NoAction"
  "fd_kind (classify amount_text ours theirs) \<noteq> Matched \<Longrightarrow> fd_action (classify amount_text ours theirs) \<noteq> NoAction"
  by (auto simp: classify_def Let_def split: option.splits if_splits)

end
