(* ===== verification/Books.thy ===== *)
theory Books
  imports Ledger PayApi Refunds Reconcile Recon Machine
begin

text \<open>
  The steps of the whole service on its database, and what they keep true of orders, payments,
  refunds and the provider's journal.

  \<open>sys_step\<close> has one rule per atomic effect: the transactions of the request handlers and of the
  workers, the provider's own writes, the passing of time. A rule asks no more than what the code has
  established when it runs the effect (\<open>justified\<close>: a payment becomes succeeded only with a charge
  the provider has confirmed, and so on); the theory \<open>System\<close> shows that the code makes no other steps.
  \<open>books_inv\<close> is the conjunction of the invariants; \<open>books_machine\<close> is the interpretation of the
  locale \<open>invariant\<close> on the steps.
\<close>

section \<open>Steps\<close>

definition justified :: "int \<Rightarrow> payment_status \<Rightarrow> string \<Rightarrow> database \<Rightarrow> bool" where
  "justified pid to pr d \<longleftrightarrow>
     (\<exists>p\<in>set (payments d). pay_id p = pid \<and>
        (to = PaymentSucceeded \<and> (\<exists>c\<in>set (charges d). ch_status c = Charged \<and> ch_key c = pay_key p \<and>
             pr = charge_name (ch_id c)) \<or>
         to = PaymentFailed \<and> pr = [] \<and>
           (\<exists>c\<in>set (charges d). ch_status c = Declined \<and> ch_key c = pay_key p) \<or>
         to = PaymentExpired \<and> pr = [] \<or>
         to = PaymentRefunded \<and> pr = [] \<and> (\<exists>f\<in>set (refunds d). rf_payment f = pid) \<and>
           (\<exists>x\<in>set (provider_refunds d). pay_provider p = Some (pr_charge x))))"

definition has_charge :: "string \<Rightarrow> money \<Rightarrow> string \<Rightarrow> database \<Rightarrow> bool" where
  "has_charge key amount c d \<longleftrightarrow>
     (\<exists>ch\<in>set (charges d). ch_status ch = Charged \<and> ch_key ch = Some key \<and> ch_amount ch = amount \<and>
        c = charge_name (ch_id ch))"

definition has_decline :: "string \<Rightarrow> database \<Rightarrow> bool" where
  "has_decline key d \<longleftrightarrow> (\<exists>ch\<in>set (charges d). ch_status ch = Declined \<and> ch_key ch = Some key)"

text \<open>The payment with this key was received, under this charge (it may have gone back since).\<close>

definition received :: "string \<Rightarrow> string \<Rightarrow> database \<Rightarrow> bool" where
  "received key c d \<longleftrightarrow>
     (\<exists>p\<in>set (payments d). pay_key p = Some key \<and> pay_provider p = Some c \<and>
        (pay_status p = PaymentSucceeded \<or> pay_status p = PaymentRefunded) \<and> has_charge key (pay_amount p) c d)"

text \<open>A body that reports a payment, as \<open>pay_handler\<close> writes it, and tells the truth.\<close>

definition paid_answer :: "string \<Rightarrow> string \<Rightarrow> database \<Rightarrow> bool" where
  "paid_answer key body d \<longleftrightarrow>
     (\<exists>oid c. body = rs_body (write_json 200 (paid_json oid c)) \<and> received key c d)"

inductive sys_step :: "database \<Rightarrow> database \<Rightarrow> bool" where
  clock: "now d \<le> t \<Longrightarrow> sys_step d (d\<lparr>now := t\<rparr>)"
| switch: "sys_step d (d\<lparr>provider_down := x\<rparr>)"
| request_claimed: "claim_db key hash d = (c, d') \<Longrightarrow> sys_step d d'"
| request_released: "release_request key n d = Inr ((), d') \<Longrightarrow> sys_step d d'"
| request_answered: "(code = 200 \<Longrightarrow> paid_answer key body d) \<Longrightarrow>
    complete_request key code body n d = Inr ((), d') \<Longrightarrow> sys_step d d'"
| lease_taken: "0 \<le> every \<Longrightarrow> update_lease name every n d = Inr (a, d') \<Longrightarrow> sys_step d d'"
| reports: "sys_step d (d\<lparr>recon_runs := x, recon_items := y\<rparr>)"
| refund_confirmed: "\<exists>f\<in>set (refunds d). \<exists>p\<in>set (payments d). rf_id f = i \<and> pay_id p = rf_payment f \<and>
      pay_status p = PaymentRefunded \<Longrightarrow>
    confirm_refund i n d = Inr ((), d') \<Longrightarrow> sys_step d d'"
| placed: "good_items items \<Longrightarrow> placed_eff items key d r d' \<Longrightarrow> sys_step d d'"
| cancelled: "cancel_eff oid d r d' \<Longrightarrow> sys_step d d'"
| started: "key \<noteq> [] \<Longrightarrow> start_eff oid key d r d' \<Longrightarrow> sys_step d d'"
| settled: "justified pid to pr d \<Longrightarrow> transition_eff pid to pr reason d () d' \<Longrightarrow> sys_step d d'"
| charged: "key \<noteq> [] \<Longrightarrow> \<exists>p\<in>set (payments d). pay_key p = Some key \<and> pay_amount p = amount \<Longrightarrow>
    insert_charge oid amount status key n d = Inr (c, d') \<Longrightarrow> sys_step d d'"
| returned: "\<exists>f\<in>set (refunds d). \<exists>p\<in>set (payments d). rf_id f = rid \<and> rf_amount f = amount \<and>
      pay_id p = rf_payment f \<and> pay_provider p = Some cid \<Longrightarrow>
    insert_provider_refund (refund_key rid) cid amount n d = Inr (a, d') \<Longrightarrow> sys_step d d'"
| refund_leased: "lease_refunds cfg locked n d = Inr (rs, d') \<Longrightarrow> sys_step d d'"
| refund_later: "update_refund_later i t err n d = Inr ((), d') \<Longrightarrow> sys_step d d'"
| refund_manual: "update_refund_manual i err n d = Inr ((), d') \<Longrightarrow> sys_step d d'"
| refunded: "\<exists>f\<in>set (refunds d). rf_id f = dr_id r \<and> rf_payment f = dr_payment r \<Longrightarrow>
    \<exists>x\<in>set (provider_refunds d). pr_key x = refund_key (dr_id r) \<Longrightarrow>
    refunded_eff r c d () d' \<Longrightarrow> sys_step d d'"
| booked: "books_only d d' \<Longrightarrow> sys_step d d'"
| relayed: "batch_eff locked write d x d' \<Longrightarrow> sys_step d d'"
| dead_lettered: "sys_step d (move_exhausted ids err d)"
| cleaned: "delete_expired cutoff n d = Inr (a, d') \<Longrightarrow> sys_step d d'"

inductive_cases sys_stepE: "sys_step d d'"

section \<open>Invariants\<close>

definition order_is :: "int \<Rightarrow> order_status \<Rightarrow> database \<Rightarrow> bool" where
  "order_is oid s d \<longleftrightarrow> (\<exists>r\<in>set (orders d). o_id r = oid \<and> o_status r = s)"

definition ids_inv :: "database \<Rightarrow> bool" where
  "ids_inv d \<longleftrightarrow>
     distinct (map o_id (orders d)) \<and>
     distinct (map pay_id (payments d)) \<and> distinct (map pay_key (payments d)) \<and>
     (\<forall>p\<in>set (payments d). pay_key p \<noteq> None) \<and>
     distinct (map rf_id (refunds d)) \<and> distinct (map rf_payment (refunds d)) \<and>
     distinct (map ch_id (charges d)) \<and> distinct (map ch_key (charges d)) \<and>
     distinct (map pr_key (provider_refunds d))"

text \<open>A pending payment's order is pending; the order of a received payment is paid, or it is
  cancelled and the refund is on record; an order has at most one active payment.\<close>

definition order_inv :: "database \<Rightarrow> bool" where
  "order_inv d \<longleftrightarrow>
     (\<forall>p\<in>set (payments d). 0 < pay_amount p \<and>
        (pay_status p = PaymentPending \<longrightarrow> order_is (pay_order p) Pending d) \<and>
        (pay_status p = PaymentSucceeded \<longrightarrow> order_is (pay_order p) Paid d \<or>
           order_is (pay_order p) Cancelled d \<and> pay_id p \<in> rf_payment ` set (refunds d))) \<and>
     (\<forall>p\<in>set (payments d). \<forall>q\<in>set (payments d). active (pay_status p) \<longrightarrow> active (pay_status q) \<longrightarrow>
        pay_order p = pay_order q \<longrightarrow> p = q) \<and>
     (\<forall>oid. order_is oid Paid d \<longrightarrow>
        (\<exists>p\<in>set (payments d). pay_order p = oid \<and> pay_status p = PaymentSucceeded))"

text \<open>A refund belongs to one received payment of a cancelled order and is for its whole amount.\<close>

definition refund_inv :: "database \<Rightarrow> bool" where
  "refund_inv d \<longleftrightarrow>
     (\<forall>f\<in>set (refunds d). \<exists>p\<in>set (payments d). pay_id p = rf_payment f \<and> rf_amount f = pay_amount p \<and>
        order_is (pay_order p) Cancelled d \<and>
        (pay_status p = PaymentSucceeded \<and> rf_status f \<noteq> RefundSucceeded \<or> pay_status p = PaymentRefunded))"

text \<open>A received payment has its charge in the journal, with its key, amount and number; a failed one
  was declined there; every charge was made for a payment.\<close>

definition charge_inv :: "database \<Rightarrow> bool" where
  "charge_inv d \<longleftrightarrow>
     (\<forall>p\<in>set (payments d).
        (pay_status p = PaymentSucceeded \<or> pay_status p = PaymentRefunded \<longrightarrow>
           (\<exists>c\<in>set (charges d). ch_status c = Charged \<and> ch_key c = pay_key p \<and> ch_amount c = pay_amount p \<and>
              pay_provider p = Some (charge_name (ch_id c)))) \<and>
        (pay_status p = PaymentFailed \<longrightarrow>
           (\<exists>c\<in>set (charges d). ch_status c = Declined \<and> ch_key c = pay_key p))) \<and>
     (\<forall>c\<in>set (charges d). \<exists>p\<in>set (payments d). pay_key p = ch_key c \<and> pay_amount p = ch_amount c)"

text \<open>Money goes back only for a refund on record, once, in its amount, against the payment's charge.\<close>

definition return_inv :: "database \<Rightarrow> bool" where
  "return_inv d \<longleftrightarrow>
     (\<forall>x\<in>set (provider_refunds d). \<exists>f\<in>set (refunds d). \<exists>p\<in>set (payments d).
        pr_key x = refund_key (rf_id f) \<and> pr_amount x = rf_amount f \<and> pay_id p = rf_payment f \<and>
        pay_provider p = Some (pr_charge x)) \<and>
     (\<forall>p\<in>set (payments d). pay_status p = PaymentRefunded \<longrightarrow>
        (\<exists>x\<in>set (provider_refunds d). pay_provider p = Some (pr_charge x)))"

definition history :: "int \<Rightarrow> database \<Rightarrow> payment_status list" where
  "history pid d = map pe_to (filter (\<lambda>e. pe_payment e = pid) (payment_events d))"

text \<open>The history of a payment is a path of the automaton from \<open>pending\<close> to its status.\<close>

definition history_inv :: "database \<Rightarrow> bool" where
  "history_inv d \<longleftrightarrow>
     (\<forall>p\<in>set (payments d). history (pay_id p) d \<noteq> [] \<and> hd (history (pay_id p) d) = PaymentPending \<and>
        payment_path (history (pay_id p) d) \<and> last (history (pay_id p) d) = pay_status p) \<and>
     (\<forall>e\<in>set (payment_events d). pe_payment e \<in> pay_id ` set (payments d))"

definition books_inv :: "database \<Rightarrow> bool" where
  "books_inv d \<longleftrightarrow> ids_inv d \<and> order_inv d \<and> refund_inv d \<and> charge_inv d \<and> return_inv d \<and> history_inv d"

lemmas books_defs = ids_inv_def order_inv_def refund_inv_def charge_inv_def return_inv_def history_inv_def

section \<open>Lookups\<close>

lemma order_is_unique: "ids_inv d \<Longrightarrow> order_is oid s d \<Longrightarrow> order_is oid s' d \<Longrightarrow> s = s'"
  unfolding order_is_def ids_inv_def by (metis distinct_key_eq)

lemma payment_unique:
  "ids_inv d \<Longrightarrow> p \<in> set (payments d) \<Longrightarrow> q \<in> set (payments d) \<Longrightarrow> pay_id p = pay_id q \<Longrightarrow> p = q"
  unfolding ids_inv_def by (metis distinct_key_eq)

lemma payment_key_unique:
  "ids_inv d \<Longrightarrow> p \<in> set (payments d) \<Longrightarrow> q \<in> set (payments d) \<Longrightarrow> pay_key p = pay_key q \<Longrightarrow> p = q"
  unfolding ids_inv_def by (metis distinct_key_eq)

lemma charge_unique:
  "ids_inv d \<Longrightarrow> c \<in> set (charges d) \<Longrightarrow> b \<in> set (charges d) \<Longrightarrow> ch_key c = ch_key b \<Longrightarrow> c = b"
  unfolding ids_inv_def by (metis distinct_key_eq)

lemma refund_unique:
  "ids_inv d \<Longrightarrow> f \<in> set (refunds d) \<Longrightarrow> g \<in> set (refunds d) \<Longrightarrow> rf_payment f = rf_payment g \<Longrightarrow> f = g"
  "ids_inv d \<Longrightarrow> f \<in> set (refunds d) \<Longrightarrow> g \<in> set (refunds d) \<Longrightarrow> rf_id f = rf_id g \<Longrightarrow> f = g"
  unfolding ids_inv_def by (metis distinct_key_eq)+

text \<open>The tables of the money; most steps touch none of them.\<close>

definition money_tables where
  "money_tables d = (payments d, payment_events d, refunds d, charges d, provider_refunds d)"

lemma money_tables_eq:
  "money_tables d' = money_tables d \<longleftrightarrow> payments d' = payments d \<and>
     payment_events d' = payment_events d \<and> refunds d' = refunds d \<and> charges d' = charges d \<and>
     provider_refunds d' = provider_refunds d"
  by (simp add: money_tables_def)

lemma books_inv_cong:
  assumes "books_inv d" "orders d' = orders d" "money_tables d' = money_tables d"
  shows "books_inv d'"
  using assms by (simp add: money_tables_eq books_inv_def books_defs order_is_def history_def)

section \<open>Creating and cancelling\<close>

lemma item_eff_frame: "item_eff oid i d d' \<Longrightarrow> money_tables d' = money_tables d \<and> orders d' = orders d"
  by (auto simp: item_eff_def item_db_def money_tables_def)

lemma items_eff_frame: "items_eff oid is d d' \<Longrightarrow> money_tables d' = money_tables d \<and> orders d' = orders d"
  by (induction "is" arbitrary: d) (auto dest!: item_eff_frame)

lemma money_tables_simps [simp]:
  "money_tables (open_order oid key d) = money_tables d"
  "money_tables (remember_order oid key d) = money_tables d"
  by (simp_all add: open_order_def remember_order_def keep_idem_key_def money_tables_def Let_def)

definition opened :: "database \<Rightarrow> database \<Rightarrow> bool" where
  "opened d d' \<longleftrightarrow> orders d' = orders d \<or>
     (\<exists>oid t. oid \<notin> o_id ` set (orders d) \<and> orders d' = orders d @ [new_order oid t])"

lemma create_frame:
  assumes "create_eff items key d r d1"
  shows "money_tables d1 = money_tables d" and "opened d d1"
proof -
  have "d1 = d \<or> (\<exists>d2 oid. oid \<notin> o_id ` set (orders d) \<and> d1 = remember_order oid key d2 \<and>
      items_eff oid (sort_key oi_product items) (open_order oid key d) d2)"
    using assms by (auto simp: create_eff_def place_eff_def image_iff split: option.splits) metis
  then show "money_tables d1 = money_tables d" and "opened d d1"
    by (auto simp: opened_def dest!: items_eff_frame) metis+
qed

lemma placed_frame:
  assumes "placed_eff items key d r d'"
  shows "money_tables d' = money_tables d" and "opened d d'"
proof -
  obtain d1 where create: "create_eff items key d r d1" and "d' = d1 \<or> add_event (fst r) d1 d'"
    using assms by (auto simp: placed_eff_def split: if_splits)
  then have "money_tables d' = money_tables d1" "orders d' = orders d1"
    by (auto simp: add_event_def money_tables_def)
  with create_frame [OF create] show "money_tables d' = money_tables d" "opened d d'"
    by (simp_all add: opened_def)
qed

lemma placed_books:
  assumes "placed_eff items key d r d'" and inv: "books_inv d"
  shows "books_inv d'"
proof -
  note fr = placed_frame [OF assms(1)]
  show ?thesis
  proof (cases "orders d' = orders d")
    case True
    with fr inv show ?thesis by (blast intro: books_inv_cong)
  next
    case False
    then obtain oid t where new: "oid \<notin> o_id ` set (orders d)" and o: "orders d' = orders d @ [new_order oid t]"
      using fr by (auto simp: opened_def)
    note tabs = fr(1) [unfolded money_tables_eq]
    have is_iff: "order_is x s d' \<longleftrightarrow> order_is x s d \<or> x = oid \<and> s = Pending" for x s
      by (auto simp: order_is_def o)
    have hist: "history pid d' = history pid d" for pid using tabs by (simp add: history_def)
    have "ids_inv d'" using inv tabs new by (simp add: books_inv_def ids_inv_def o)
    moreover have "order_inv d'" using inv tabs unfolding books_inv_def order_inv_def is_iff by auto
    moreover have "refund_inv d'" using inv tabs unfolding books_inv_def refund_inv_def is_iff by auto
    moreover have "charge_inv d'" using inv tabs by (simp add: books_inv_def charge_inv_def)
    moreover have "return_inv d'" using inv tabs by (simp add: books_inv_def return_inv_def)
    moreover have "history_inv d'" using inv tabs by (simp add: books_inv_def history_inv_def hist)
    ultimately show ?thesis by (simp add: books_inv_def)
  qed
qed

lemma order_is_cancel:
  "order_is x s (cancel_db oid d) \<longleftrightarrow>
     (if x = oid then s = Cancelled \<and> oid \<in> o_id ` set (orders d) else order_is x s d)"
proof -
  have "order_is x s (cancel_db oid d) \<longleftrightarrow>
      (\<exists>r\<in>set (orders d). if o_id r = oid then o_id r = x \<and> Cancelled = s else o_id r = x \<and> o_status r = s)"
    by (simp add: order_is_def bex_update_iff)
  also have "\<dots> \<longleftrightarrow> (if x = oid then s = Cancelled \<and> oid \<in> o_id ` set (orders d) else order_is x s d)"
    by (cases "x = oid") (auto simp: order_is_def)
  finally show ?thesis .
qed

lemma books_parts:
  "books_inv d \<Longrightarrow> ids_inv d" "books_inv d \<Longrightarrow> order_inv d" "books_inv d \<Longrightarrow> refund_inv d"
  "books_inv d \<Longrightarrow> charge_inv d" "books_inv d \<Longrightarrow> return_inv d" "books_inv d \<Longrightarrow> history_inv d"
  by (simp_all add: books_inv_def)

lemma order_invD:
  assumes "order_inv d"
  shows "p \<in> set (payments d) \<Longrightarrow> 0 < pay_amount p"
    and "p \<in> set (payments d) \<Longrightarrow> pay_status p = PaymentPending \<Longrightarrow> order_is (pay_order p) Pending d"
    and "p \<in> set (payments d) \<Longrightarrow> pay_status p = PaymentSucceeded \<Longrightarrow> order_is (pay_order p) Paid d \<or>
      order_is (pay_order p) Cancelled d \<and> pay_id p \<in> rf_payment ` set (refunds d)"
    and "p \<in> set (payments d) \<Longrightarrow> q \<in> set (payments d) \<Longrightarrow> active (pay_status p) \<Longrightarrow>
      active (pay_status q) \<Longrightarrow> pay_order p = pay_order q \<Longrightarrow> p = q"
    and "order_is x Paid d \<Longrightarrow> \<exists>p\<in>set (payments d). pay_order p = x \<and> pay_status p = PaymentSucceeded"
  using assms unfolding order_inv_def by blast+

lemma history_cong: "payment_events d' = payment_events d \<Longrightarrow> history pid d' = history pid d"
  by (simp add: history_def)

lemma refund_inv_mono:
  assumes "refund_inv d" and "payments d' = payments d"
    and "\<And>x. order_is x Cancelled d \<Longrightarrow> order_is x Cancelled d'"
    and "\<And>f. f \<in> set (refunds d') \<Longrightarrow> f \<in> set (refunds d) \<or>
      (\<exists>p\<in>set (payments d). pay_id p = rf_payment f \<and> rf_amount f = pay_amount p \<and>
        order_is (pay_order p) Cancelled d' \<and> pay_status p = PaymentSucceeded \<and> rf_status f \<noteq> RefundSucceeded)"
  shows "refund_inv d'"
  unfolding refund_inv_def assms(2)
proof
  fix f assume "f \<in> set (refunds d')"
  with assms(4) show "\<exists>p\<in>set (payments d). pay_id p = rf_payment f \<and> rf_amount f = pay_amount p \<and>
        order_is (pay_order p) Cancelled d' \<and>
        (pay_status p = PaymentSucceeded \<and> rf_status f \<noteq> RefundSucceeded \<or> pay_status p = PaymentRefunded)"
    using assms(1,3) unfolding refund_inv_def by meson
qed

lemma cancel_db_money [simp]: "money_tables (cancel_db oid d) = money_tables d"
  by (simp add: cancel_db_def money_tables_def)

lemma cancel_db_ids: "map o_id (orders (cancel_db oid d)) = map o_id (orders d)"
  by (simp add: map_update_where)

lemma cancelled_pending_books:
  assumes inv: "books_inv d" and was: "order_is oid Pending d"
    and idle: "\<forall>p\<in>set (payments d). pay_order p = oid \<longrightarrow> pay_status p \<noteq> PaymentPending"
  shows "books_inv (cancel_db oid d)"
proof -
  let ?d = "cancel_db oid d"
  note tabs = cancel_db_money [of oid d, unfolded money_tables_eq]
  have oid: "oid \<in> o_id ` set (orders d)" using was by (auto simp: order_is_def)
  note is_iff = order_is_cancel [of _ _ oid d, unfolded oid, simplified]
  have none: "pay_order p \<noteq> oid" if "p \<in> set (payments d)" "active (pay_status p)" for p
    using that idle was books_parts(2) [OF inv] order_is_unique [OF books_parts(1) [OF inv] was]
    unfolding order_inv_def active_def by fastforce
  have "ids_inv ?d" using books_parts(1) [OF inv] tabs cancel_db_ids [of oid d] by (simp add: ids_inv_def)
  moreover have "order_inv ?d"
    using books_parts(2) [OF inv] tabs none unfolding order_inv_def is_iff by (auto simp: active_def)
  moreover have "refund_inv ?d"
    by (rule refund_inv_mono [OF books_parts(3) [OF inv]]) (use tabs oid in \<open>auto simp: is_iff\<close>)
  moreover have "charge_inv ?d" using books_parts(4) [OF inv] tabs by (simp add: charge_inv_def)
  moreover have "return_inv ?d" using books_parts(5) [OF inv] tabs by (simp add: return_inv_def)
  moreover have "history_inv ?d"
    using books_parts(6) [OF inv] tabs history_cong [of ?d d] by (simp add: history_inv_def)
  ultimately show ?thesis by (simp add: books_inv_def)
qed

lemma cancelled_paid_books:
  assumes inv: "books_inv d" and was: "order_is oid Paid d" and eff: "refund_eff oid (cancel_db oid d) d'"
  shows "books_inv d'"
proof -
  let ?d = "cancel_db oid d"
  note tabs = cancel_db_money [of oid d, unfolded money_tables_eq]
  note ids = books_parts(1) [OF inv] and ord = books_parts(2) [OF inv] and ref = books_parts(3) [OF inv]
  have oid: "oid \<in> o_id ` set (orders d)" using was by (auto simp: order_is_def)
  obtain p where p: "p \<in> set (payments d)" "pay_order p = oid" "pay_status p = PaymentSucceeded"
    using ord was unfolding order_inv_def by blast
  have only: "q = p" if "q \<in> set (payments d)" "pay_order q = oid" "active (pay_status q)" for q
    using ord that p unfolding order_inv_def active_def by blast
  have found: "List.find (\<lambda>p. pay_order p = oid \<and> pay_status p = PaymentSucceeded) (payments d) = Some p"
  proof (cases "List.find (\<lambda>p. pay_order p = oid \<and> pay_status p = PaymentSucceeded) (payments d)")
    case None
    with p show ?thesis by (auto simp: find_None_iff_ball)
  next
    case (Some q)
    with only [of q] show ?thesis by (auto simp: active_def dest: find_Some_in)
  qed
  have new: "pay_id p \<notin> rf_payment ` set (refunds d)"
  proof
    assume "pay_id p \<in> rf_payment ` set (refunds d)"
    then obtain q where "q \<in> set (payments d)" "pay_id q = pay_id p" "order_is (pay_order q) Cancelled d"
      using ref unfolding refund_inv_def by (metis imageE)
    then have "order_is oid Cancelled d" using payment_unique [OF ids] p by metis
    with order_is_unique [OF ids was] show False by blast
  qed
  have new': "\<not> (\<exists>f\<in>set (refunds d). rf_payment f = pay_id p)" using new by force
  obtain rid where rid: "\<forall>f\<in>set (refunds d). rf_id f \<noteq> rid"
    and d': "d' = ?d\<lparr>refunds := refunds d @ [new_refund rid (pay_id p) (pay_amount p) (now ?d)]\<rparr>"
    using eff found new' tabs by (auto simp: refund_eff_def)
  have is_iff: "order_is x s d' \<longleftrightarrow> (if x = oid then s = Cancelled else order_is x s d)" for x s
    using order_is_cancel [of x s oid d] oid by (simp add: order_is_def d')
  have refs: "refunds d' = refunds d @ [new_refund rid (pay_id p) (pay_amount p) (now ?d)]"
    by (simp add: d')
  have rest: "payments d' = payments d" "payment_events d' = payment_events d" "charges d' = charges d"
    "provider_refunds d' = provider_refunds d" "map o_id (orders d') = map o_id (orders d)"
    using tabs cancel_db_ids [of oid d] by (simp_all add: d')
  have "ids_inv d'" using ids rid new by (auto simp: ids_inv_def rest refs)
  moreover have "order_inv d'"
    unfolding order_inv_def rest is_iff
  proof (intro conjI ballI allI impI)
    fix q assume q: "q \<in> set (payments d)"
    then show "0 < pay_amount q" by (rule order_invD [OF ord])
    show "if pay_order q = oid then Pending = Cancelled else order_is (pay_order q) Pending d"
      if "pay_status q = PaymentPending"
      using only [of q] p(3) q that order_invD(2) [OF ord q that] by (auto simp: active_def)
    show "(if pay_order q = oid then Paid = Cancelled else order_is (pay_order q) Paid d) \<or>
        (if pay_order q = oid then Cancelled = Cancelled else order_is (pay_order q) Cancelled d) \<and>
        pay_id q \<in> rf_payment ` set (refunds d')" if "pay_status q = PaymentSucceeded"
      using only [of q] q that order_invD(3) [OF ord q that] by (auto simp: active_def refs)
    show "q = r" if "r \<in> set (payments d)" "active (pay_status q)" "active (pay_status r)"
      "pay_order q = pay_order r" for r
      using order_invD(4) [OF ord q that] .
  next
    fix x assume "if x = oid then Paid = Cancelled else order_is x Paid d"
    then show "\<exists>p\<in>set (payments d). pay_order p = x \<and> pay_status p = PaymentSucceeded"
      using order_invD(5) [OF ord, of x] by (simp split: if_splits)
  qed
  moreover have "refund_inv d'"
    by (rule refund_inv_mono [OF ref rest(1)]) (use p in \<open>auto simp: is_iff refs\<close>)
  moreover have "charge_inv d'" using books_parts(4) [OF inv] by (simp add: charge_inv_def rest)
  moreover have "return_inv d'" using books_parts(5) [OF inv] unfolding return_inv_def rest refs by auto
  moreover have "history_inv d'"
    using books_parts(6) [OF inv] history_cong [of d' d] by (simp add: history_inv_def rest)
  ultimately show ?thesis by (simp add: books_inv_def)
qed

lemma cancelled_books:
  assumes "cancel_eff oid d r d'" and inv: "books_inv d"
  shows "books_inv d'"
proof -
  obtain row where row: "List.find (\<lambda>r. o_id r = oid) (orders d) = Some row"
    and how: "o_status row = Pending \<and>
           (\<forall>p\<in>set (payments d). pay_order p = oid \<longrightarrow> pay_status p \<noteq> PaymentPending) \<and>
           d' = cancel_db oid d \<or>
         o_status row = Paid \<and> refund_eff oid (cancel_db oid d) d'"
    using assms(1) by (auto simp: cancel_eff_def)
  have "order_is oid (o_status row) d" using find_Some_in [OF row] by (auto simp: order_is_def)
  with how inv show ?thesis by (metis cancelled_pending_books cancelled_paid_books)
qed

section \<open>Payments\<close>

lemma payment_path_snoc:
  "xs \<noteq> [] \<Longrightarrow> payment_path (xs @ [b]) \<longleftrightarrow> payment_path xs \<and> can_transition_payment (last xs) b"
  by (induction xs rule: payment_path.induct) auto

lemma started_books:
  assumes eff: "start_eff oid key d r d'" and "key \<noteq> []" and inv: "books_inv d"
  shows "books_inv d'"
proof -
  note ids = books_parts(1) [OF inv] and ord = books_parts(2) [OF inv]
  let ?p = "new_payment (fst r) oid (order_total oid d) key (now d)"
  obtain row where row: "List.find (\<lambda>r. o_id r = oid) (orders d) = Some row" "o_status row = Pending"
    using eff by (auto simp: start_eff_def)
  have pend: "order_is oid Pending d" using find_Some_in [OF row(1)] row(2) by (auto simp: order_is_def)
  have pos: "0 < order_total oid d" using eff by (simp add: start_eff_def)
  have new: "\<forall>p\<in>set (payments d). pay_id p \<noteq> fst r \<and> \<not> (pay_order p = oid \<and> active (pay_status p)) \<and>
      pay_key p \<noteq> Some key"
    using eff assms(2) by (simp add: start_eff_def)
  have d': "payments d' = payments d @ [?p]" "orders d' = orders d" "refunds d' = refunds d"
    "charges d' = charges d" "provider_refunds d' = provider_refunds d"
    and ev: "payment_events d' = payment_events d @
      [\<lparr>pe_payment = fst r, pe_from = None, pe_to = PaymentPending, pe_reason = ''started''\<rparr>]"
    using eff by (auto simp: start_eff_def start_db_def)
  have is_iff: "order_is x s d' \<longleftrightarrow> order_is x s d" for x s by (simp add: order_is_def d')
  have key: "null_if_empty key = Some key" using assms(2) by (simp add: null_if_empty_def)
  have hist: "history pid d' = history pid d @ (if pid = fst r then [PaymentPending] else [])" for pid
    by (simp add: history_def ev)
  have empty: "history (fst r) d = []"
  proof -
    have "pe_payment e \<noteq> fst r" if "e \<in> set (payment_events d)" for e
      using that new books_parts(6) [OF inv] unfolding history_inv_def by fastforce
    then show ?thesis by (simp add: history_def filter_empty_conv)
  qed
  have "ids_inv d'" using ids new by (auto simp: ids_inv_def d' key)
  moreover have "order_inv d'"
    using ord new pend pos unfolding order_inv_def is_iff d'
    by (auto simp: active_def)
  moreover have "refund_inv d'"
    using books_parts(3) [OF inv] unfolding refund_inv_def is_iff d' by (auto; metis)
  moreover have "charge_inv d'"
    using books_parts(4) [OF inv] unfolding charge_inv_def d' by (auto; metis)
  moreover have "return_inv d'"
    using books_parts(5) [OF inv] unfolding return_inv_def d' by (auto; metis)
  moreover have "history_inv d'"
    using books_parts(6) [OF inv] new empty unfolding history_inv_def d' hist
    by (auto simp: ev)
  ultimately show ?thesis by (simp add: books_inv_def)
qed

lemma moved_payments:
  assumes "ids_inv d" and "p \<in> set (payments d)"
    and "payments d' = update_where (\<lambda>q. pay_id q = pay_id p) (mark_payment to pr) (payments d)"
  shows "q \<in> set (payments d') \<longleftrightarrow> q \<in> set (payments d) \<and> pay_id q \<noteq> pay_id p \<or> q = mark_payment to pr p"
proof -
  have "q' = p" if "q' \<in> set (payments d)" "pay_id q' = pay_id p" for q'
    using payment_unique [OF assms(1) that(1) assms(2) that(2)] .
  with assms(2) show ?thesis
    unfolding assms(3) set_update_where by (auto simp: image_iff)
qed

lemma moved_books_core:
  assumes inv: "books_inv d" and p: "p \<in> set (payments d)" "can_transition_payment (pay_status p) to"
    and pays: "payments d' = update_where (\<lambda>q. pay_id q = pay_id p) (mark_payment to pr) (payments d)"
    and ev: "payment_events d' = payment_events d @ [e]" "pe_payment e = pay_id p" "pe_to e = to"
    and rest: "map o_id (orders d') = map o_id (orders d)" "map rf_id (refunds d') = map rf_id (refunds d)"
      "map rf_payment (refunds d') = map rf_payment (refunds d)" "charges d' = charges d"
      "provider_refunds d' = provider_refunds d"
  shows "ids_inv d'" and "history_inv d'"
proof -
  note ids = books_parts(1) [OF inv] and his = books_parts(6) [OF inv]
  have maps: "map pay_id (payments d') = map pay_id (payments d)"
    "map pay_key (payments d') = map pay_key (payments d)"
    by (simp_all add: pays map_update_where)
  note member = moved_payments [OF ids p(1) pays]
  have "\<forall>q\<in>set (payments d'). pay_key q \<noteq> None" using ids p by (auto simp: member ids_inv_def)
  then show "ids_inv d'" using ids unfolding ids_inv_def maps rest by simp
  have hist: "history pid d' = history pid d @ (if pid = pay_id p then [to] else [])" for pid
    using ev by (simp add: history_def)
  have "pay_id ` set (payments d') = pay_id ` set (payments d)" using maps(1) by (metis set_map)
  then show "history_inv d'"
    using his p ev unfolding history_inv_def
    by (auto simp: member hist payment_path_snoc)
qed

lemma refund_invE:
  assumes "refund_inv d" and "f \<in> set (refunds d)"
  obtains p where "p \<in> set (payments d)" "pay_id p = rf_payment f" "rf_amount f = pay_amount p"
    "order_is (pay_order p) Cancelled d"
    "pay_status p = PaymentSucceeded \<and> rf_status f \<noteq> RefundSucceeded \<or> pay_status p = PaymentRefunded"
  using assms unfolding refund_inv_def by blast

lemma charge_invD:
  assumes "charge_inv d"
  shows "p \<in> set (payments d) \<Longrightarrow> pay_status p = PaymentSucceeded \<or> pay_status p = PaymentRefunded \<Longrightarrow>
      \<exists>c\<in>set (charges d). ch_status c = Charged \<and> ch_key c = pay_key p \<and> ch_amount c = pay_amount p \<and>
        pay_provider p = Some (charge_name (ch_id c))"
    and "p \<in> set (payments d) \<Longrightarrow> pay_status p = PaymentFailed \<Longrightarrow>
      \<exists>c\<in>set (charges d). ch_status c = Declined \<and> ch_key c = pay_key p"
    and "c \<in> set (charges d) \<Longrightarrow> \<exists>p\<in>set (payments d). pay_key p = ch_key c \<and> pay_amount p = ch_amount c"
  using assms unfolding charge_inv_def by blast+

lemma return_invD:
  assumes "return_inv d"
  shows "x \<in> set (provider_refunds d) \<Longrightarrow> \<exists>f\<in>set (refunds d). \<exists>p\<in>set (payments d).
        pr_key x = refund_key (rf_id f) \<and> pr_amount x = rf_amount f \<and> pay_id p = rf_payment f \<and>
        pay_provider p = Some (pr_charge x)"
    and "p \<in> set (payments d) \<Longrightarrow> pay_status p = PaymentRefunded \<Longrightarrow>
      \<exists>x\<in>set (provider_refunds d). pay_provider p = Some (pr_charge x)"
  using assms unfolding return_inv_def by blast+

lemma charge_amount:
  assumes "ids_inv d" "charge_inv d" "c \<in> set (charges d)" "p \<in> set (payments d)" "ch_key c = pay_key p"
  shows "ch_amount c = pay_amount p"
  using charge_invD(3) [OF assms(2,3)] payment_key_unique [OF assms(1) assms(4)] assms(5) by metis

lemma mark_payment_provider [simp]:
  "pay_provider (mark_payment to [] p) = pay_provider p"
  "pr \<noteq> [] \<Longrightarrow> pay_provider (mark_payment to pr p) = Some pr"
  by (simp_all add: mark_payment_def null_if_empty_def)

text \<open>
  One payment \<open>p\<close> moves to \<open>to\<close>; only its order (paid when it succeeds) and the status of its
  refund change with it.
\<close>

definition moved :: "payment \<Rightarrow> payment_status \<Rightarrow> string \<Rightarrow> database \<Rightarrow> database \<Rightarrow> bool" where
  "moved p to pr d d' \<longleftrightarrow>
     p \<in> set (payments d) \<and> can_transition_payment (pay_status p) to \<and>
     payments d' = update_where (\<lambda>q. pay_id q = pay_id p) (mark_payment to pr) (payments d) \<and>
     (\<exists>e. payment_events d' = payment_events d @ [e] \<and> pe_payment e = pay_id p \<and> pe_to e = to) \<and>
     charges d' = charges d \<and> provider_refunds d' = provider_refunds d \<and>
     map o_id (orders d') = map o_id (orders d) \<and>
     (\<forall>x s. order_is x s d' \<longleftrightarrow>
        (if to = PaymentSucceeded \<and> x = pay_order p then s = Paid else order_is x s d)) \<and>
     (\<exists>g. refunds d' = map g (refunds d) \<and>
        (\<forall>f\<in>set (refunds d). rf_id (g f) = rf_id f \<and> rf_payment (g f) = rf_payment f \<and>
           rf_amount (g f) = rf_amount f \<and>
           (rf_status (g f) = RefundSucceeded \<longrightarrow>
              rf_status f = RefundSucceeded \<or> rf_payment f = pay_id p \<and> to = PaymentRefunded)))"

lemma movedD:
  assumes "moved p to pr d d'"
  shows "p \<in> set (payments d)" and "can_transition_payment (pay_status p) to"
    and "payments d' = update_where (\<lambda>q. pay_id q = pay_id p) (mark_payment to pr) (payments d)"
    and "charges d' = charges d" and "provider_refunds d' = provider_refunds d"
    and "map o_id (orders d') = map o_id (orders d)"
    and "order_is x s d' \<longleftrightarrow>
      (if to = PaymentSucceeded \<and> x = pay_order p then s = Paid else order_is x s d)"
  using assms by (auto simp: moved_def)

lemma moved_refunds:
  assumes "moved p to pr d d'"
  shows "map rf_id (refunds d') = map rf_id (refunds d)"
    and "map rf_payment (refunds d') = map rf_payment (refunds d)"
    and "f' \<in> set (refunds d') \<Longrightarrow> \<exists>f\<in>set (refunds d). rf_id f' = rf_id f \<and> rf_payment f' = rf_payment f \<and>
      rf_amount f' = rf_amount f \<and> (rf_status f' = RefundSucceeded \<longrightarrow>
        rf_status f = RefundSucceeded \<or> rf_payment f = pay_id p \<and> to = PaymentRefunded)"
    and "f \<in> set (refunds d) \<Longrightarrow> \<exists>f'\<in>set (refunds d'). rf_id f' = rf_id f \<and>
      rf_payment f' = rf_payment f \<and> rf_amount f' = rf_amount f"
proof -
  obtain g where g: "refunds d' = map g (refunds d)"
    and same: "\<forall>f\<in>set (refunds d). rf_id (g f) = rf_id f \<and> rf_payment (g f) = rf_payment f \<and>
           rf_amount (g f) = rf_amount f \<and>
           (rf_status (g f) = RefundSucceeded \<longrightarrow>
              rf_status f = RefundSucceeded \<or> rf_payment f = pay_id p \<and> to = PaymentRefunded)"
    using assms by (auto simp: moved_def)
  show "map rf_id (refunds d') = map rf_id (refunds d)"
    and "map rf_payment (refunds d') = map rf_payment (refunds d)" using same by (simp_all add: g)
  show "\<exists>f\<in>set (refunds d). rf_id f' = rf_id f \<and> rf_payment f' = rf_payment f \<and>
      rf_amount f' = rf_amount f \<and> (rf_status f' = RefundSucceeded \<longrightarrow>
        rf_status f = RefundSucceeded \<or> rf_payment f = pay_id p \<and> to = PaymentRefunded)"
    if "f' \<in> set (refunds d')"
    using that same unfolding g set_map by blast
  show "\<exists>f'\<in>set (refunds d'). rf_id f' = rf_id f \<and> rf_payment f' = rf_payment f \<and> rf_amount f' = rf_amount f"
    if "f \<in> set (refunds d)"
    using that same unfolding g set_map by blast
qed

lemma moved_other:
  assumes "ids_inv d" "moved p to pr d d'" "q \<in> set (payments d)" "q \<noteq> p"
  shows "q \<in> set (payments d')" and "pay_id q \<noteq> pay_id p"
proof -
  show "pay_id q \<noteq> pay_id p" using payment_unique [OF assms(1,3)] movedD(1) [OF assms(2)] assms(4) by blast
  then show "q \<in> set (payments d')"
    using assms moved_payments [OF assms(1) movedD(1,3) [OF assms(2)]] by blast
qed

lemma moved_member:
  assumes "ids_inv d" "moved p to pr d d'"
  shows "q \<in> set (payments d') \<longleftrightarrow> q \<in> set (payments d) \<and> q \<noteq> p \<or> q = mark_payment to pr p"
  using moved_other [OF assms] moved_payments [OF assms(1) movedD(1,3) [OF assms(2)]] by blast

text \<open>Every payment is still there, and only \<open>p\<close> is another row.\<close>

lemma moved_kept:
  assumes "ids_inv d" "moved p to pr d d'" "q \<in> set (payments d)"
  shows "\<exists>q'\<in>set (payments d'). pay_id q' = pay_id q \<and> pay_key q' = pay_key q \<and>
    pay_order q' = pay_order q \<and> pay_amount q' = pay_amount q \<and> (q \<noteq> p \<longrightarrow> q' = q) \<and>
    (q = p \<longrightarrow> q' = mark_payment to pr p)"
proof (cases "q = p")
  case True
  then show ?thesis using moved_member [OF assms(1,2)] by (intro bexI [of _ "mark_payment to pr p"]) auto
next
  case False
  then show ?thesis using moved_other [OF assms] by blast
qed

lemma moved_charge_inv:
  assumes inv: "books_inv d" and mv: "moved p to pr d d'"
    and got: "to = PaymentSucceeded \<or> to = PaymentRefunded \<Longrightarrow>
      \<exists>c\<in>set (charges d). ch_status c = Charged \<and> ch_key c = pay_key p \<and>
        pay_provider (mark_payment to pr p) = Some (charge_name (ch_id c))"
    and refused: "to = PaymentFailed \<Longrightarrow> \<exists>c\<in>set (charges d). ch_status c = Declined \<and> ch_key c = pay_key p"
  shows "charge_inv d'"
proof -
  note ids = books_parts(1) [OF inv] and ch = books_parts(4) [OF inv]
  note member = moved_member [OF ids mv] and amount = charge_amount [OF ids ch _ movedD(1) [OF mv]]
  show ?thesis
    unfolding charge_inv_def movedD(4) [OF mv]
  proof (intro conjI ballI impI)
    fix q assume "q \<in> set (payments d')" and "pay_status q = PaymentSucceeded \<or> pay_status q = PaymentRefunded"
    then show "\<exists>c\<in>set (charges d). ch_status c = Charged \<and> ch_key c = pay_key q \<and>
        ch_amount c = pay_amount q \<and> pay_provider q = Some (charge_name (ch_id c))"
      using charge_invD(1) [OF ch, of q] got amount unfolding member by fastforce
  next
    fix q assume "q \<in> set (payments d')" and "pay_status q = PaymentFailed"
    then show "\<exists>c\<in>set (charges d). ch_status c = Declined \<and> ch_key c = pay_key q"
      using charge_invD(2) [OF ch, of q] refused unfolding member by auto
  next
    fix c assume "c \<in> set (charges d)"
    then obtain q where "q \<in> set (payments d)" "pay_key q = ch_key c" "pay_amount q = ch_amount c"
      using charge_invD(3) [OF ch] by blast
    then show "\<exists>q\<in>set (payments d'). pay_key q = ch_key c \<and> pay_amount q = ch_amount c"
      using moved_kept [OF ids mv] by metis
  qed
qed

lemma active_iff: "active s \<longleftrightarrow> s = PaymentPending \<or> s = PaymentSucceeded"
  by (simp add: active_def)

text \<open>The order of a payment that is being refunded is cancelled.\<close>

lemma refunding_order:
  assumes inv: "books_inv d" and "p \<in> set (payments d)" "f \<in> set (refunds d)" "rf_payment f = pay_id p"
  shows "order_is (pay_order p) Cancelled d"
  using refund_invE [OF books_parts(3) [OF inv] assms(3)] payment_unique [OF books_parts(1) [OF inv] assms(2)]
    assms(4) by metis

lemma moved_order_inv:
  assumes inv: "books_inv d" and mv: "moved p to pr d d'"
    and returned_to: "to = PaymentRefunded \<Longrightarrow> order_is (pay_order p) Cancelled d"
  shows "order_inv d'"
proof -
  note ids = books_parts(1) [OF inv] and ord = books_parts(2) [OF inv]
  note member = moved_member [OF ids mv] and is_iff = movedD(7) [OF mv] and p = movedD(1,2) [OF mv]
  have refs: "rf_payment ` set (refunds d') = rf_payment ` set (refunds d)"
    using moved_refunds(2) [OF mv] by (metis set_map)
  have alone: "q = p" if "q \<in> set (payments d)" "active (pay_status q)" "pay_order q = pay_order p"
      "to = PaymentSucceeded" for q
    using order_invD(4) [OF ord that(1) p(1) that(2)] that p(2)
    by (auto simp: active_def can_transition_payment_iff)
  have to: "to \<noteq> PaymentPending" using p(2) by (auto simp: can_transition_payment_iff)
  have was: "active (pay_status p)" using p(2) by (auto simp: active_def can_transition_payment_iff)
  show ?thesis
    unfolding order_inv_def
  proof (intro conjI ballI allI impI)
    fix q assume q: "q \<in> set (payments d')"
    then show "0 < pay_amount q" using order_invD(1) [OF ord] p(1) by (auto simp: member)
    show "order_is (pay_order q) Pending d'" if "pay_status q = PaymentPending"
    proof -
      have "q \<in> set (payments d)" "q \<noteq> p"
        using q that to mark_payment_sel(4) by (metis member)+
      then show ?thesis using order_invD(2) [OF ord _ that] alone [of q] that
        by (auto simp: is_iff active_def)
    qed
    show "order_is (pay_order q) Paid d' \<or>
        order_is (pay_order q) Cancelled d' \<and> pay_id q \<in> rf_payment ` set (refunds d')"
      if "pay_status q = PaymentSucceeded"
    proof (cases "q = mark_payment to pr p")
      case True
      then show ?thesis using that by (simp add: is_iff)
    next
      case False
      then have "q \<in> set (payments d)" "q \<noteq> p" using q by (auto simp: member)
      then show ?thesis using order_invD(3) [OF ord _ that] alone [of q] that
        by (auto simp: is_iff active_def refs)
    qed
    show "q = r" if "r \<in> set (payments d')" "active (pay_status q)" "active (pay_status r)"
      "pay_order q = pay_order r" for r
      using that q order_invD(4) [OF ord] p(1) was
      by (simp add: member) (metis mark_payment_sel(2))
  next
    fix x assume paid: "order_is x Paid d'"
    show "\<exists>q\<in>set (payments d'). pay_order q = x \<and> pay_status q = PaymentSucceeded"
    proof (cases "to = PaymentSucceeded \<and> x = pay_order p")
      case True
      then show ?thesis using member [of "mark_payment to pr p"]
        by (intro bexI [of _ "mark_payment to pr p"]) auto
    next
      case False
      then have "order_is x Paid d" using paid by (auto simp: is_iff)
      then obtain q where q: "q \<in> set (payments d)" "pay_order q = x" "pay_status q = PaymentSucceeded"
        using order_invD(5) [OF ord] by blast
      moreover have "q \<noteq> p"
      proof
        assume "q = p"
        then have "to = PaymentRefunded" using q p(2) by (simp add: can_transition_payment_iff)
        then show False using returned_to order_is_unique [OF ids \<open>order_is x Paid d\<close>] q \<open>q = p\<close> by blast
      qed
      ultimately show ?thesis using member by blast
    qed
  qed
qed

lemma moved_refund_inv:
  assumes inv: "books_inv d" and mv: "moved p to pr d d'"
  shows "refund_inv d'"
  unfolding refund_inv_def
proof
  note ids = books_parts(1) [OF inv] and ref = books_parts(3) [OF inv]
  note is_iff = movedD(7) [OF mv] and p = movedD(1,2) [OF mv]
  fix f' assume "f' \<in> set (refunds d')"
  then obtain f where f: "f \<in> set (refunds d)" and same: "rf_payment f' = rf_payment f"
      "rf_amount f' = rf_amount f" "rf_status f' = RefundSucceeded \<longrightarrow>
        rf_status f = RefundSucceeded \<or> rf_payment f = pay_id p \<and> to = PaymentRefunded"
    using moved_refunds(3) [OF mv] by blast
  obtain q where q: "q \<in> set (payments d)" "pay_id q = rf_payment f" "rf_amount f = pay_amount q"
      "order_is (pay_order q) Cancelled d"
      "pay_status q = PaymentSucceeded \<and> rf_status f \<noteq> RefundSucceeded \<or> pay_status q = PaymentRefunded"
    using refund_invE [OF ref f] by blast
  obtain q' where q': "q' \<in> set (payments d')" "pay_id q' = pay_id q" "pay_order q' = pay_order q"
      "pay_amount q' = pay_amount q" "q \<noteq> p \<longrightarrow> q' = q" "q = p \<longrightarrow> q' = mark_payment to pr p"
    using moved_kept [OF ids mv q(1)] by blast
  have "order_is (pay_order q) Cancelled d'"
  proof (cases "to = PaymentSucceeded \<and> pay_order q = pay_order p")
    case True
    then have "order_is (pay_order p) Pending d"
      using order_invD(2) [OF books_parts(2) [OF inv] p(1)] p(2) by (auto simp: can_transition_payment_iff)
    with q(4) True order_is_unique [OF ids] show ?thesis by fastforce
  qed (use q(4) in \<open>auto simp: is_iff\<close>)
  moreover have "pay_status q' = PaymentSucceeded \<and> rf_status f' \<noteq> RefundSucceeded \<or>
      pay_status q' = PaymentRefunded"
  proof (cases "q = p")
    case True
    then have "to = PaymentRefunded" using q(5) p(2) by (auto simp: can_transition_payment_iff)
    with True q' show ?thesis by simp
  next
    case False
    then have "rf_payment f \<noteq> pay_id p" using payment_unique [OF ids q(1) p(1)] q(2) by auto
    with False q(5) q' same show ?thesis by auto
  qed
  ultimately show "\<exists>q\<in>set (payments d'). pay_id q = rf_payment f' \<and> rf_amount f' = pay_amount q \<and>
      order_is (pay_order q) Cancelled d' \<and>
      (pay_status q = PaymentSucceeded \<and> rf_status f' \<noteq> RefundSucceeded \<or> pay_status q = PaymentRefunded)"
    using q q' same by metis
qed

lemma moved_return_inv:
  assumes inv: "books_inv d" and mv: "moved p to pr d d'" and same: "pr \<noteq> [] \<Longrightarrow> pay_status p = PaymentPending"
    and returned_to: "to = PaymentRefunded \<Longrightarrow> pr = [] \<and> (\<exists>x\<in>set (provider_refunds d). pay_provider p = Some (pr_charge x))"
  shows "return_inv d'"
  unfolding return_inv_def movedD(5) [OF mv]
proof (intro conjI ballI impI)
  note ids = books_parts(1) [OF inv] and rt = books_parts(5) [OF inv]
  note p = movedD(1,2) [OF mv]
  fix x assume "x \<in> set (provider_refunds d)"
  then obtain f q where f: "f \<in> set (refunds d)" "pr_key x = refund_key (rf_id f)" "pr_amount x = rf_amount f"
    and q: "q \<in> set (payments d)" "pay_id q = rf_payment f" "pay_provider q = Some (pr_charge x)"
    using return_invD(1) [OF rt] by blast
  obtain q' where q': "q' \<in> set (payments d')" "pay_id q' = pay_id q"
      "q \<noteq> p \<longrightarrow> q' = q" "q = p \<longrightarrow> q' = mark_payment to pr p"
    using moved_kept [OF ids mv q(1)] by blast
  have "pr = []" if "q = p"
  proof (rule ccontr)
    assume "pr \<noteq> []"
    with same have "pay_status p = PaymentPending" .
    then show False using refund_invE [OF books_parts(3) [OF inv] f(1)] payment_unique [OF ids p(1)] q that
      by (metis payment_status.distinct(1,3,5,7))
  qed
  then have "pay_provider q' = Some (pr_charge x)" using q q' by (cases "q = p") auto
  moreover obtain f' where "f' \<in> set (refunds d')" "rf_id f' = rf_id f" "rf_payment f' = rf_payment f"
      "rf_amount f' = rf_amount f"
    using moved_refunds(4) [OF mv f(1)] by blast
  ultimately show "\<exists>f\<in>set (refunds d'). \<exists>q\<in>set (payments d'). pr_key x = refund_key (rf_id f) \<and>
      pr_amount x = rf_amount f \<and> pay_id q = rf_payment f \<and> pay_provider q = Some (pr_charge x)"
    using f q q' by metis
next
  note ids = books_parts(1) [OF inv] and rt = books_parts(5) [OF inv]
  fix q assume "q \<in> set (payments d')" "pay_status q = PaymentRefunded"
  then show "\<exists>x\<in>set (provider_refunds d). pay_provider q = Some (pr_charge x)"
    using return_invD(2) [OF rt, of q] returned_to moved_member [OF ids mv] by auto
qed

lemma moved_books:
  assumes inv: "books_inv d" and mv: "moved p to pr d d'"
    and got: "to = PaymentSucceeded \<Longrightarrow> \<exists>c\<in>set (charges d). ch_status c = Charged \<and> ch_key c = pay_key p \<and>
        pr = charge_name (ch_id c)"
    and refused: "to = PaymentFailed \<Longrightarrow> \<exists>c\<in>set (charges d). ch_status c = Declined \<and> ch_key c = pay_key p"
    and gone: "to = PaymentRefunded \<Longrightarrow> \<exists>f\<in>set (refunds d). rf_payment f = pay_id p"
      "to = PaymentRefunded \<Longrightarrow> \<exists>x\<in>set (provider_refunds d). pay_provider p = Some (pr_charge x)"
    and bare: "to \<noteq> PaymentSucceeded \<Longrightarrow> pr = []"
  shows "books_inv d'"
proof -
  note p = movedD(1,2) [OF mv]
  have "ids_inv d'" "history_inv d'"
    using moved_books_core [OF inv p movedD(3) [OF mv]] movedD(4,5,6) [OF mv] moved_refunds(1,2) [OF mv] mv
    by (auto simp: moved_def)
  moreover have "order_inv d'"
    using moved_order_inv [OF inv mv] refunding_order [OF inv p(1)] gone(1) by blast
  moreover have "refund_inv d'" by (rule moved_refund_inv [OF inv mv])
  moreover have "charge_inv d'"
  proof (rule moved_charge_inv [OF inv mv])
    assume "to = PaymentSucceeded \<or> to = PaymentRefunded"
    then show "\<exists>c\<in>set (charges d). ch_status c = Charged \<and> ch_key c = pay_key p \<and>
        pay_provider (mark_payment to pr p) = Some (charge_name (ch_id c))"
    proof
      assume "to = PaymentSucceeded"
      with got show ?thesis by (fastforce simp: charge_name_def)
    next
      assume r: "to = PaymentRefunded"
      then have "pay_status p = PaymentSucceeded" using p(2) by (simp add: can_transition_payment_iff)
      with r bare charge_invD(1) [OF books_parts(4) [OF inv] p(1)] show ?thesis by auto
    qed
  qed (rule refused)
  moreover have "return_inv d'"
  proof (rule moved_return_inv [OF inv mv])
    assume "pr \<noteq> []"
    then have "to = PaymentSucceeded" using bare by blast
    then show "pay_status p = PaymentPending" using p(2) by (simp add: can_transition_payment_iff)
  next
    assume "to = PaymentRefunded"
    with bare gone(2)
    show "pr = [] \<and> (\<exists>x\<in>set (provider_refunds d). pay_provider p = Some (pr_charge x))" by simp
  qed
  ultimately show ?thesis by (simp add: books_inv_def)
qed

lemma paying_orders:
  assumes "ids_inv d" and "order_is oid Pending d" and "orders d' = update_where
    (\<lambda>r. o_id r = oid \<and> o_status r = Pending) (\<lambda>r. r\<lparr>o_status := Paid\<rparr>) (orders d)"
  shows "order_is x s d' \<longleftrightarrow> (if x = oid then s = Paid else order_is x s d)"
proof -
  have one: "o_status r = Pending" if "r \<in> set (orders d)" "o_id r = oid" for r
  proof -
    have "order_is oid (o_status r) d" using that by (auto simp: order_is_def)
    then show ?thesis using order_is_unique [OF assms(1)] assms(2) by blast
  qed
  obtain r0 where "r0 \<in> set (orders d)" "o_id r0 = oid" using assms(2) by (auto simp: order_is_def)
  then show ?thesis
    unfolding order_is_def assms(3) bex_update_iff using one by (auto split: if_splits)
qed

lemma settled_moves:
  assumes ids: "ids_inv d" and eff: "transition_eff pid to pr reason d () d'"
  obtains p where "pay_id p = pid" "moved p to pr d d'"
proof -
  obtain p where find: "List.find (\<lambda>p. pay_id p = pid) (payments d) = Some p"
    and can: "can_transition_payment (pay_status p) to"
    and pending: "to = PaymentSucceeded \<longrightarrow> order_is (pay_order p) Pending d"
    and d': "d' = transition_db p to pr reason d"
    using eff by (auto simp: transition_eff_def order_is_def)
  have p: "p \<in> set (payments d)" "pay_id p = pid" using find_Some_in [OF find] by auto
  have same: "charges d' = charges d" "provider_refunds d' = provider_refunds d"
      "refunds d' = map (\<lambda>f. f) (refunds d)"
    and oids: "map o_id (orders d') = map o_id (orders d)"
    and ev: "payment_events d' = payment_events d @
          [\<lparr>pe_payment = pay_id p, pe_from = Some (pay_status p), pe_to = to, pe_reason = reason\<rparr>]"
    and pays: "payments d' = update_where (\<lambda>q. pay_id q = pay_id p) (mark_payment to pr) (payments d)"
    by (simp_all add: d' transition_db_def Let_def map_update_where)
  have is_iff: "order_is x s d' \<longleftrightarrow>
      (if to = PaymentSucceeded \<and> x = pay_order p then s = Paid else order_is x s d)" for x s
  proof (cases "to = PaymentSucceeded")
    case True
    have "order_is x s d' \<longleftrightarrow> (if x = pay_order p then s = Paid else order_is x s d)"
      by (rule paying_orders [OF ids]) (use True pending in \<open>simp_all add: d' transition_db_def Let_def\<close>)
    with True show ?thesis by simp
  next
    case False
    then show ?thesis by (simp add: order_is_def d' transition_db_def Let_def)
  qed
  have "\<exists>e. payment_events d' = payment_events d @ [e] \<and> pe_payment e = pay_id p \<and> pe_to e = to"
    using ev by simp
  then have "moved p to pr d d'"
    unfolding moved_def
    by (intro conjI allI p can pays same(1,2) oids is_iff exI [of _ "\<lambda>f. f"]) (simp_all add: same)
  with p(2) show ?thesis by (rule that)
qed

lemma settled_books:
  assumes just: "justified pid to pr d" and eff: "transition_eff pid to pr reason d () d'"
    and inv: "books_inv d"
  shows "books_inv d'"
proof -
  obtain p where p: "pay_id p = pid" "moved p to pr d d'"
    using settled_moves [OF books_parts(1) [OF inv] eff] by blast
  obtain q where "q \<in> set (payments d)" "pay_id q = pid" and
    why: "to = PaymentSucceeded \<and> (\<exists>c\<in>set (charges d). ch_status c = Charged \<and> ch_key c = pay_key q \<and>
             pr = charge_name (ch_id c)) \<or>
         to = PaymentFailed \<and> pr = [] \<and>
           (\<exists>c\<in>set (charges d). ch_status c = Declined \<and> ch_key c = pay_key q) \<or>
         to = PaymentExpired \<and> pr = [] \<or>
         to = PaymentRefunded \<and> pr = [] \<and> (\<exists>f\<in>set (refunds d). rf_payment f = pid) \<and>
           (\<exists>x\<in>set (provider_refunds d). pay_provider q = Some (pr_charge x))"
    using just unfolding justified_def by blast
  then have "q = p" using payment_unique [OF books_parts(1) [OF inv]] movedD(1) [OF p(2)] p(1) by metis
  show ?thesis
    by (rule moved_books [OF inv p(2)]) (use why \<open>q = p\<close> p(1) in auto)
qed

section \<open>The provider\<close>

lemma charged_books:
  assumes key: "key \<noteq> []" and owner: "\<exists>p\<in>set (payments d). pay_key p = Some key \<and> pay_amount p = amount"
    and eff: "insert_charge oid amount status key n d = Inr (c, d')" and inv: "books_inv d"
  shows "books_inv d'"
proof -
  let ?c = "new_charge (serial n) oid amount status key (now d)"
  have new: "\<forall>c\<in>set (charges d). ch_id c \<noteq> serial n \<and> ch_key c \<noteq> Some key"
    and d': "d' = d\<lparr>charges := charges d @ [?c]\<rparr>"
    using eff key by (auto simp: insert_charge_sql)
  have same: "ids_inv d' \<longleftrightarrow> distinct (map ch_id (charges d')) \<and> distinct (map ch_key (charges d'))"
    using books_parts(1) [OF inv] by (auto simp: d' ids_inv_def)
  have "ids_inv d'" unfolding same using books_parts(1) [OF inv] new key by (auto simp: ids_inv_def d')
  moreover have "order_inv d'" using books_parts(2) [OF inv] by (simp add: d' order_inv_def order_is_def)
  moreover have "refund_inv d'" using books_parts(3) [OF inv] by (simp add: d' refund_inv_def order_is_def)
  moreover have "charge_inv d'"
    unfolding charge_inv_def
  proof (intro conjI ballI impI)
    note ch = books_parts(4) [OF inv]
    have mem: "c \<in> set (charges d') \<longleftrightarrow> c \<in> set (charges d) \<or> c = ?c" for c by (auto simp: d')
    fix p assume "p \<in> set (payments d')"
    then have p: "p \<in> set (payments d)" by (simp add: d')
    show "\<exists>c\<in>set (charges d'). ch_status c = Charged \<and> ch_key c = pay_key p \<and> ch_amount c = pay_amount p \<and>
        pay_provider p = Some (charge_name (ch_id c))" if "pay_status p = PaymentSucceeded \<or> pay_status p = PaymentRefunded"
      using charge_invD(1) [OF ch p that] mem by blast
    show "\<exists>c\<in>set (charges d'). ch_status c = Declined \<and> ch_key c = pay_key p" if "pay_status p = PaymentFailed"
      using charge_invD(2) [OF ch p that] mem by blast
  next
    fix c assume "c \<in> set (charges d')"
    then show "\<exists>p\<in>set (payments d'). pay_key p = ch_key c \<and> pay_amount p = ch_amount c"
      using charge_invD(3) [OF books_parts(4) [OF inv]] owner key by (auto simp: d')
  qed
  moreover have "return_inv d'" using books_parts(5) [OF inv] by (simp add: d' return_inv_def)
  moreover have "history_inv d'" using books_parts(6) [OF inv] by (simp add: d' history_inv_def history_def)
  ultimately show ?thesis by (simp add: books_inv_def)
qed

lemma returned_books:
  assumes why: "\<exists>f\<in>set (refunds d). \<exists>p\<in>set (payments d). rf_id f = rid \<and> rf_amount f = amount \<and>
      pay_id p = rf_payment f \<and> pay_provider p = Some cid"
    and eff: "insert_provider_refund (refund_key rid) cid amount n d = Inr (a, d')" and inv: "books_inv d"
  shows "books_inv d'"
proof -
  let ?x = "\<lparr>pr_id = serial n, pr_key = refund_key rid, pr_charge = cid, pr_amount = amount\<rparr>"
  have new: "\<forall>x\<in>set (provider_refunds d). pr_key x \<noteq> refund_key rid"
    and d': "d' = d\<lparr>provider_refunds := provider_refunds d @ [?x]\<rparr>"
    using eff by (auto simp: insert_provider_refund_sql)
  have "ids_inv d'" using books_parts(1) [OF inv] new by (auto simp: d' ids_inv_def)
  moreover have "order_inv d'" using books_parts(2) [OF inv] by (simp add: d' order_inv_def order_is_def)
  moreover have "refund_inv d'" using books_parts(3) [OF inv] by (simp add: d' refund_inv_def order_is_def)
  moreover have "charge_inv d'" using books_parts(4) [OF inv] by (simp add: d' charge_inv_def)
  moreover have "return_inv d'"
    unfolding return_inv_def
  proof (intro conjI ballI impI)
    fix x assume "x \<in> set (provider_refunds d')"
    then show "\<exists>f\<in>set (refunds d'). \<exists>p\<in>set (payments d'). pr_key x = refund_key (rf_id f) \<and>
        pr_amount x = rf_amount f \<and> pay_id p = rf_payment f \<and> pay_provider p = Some (pr_charge x)"
      using return_invD(1) [OF books_parts(5) [OF inv], of x] why by (fastforce simp: d')
  next
    fix p assume "p \<in> set (payments d')" "pay_status p = PaymentRefunded"
    then show "\<exists>x\<in>set (provider_refunds d'). pay_provider p = Some (pr_charge x)"
      using return_invD(2) [OF books_parts(5) [OF inv], of p] by (auto simp: d')
  qed
  moreover have "history_inv d'" using books_parts(6) [OF inv] by (simp add: d' history_inv_def history_def)
  ultimately show ?thesis by (simp add: books_inv_def)
qed

section \<open>The workers\<close>

text \<open>Bookkeeping on the refunds that neither adds one nor completes one.\<close>

lemma refund_rows_books:
  assumes inv: "books_inv d" and d': "d' = d\<lparr>refunds := map g (refunds d)\<rparr>"
    and same: "\<And>f. rf_id (g f) = rf_id f \<and> rf_payment (g f) = rf_payment f \<and> rf_amount (g f) = rf_amount f"
      "\<And>f. f \<in> set (refunds d) \<Longrightarrow> rf_status (g f) = RefundSucceeded \<Longrightarrow> rf_status f = RefundSucceeded \<or>
        (\<exists>p\<in>set (payments d). pay_id p = rf_payment f \<and> pay_status p = PaymentRefunded)"
  shows "books_inv d'"
proof -
  have maps: "map rf_id (refunds d') = map rf_id (refunds d)"
    "map rf_payment (refunds d') = map rf_payment (refunds d)" by (simp_all add: d' same(1))
  then have "rf_payment ` set (refunds d') = rf_payment ` set (refunds d)" by (metis set_map)
  then have "order_inv d'" using books_parts(2) [OF inv] by (simp add: d' order_inv_def order_is_def)
  moreover have "ids_inv d'" using books_parts(1) [OF inv] unfolding ids_inv_def maps by (simp add: d')
  moreover have "refund_inv d'"
    unfolding refund_inv_def
  proof
    fix f' assume "f' \<in> set (refunds d')"
    then obtain f where f: "f \<in> set (refunds d)" "f' = g f" by (auto simp: d')
    show "\<exists>p\<in>set (payments d'). pay_id p = rf_payment f' \<and> rf_amount f' = pay_amount p \<and>
        order_is (pay_order p) Cancelled d' \<and>
        (pay_status p = PaymentSucceeded \<and> rf_status f' \<noteq> RefundSucceeded \<or> pay_status p = PaymentRefunded)"
    proof (rule refund_invE [OF books_parts(3) [OF inv] f(1)])
      fix p
      assume p: "p \<in> set (payments d)" "pay_id p = rf_payment f" "rf_amount f = pay_amount p"
        "order_is (pay_order p) Cancelled d"
        "pay_status p = PaymentSucceeded \<and> rf_status f \<noteq> RefundSucceeded \<or> pay_status p = PaymentRefunded"
      have "pay_status p = PaymentSucceeded \<and> rf_status f' \<noteq> RefundSucceeded \<or> pay_status p = PaymentRefunded"
        using p(5) same(2) [OF f(1)] f(2) payment_unique [OF books_parts(1) [OF inv] _ p(1)] p(2) by metis
      with p f(2) same(1) show ?thesis by (intro bexI [of _ p]) (auto simp: d' order_is_def)
    qed
  qed
  moreover have "charge_inv d'" using books_parts(4) [OF inv] by (simp add: d' charge_inv_def)
  moreover have "return_inv d'"
    using books_parts(5) [OF inv] same(1) by (simp add: d' return_inv_def)
  moreover have "history_inv d'" using books_parts(6) [OF inv] by (simp add: d' history_inv_def history_def)
  ultimately show ?thesis by (simp add: books_inv_def)
qed

lemma refund_update_books:
  assumes inv: "books_inv d"
    and same: "\<And>f. rf_id (h f) = rf_id f \<and> rf_payment (h f) = rf_payment f \<and> rf_amount (h f) = rf_amount f"
      "\<And>f. rf_status (h f) = RefundSucceeded \<Longrightarrow> rf_status f = RefundSucceeded"
  shows "books_inv (d\<lparr>refunds := update_where P h (refunds d)\<rparr>)"
  unfolding update_where_def
  by (rule refund_rows_books [OF inv refl]) (use same in \<open>simp_all split: if_splits\<close>)

text \<open>The audit completes a refund only when the payment is refunded already.\<close>

lemma confirmed_books:
  assumes why: "\<exists>f\<in>set (refunds d). \<exists>p\<in>set (payments d). rf_id f = i \<and> pay_id p = rf_payment f \<and>
      pay_status p = PaymentRefunded"
    and eff: "confirm_refund i n d = Inr ((), d')" and inv: "books_inv d"
  shows "books_inv d'"
proof (rule refund_rows_books [OF inv])
  let ?g = "\<lambda>r. if rf_id r = i \<and> (rf_status r = RefundPending \<or> rf_status r = RefundManualReview)
    then confirm_row r else r"
  show "d' = d\<lparr>refunds := map ?g (refunds d)\<rparr>"
    using eff by (simp add: confirm_refund_def update_where_def)
  show "rf_id (?g f) = rf_id f \<and> rf_payment (?g f) = rf_payment f \<and> rf_amount (?g f) = rf_amount f" for f
    by (simp add: confirm_row_def)
  fix f assume f: "f \<in> set (refunds d)" "rf_status (?g f) = RefundSucceeded"
  show "rf_status f = RefundSucceeded \<or>
      (\<exists>p\<in>set (payments d). pay_id p = rf_payment f \<and> pay_status p = PaymentRefunded)"
  proof (cases "rf_id f = i")
    case True
    with why obtain g p where g: "g \<in> set (refunds d)" "rf_id g = rf_id f" "p \<in> set (payments d)"
      "pay_id p = rf_payment g" "pay_status p = PaymentRefunded" by auto
    then have "g = f" using refund_unique(2) [OF books_parts(1) [OF inv] _ f(1)] by blast
    with g show ?thesis by blast
  qed (use f in simp)
qed

lemma refund_bookkeeping:
  assumes inv: "books_inv d"
  shows "lease_refunds cfg locked n d = Inr (rs, d') \<Longrightarrow> books_inv d'"
    and "update_refund_later i t err n d = Inr ((), d') \<Longrightarrow> books_inv d'"
    and "update_refund_manual i err n d = Inr ((), d') \<Longrightarrow> books_inv d'"
proof -
  show "books_inv d'" if "lease_refunds cfg locked n d = Inr (rs, d')"
  proof -
    have "d' = d\<lparr>refunds := update_where (leased cfg locked d) (lease_refund cfg (now d)) (refunds d)\<rparr>"
      using that by (simp add: lease_refunds_def)
    then show ?thesis by (simp, intro refund_update_books [OF inv]) simp_all
  qed
  show "books_inv d'" if "update_refund_later i t err n d = Inr ((), d')"
  proof -
    have "d' = d\<lparr>refunds := update_where (refund_open i)
        (\<lambda>r. r\<lparr>rf_next := now d + t, rf_error := Some err\<rparr>) (refunds d)\<rparr>"
      using that by (simp add: update_refund_later_def)
    then show ?thesis by (simp, intro refund_update_books [OF inv]) simp_all
  qed
  show "books_inv d'" if "update_refund_manual i err n d = Inr ((), d')"
  proof -
    have "d' = d\<lparr>refunds := update_where (refund_open i)
        (\<lambda>r. r\<lparr>rf_status := RefundManualReview, rf_error := Some err\<rparr>) (refunds d)\<rparr>"
      using that by (simp add: update_refund_manual_def)
    then show ?thesis by (simp, intro refund_update_books [OF inv]) simp_all
  qed
qed

text \<open>The worker's success is a move of the payment.\<close>

lemma refunded_moves:
  assumes inv: "books_inv d" and f: "f \<in> set (refunds d)" "rf_id f = dr_id r" "rf_payment f = dr_payment r"
    and eff: "refunded_eff r c d () d'"
  obtains p where "pay_id p = dr_payment r" "moved p PaymentRefunded [] d d'"
proof -
  note ids = books_parts(1) [OF inv]
  obtain p where find: "List.find (\<lambda>p. pay_id p = dr_payment r) (payments d) = Some p"
    and st: "pay_status p = PaymentSucceeded" and d': "d' = refunded_db r c (pay_status p) d"
    using eff by (auto simp: refunded_eff_def)
  have p: "p \<in> set (payments d)" "pay_id p = dr_payment r" using find_Some_in [OF find] by auto
  have mark: "mark_payment PaymentRefunded [] = (\<lambda>p. p\<lparr>pay_status := PaymentRefunded\<rparr>)"
    by (simp add: fun_eq_iff mark_payment_def null_if_empty_def)
  have can: "can_transition_payment (pay_status p) PaymentRefunded"
    using st by (simp add: can_transition_payment_iff)
  have ev: "\<exists>e. payment_events d' = payment_events d @ [e] \<and> pe_payment e = pay_id p \<and> pe_to e = PaymentRefunded"
    using p(2) by (simp add: d' refunded_db_def)
  have pays: "payments d' = update_where (\<lambda>q. pay_id q = pay_id p) (mark_payment PaymentRefunded []) (payments d)"
    and same: "charges d' = charges d" "provider_refunds d' = provider_refunds d"
      "map o_id (orders d') = map o_id (orders d)"
    using p(2) by (simp_all add: d' refunded_db_def mark)
  have is_iff: "order_is x s d' \<longleftrightarrow>
      (if PaymentRefunded = PaymentSucceeded \<and> x = pay_order p then s = Paid else order_is x s d)" for x s
    by (simp add: order_is_def d' refunded_db_def)
  let ?g = "\<lambda>f. if refund_open (dr_id r) f then settle_refund c f else f"
  have refs: "refunds d' = map ?g (refunds d)" by (simp add: d' refunded_db_def update_where_def)
  have own: "rf_payment g = pay_id p" if "g \<in> set (refunds d)" "rf_id g = dr_id r" for g
    using refund_unique(2) [OF ids that(1) f(1)] that f p(2) by simp
  have "moved p PaymentRefunded [] d d'"
    unfolding moved_def
    by (intro conjI allI p can pays same ev is_iff exI [of _ ?g] refs) (use own in auto)
  with p(2) show ?thesis by (rule that)
qed

lemma refunded_books:
  assumes f: "\<exists>f\<in>set (refunds d). rf_id f = dr_id r \<and> rf_payment f = dr_payment r"
    and x: "\<exists>x\<in>set (provider_refunds d). pr_key x = refund_key (dr_id r)"
    and eff: "refunded_eff r c d () d'" and inv: "books_inv d"
  shows "books_inv d'"
proof -
  note ids = books_parts(1) [OF inv]
  obtain f where f: "f \<in> set (refunds d)" "rf_id f = dr_id r" "rf_payment f = dr_payment r" using f by blast
  obtain p where p: "pay_id p = dr_payment r" "moved p PaymentRefunded [] d d'"
    using refunded_moves [OF inv f eff] by blast
  obtain x where x: "x \<in> set (provider_refunds d)" "pr_key x = refund_key (dr_id r)" using x by blast
  then obtain g q where g: "g \<in> set (refunds d)" "pr_key x = refund_key (rf_id g)"
    and q: "q \<in> set (payments d)" "pay_id q = rf_payment g" "pay_provider q = Some (pr_charge x)"
    using return_invD(1) [OF books_parts(5) [OF inv]] by blast
  have "g = f" using refund_unique(2) [OF ids g(1) f(1)] g(2) x(2) f(2) by simp
  then have "q = p" using payment_unique [OF ids q(1) movedD(1) [OF p(2)]] q(2) f(3) p(1) by simp
  show ?thesis
    by (rule moved_books [OF inv p(2)]) (use f p(1) x(1) q(3) \<open>q = p\<close> in auto)
qed

lemma booked_books:
  assumes "books_only d d'" and inv: "books_inv d"
  shows "books_inv d'"
proof -
  obtain h where core: "\<And>p. pay_core (h p) = pay_core p" and d': "d' = d\<lparr>payments := map h (payments d)\<rparr>"
    using assms(1) by (auto simp: books_only_def)
  have h [simp]: "pay_id (h p) = pay_id p" "pay_order (h p) = pay_order p" "pay_amount (h p) = pay_amount p"
    "pay_status (h p) = pay_status p" "pay_provider (h p) = pay_provider p" "pay_key (h p) = pay_key p" for p
    using core [of p] by (auto simp: pay_core_def)
  have [simp]: "pay_id \<circ> h = pay_id" "pay_key \<circ> h = pay_key" by (simp_all add: fun_eq_iff)
  have is_iff: "order_is x s d' \<longleftrightarrow> order_is x s d" for x s by (simp add: order_is_def d')
  have hist: "history x d' = history x d" for x by (simp add: history_def d')
  have "ids_inv d'" using books_parts(1) [OF inv] by (simp add: d' ids_inv_def)
  moreover have "order_inv d'"
    using books_parts(2) [OF inv] unfolding order_inv_def is_iff by (simp add: d') blast
  moreover have "refund_inv d'" using books_parts(3) [OF inv] unfolding refund_inv_def is_iff by (simp add: d')
  moreover have "charge_inv d'" using books_parts(4) [OF inv] by (simp add: d' charge_inv_def)
  moreover have "return_inv d'" using books_parts(5) [OF inv] by (simp add: d' return_inv_def)
  moreover have "history_inv d'"
    using books_parts(6) [OF inv] unfolding history_inv_def hist by (simp add: d' image_image)
  ultimately show ?thesis by (simp add: books_inv_def)
qed

lemma outbox_frames:
  shows "batch_eff locked write d x d' \<Longrightarrow> orders d' = orders d \<and> money_tables d' = money_tables d"
    and "orders (move_exhausted ids err d) = orders d \<and> money_tables (move_exhausted ids err d) = money_tables d"
    and "delete_expired cutoff n d = Inr (a, d') \<Longrightarrow> orders d' = orders d \<and> money_tables d' = money_tables d"
  by (auto simp: batch_eff_def mark_published_def mark_poisoned_def move_exhausted_def delete_expired_def
      money_tables_def split: if_splits)

section \<open>The invariant of the service\<close>

lemma step_books: "sys_step d d' \<Longrightarrow> books_inv d \<Longrightarrow> books_inv d'"
proof (induction rule: sys_step.induct)
  case (placed items key d r d')
  then show ?case by (blast intro: placed_books)
next
  case (cancelled oid d r d')
  then show ?case by (blast intro: cancelled_books)
next
  case (started key oid d r d')
  then show ?case by (blast intro: started_books)
next
  case (settled pid to pr d reason d')
  then show ?case by (blast intro: settled_books)
next
  case (charged key d amount oid status n c d')
  then show ?case by (blast intro: charged_books)
next
  case (returned d rid amount cid n a d')
  then show ?case by (blast intro: returned_books)
next
  case (refunded d r c d')
  then show ?case by (blast intro: refunded_books)
next
  case (booked d d')
  then show ?case by (blast intro: booked_books)
next
  case (relayed locked wr d x d')
  then show ?case using outbox_frames(1) books_inv_cong by blast
next
  case (dead_lettered d ids err)
  then show ?case using outbox_frames(2) books_inv_cong by blast
next
  case (cleaned cutoff n d a d')
  then show ?case using outbox_frames(3) books_inv_cong by blast
next
  case (request_claimed key hash d c d')
  then show ?case by (auto intro: books_inv_cong simp: money_tables_def dest!: claim_frame)
next
  case (request_released key n d d')
  then show ?case by (auto simp: release_request_def money_tables_def intro: books_inv_cong)
next
  case (request_answered code key body d n d')
  then show ?case by (auto simp: complete_request_def money_tables_def intro: books_inv_cong)
next
  case (lease_taken every name n d a d')
  then show ?case by (auto simp: update_lease_def Let_def money_tables_def intro: books_inv_cong)
next
  case (refund_confirmed d i n d')
  then show ?case by (blast intro: confirmed_books)
next
  case (refund_leased cfg locked n d rs d')
  then show ?case by (blast intro: refund_bookkeeping)
next
  case (refund_later i t err n d d')
  then show ?case by (blast intro: refund_bookkeeping)
next
  case (refund_manual i err n d d')
  then show ?case by (blast intro: refund_bookkeeping)
qed (erule books_inv_cong; simp add: money_tables_def)+

text \<open>The service starts on its migrated database: products, and the lease the migration inserts.\<close>

definition initial_db :: "database \<Rightarrow> bool" where
  "initial_db d \<longleftrightarrow> (\<exists>ps t. distinct (map p_id ps) \<and> (\<forall>p\<in>set ps. 0 \<le> p_stock p) \<and>
     d = empty_db\<lparr>now := t, products := ps, job_leases := [\<lparr>jl_name = ''reconciliation'', jl_next = t\<rparr>]\<rparr>)"

lemma initial_books: "initial_db d \<Longrightarrow> books_inv d"
  by (auto simp: initial_db_def empty_db_def books_inv_def books_defs order_is_def)

interpretation books_machine: invariant initial_db sys_step books_inv
  by unfold_locales (auto intro: initial_books step_books)

end
