(* ===== verification/System.thy ===== *)
theory System
  imports Books
begin

text \<open>
  The code makes only the steps of \<open>sys_step\<close>. Each operation of the service is run against an
  arbitrary environment that takes such steps too (other requests, other replicas, the workers), with
  arbitrary failures of single calls; it never breaks \<open>books_inv\<close>, and what it reports is true of
  the database. \<open>paying\<close> is the interpretation of \<open>payment_deps\<close> on the repository and the provider.
\<close>

section \<open>What lasts\<close>

text \<open>A payment row at two times.\<close>

definition later :: "payment \<Rightarrow> payment \<Rightarrow> bool" where
  "later p q \<longleftrightarrow> pay_id q = pay_id p \<and> pay_order q = pay_order p \<and> pay_amount q = pay_amount p \<and>
     pay_key q = pay_key p \<and> can_transition_payment\<^sup>*\<^sup>* (pay_status p) (pay_status q) \<and>
     (pay_status p \<noteq> PaymentPending \<longrightarrow> pay_provider q = pay_provider p)"

definition payments_last :: "database \<Rightarrow> database \<Rightarrow> bool" where
  "payments_last d d' \<longleftrightarrow> (\<forall>p\<in>set (payments d). \<exists>q\<in>set (payments d'). later p q)"

lemma never_pending_again:
  "can_transition_payment\<^sup>*\<^sup>* s t \<Longrightarrow> s \<noteq> PaymentPending \<Longrightarrow> t \<noteq> PaymentPending"
  by (induction rule: rtranclp_induct) (auto simp: can_transition_payment_iff)

lemma later_refl [simp]: "later p p"
  by (simp add: later_def)

lemma payments_last_same: "payments d' = payments d \<Longrightarrow> payments_last d d'"
  by (auto simp: payments_last_def intro: later_refl)

lemma moved_last:
  assumes inv: "books_inv d" and mv: "moved p to pr d d'" and pr: "pr \<noteq> [] \<Longrightarrow> pay_status p = PaymentPending"
  shows "payments_last d d'"
  unfolding payments_last_def
proof
  fix q assume "q \<in> set (payments d)"
  then obtain q' where q': "q' \<in> set (payments d')" "q \<noteq> p \<longrightarrow> q' = q" "q = p \<longrightarrow> q' = mark_payment to pr p"
    using moved_kept [OF books_parts(1) [OF inv] mv] by blast
  have "later p (mark_payment to pr p)"
    using movedD(2) [OF mv] pr by (cases "pr = []") (auto simp: later_def)
  with q' show "\<exists>q'\<in>set (payments d'). later q q'" by (metis later_refl)
qed

lemma step_payments:
  assumes "sys_step d d'" and inv: "books_inv d"
  shows "payments_last d d'"
  using assms(1)
proof (cases rule: sys_step.cases)
  case (settled pid to pr reason)
  then obtain p where p: "pay_id p = pid" "moved p to pr d d'"
    using settled_moves [OF books_parts(1) [OF inv]] by blast
  have "pay_status p = PaymentPending" if "pr \<noteq> []"
    using settled(1) that movedD(2) [OF p(2)] by (auto simp: justified_def can_transition_payment_iff)
  then show ?thesis by (rule moved_last [OF inv p(2)])
next
  case (refunded r c)
  then obtain p where "moved p PaymentRefunded [] d d'" using refunded_moves [OF inv] by blast
  then show ?thesis by (rule moved_last [OF inv]) simp
next
  case booked
  then show ?thesis by (force simp: books_only_def payments_last_def pay_core_def later_def)
next
  case (started key oid r)
  then show ?thesis by (fastforce simp: start_eff_def start_db_def payments_last_def)
next
  case (placed items key r)
  then show ?thesis using placed_frame(1) by (intro payments_last_same) (simp add: money_tables_eq)
next
  case (cancelled oid r)
  then have "payments d' = payments d"
    using cancel_db_money [of oid d, unfolded money_tables_eq]
    by (auto simp: cancel_eff_def refund_eff_def split: option.splits if_splits)
  then show ?thesis by (rule payments_last_same)
next
  case relayed
  then show ?thesis using outbox_frames(1) by (intro payments_last_same) (simp add: money_tables_eq)
next
  case (dead_lettered ids err)
  then show ?thesis using outbox_frames(2) by (intro payments_last_same) (simp add: money_tables_eq)
next
  case cleaned
  then show ?thesis using outbox_frames(3) by (intro payments_last_same) (simp add: money_tables_eq)
next
  case (request_claimed key hash c)
  then show ?thesis using claim_frame by (fastforce intro: payments_last_same)
next
  case (request_released key n)
  then show ?thesis using request_frames(1) by (fastforce intro: payments_last_same)
next
  case (request_answered code key body n)
  then show ?thesis using request_frames(2) by (fastforce intro: payments_last_same)
qed (auto simp: payments_last_same insert_charge_sql insert_provider_refund_sql lease_refunds_def
    update_refund_later_def update_refund_manual_def confirm_refund_def update_lease_def Let_def)

lemma later_trans: "later p q \<Longrightarrow> later q r \<Longrightarrow> later p r"
proof -
  assume pq: "later p q" and qr: "later q r"
  have "pay_status q \<noteq> PaymentPending" if "pay_status p \<noteq> PaymentPending"
    using pq that never_pending_again by (auto simp: later_def)
  moreover have "can_transition_payment\<^sup>*\<^sup>* (pay_status p) (pay_status r)"
    using pq qr by (auto simp: later_def intro: rtranclp_trans)
  ultimately show ?thesis using pq qr by (simp add: later_def)
qed

lemma payments_last_steps: "sys_step\<^sup>*\<^sup>* d d' \<Longrightarrow> books_inv d \<Longrightarrow> payments_last d d'"
proof (induction rule: rtranclp_induct)
  case (step d1 d2)
  then have "payments_last d d1" "payments_last d1 d2"
    using step_payments books_machine.inv_steps by blast+
  then show ?case unfolding payments_last_def by (meson later_trans)
qed (simp add: payments_last_same)

text \<open>The provider's journal only grows; a refund keeps its payment and its amount.\<close>

definition same_refund :: "refund \<Rightarrow> refund \<Rightarrow> bool" where
  "same_refund f g \<longleftrightarrow> rf_id g = rf_id f \<and> rf_payment g = rf_payment f \<and> rf_amount g = rf_amount f"

definition journal_grows :: "database \<Rightarrow> database \<Rightarrow> bool" where
  "journal_grows d d' \<longleftrightarrow> set (charges d) \<subseteq> set (charges d') \<and>
     set (provider_refunds d) \<subseteq> set (provider_refunds d') \<and>
     (\<forall>f\<in>set (refunds d). \<exists>g\<in>set (refunds d'). same_refund f g)"

lemma same_refund_refl [simp]: "same_refund f f"
  by (simp add: same_refund_def)

lemma journal_same:
  "charges d' = charges d \<Longrightarrow> provider_refunds d' = provider_refunds d \<Longrightarrow> refunds d' = refunds d \<Longrightarrow>
   journal_grows d d'"
  by (auto simp: journal_grows_def intro: same_refund_refl)

lemma journal_update:
  "f \<in> set fs \<Longrightarrow> same_refund f (h f) \<Longrightarrow> \<exists>g\<in>set (update_where P h fs). same_refund f g"
  unfolding bex_update_iff by (metis same_refund_refl)

lemma same_refund_updates [simp]:
  "same_refund f (lease_refund cfg t f)" "same_refund f (settle_refund c f)"
  "same_refund f (f\<lparr>rf_next := t, rf_error := err\<rparr>)" "same_refund f (f\<lparr>rf_status := s, rf_error := err\<rparr>)"
  "same_refund f (confirm_row f)"
  by (simp_all add: same_refund_def confirm_row_def)

lemma step_journal:
  assumes "sys_step d d'"
  shows "journal_grows d d'"
  using assms
proof (cases rule: sys_step.cases)
  case (placed items key r)
  then show ?thesis using placed_frame(1) by (intro journal_same) (simp_all add: money_tables_eq)
next
  case (cancelled oid r)
  then show ?thesis
    using cancel_db_money [of oid d, unfolded money_tables_eq]
    by (auto simp: cancel_eff_def refund_eff_def journal_grows_def split: option.splits if_splits
        intro: same_refund_refl)
next
  case (settled pid to pr reason)
  then show ?thesis
    by (intro journal_same) (auto simp: transition_eff_def transition_db_def Let_def)
next
  case (refund_leased cfg locked n rs)
  then show ?thesis
    by (auto simp: journal_grows_def lease_refunds_def intro!: journal_update)
next
  case (refund_later i t err n)
  then show ?thesis
    by (auto simp: journal_grows_def update_refund_later_def intro!: journal_update)
next
  case (refund_manual i err n)
  then show ?thesis
    by (auto simp: journal_grows_def update_refund_manual_def intro!: journal_update)
next
  case (refund_confirmed i n)
  then show ?thesis
    by (auto simp: journal_grows_def confirm_refund_def intro!: journal_update)
next
  case (refunded r c)
  then show ?thesis
    by (auto simp: journal_grows_def refunded_eff_def refunded_db_def intro!: journal_update)
next
  case relayed
  then show ?thesis using outbox_frames(1) by (intro journal_same) (simp_all add: money_tables_eq)
next
  case (dead_lettered ids err)
  then show ?thesis using outbox_frames(2) by (intro journal_same) (simp_all add: money_tables_eq)
next
  case cleaned
  then show ?thesis using outbox_frames(3) by (intro journal_same) (simp_all add: money_tables_eq)
next
  case (request_claimed key hash c)
  then show ?thesis using claim_frame by (fastforce intro: journal_same)
next
  case (request_released key n)
  then show ?thesis using request_frames(1) by (fastforce intro: journal_same)
next
  case (request_answered code key body n)
  then show ?thesis using request_frames(2) by (fastforce intro: journal_same)
qed (auto simp: insert_charge_sql insert_provider_refund_sql start_eff_def start_db_def books_only_def
    update_lease_def Let_def journal_grows_def intro: same_refund_refl)

section \<open>Assertions that last\<close>

definition open_payment :: "string \<Rightarrow> payment_info \<Rightarrow> database \<Rightarrow> bool" where
  "open_payment key p d \<longleftrightarrow> key \<noteq> [] \<and>
     (\<exists>q\<in>set (payments d). pay_id q = pi_id p \<and> pay_key q = Some key \<and> pay_amount q = pi_amount p)"

lemma stable_books: "stable sys_step books_inv"
  by (rule stableI) (rule step_books)

lemma books_stableI:
  "(\<And>d d'. books_inv d \<Longrightarrow> P d \<Longrightarrow> payments_last d d' \<Longrightarrow> journal_grows d d' \<Longrightarrow> P d') \<Longrightarrow>
   stable sys_step (\<lambda>d. books_inv d \<and> P d)"
  by (rule stableI) (use step_books step_payments step_journal in blast)

lemma open_payment_lasts: "open_payment key p d \<Longrightarrow> payments_last d d' \<Longrightarrow> open_payment key p d'"
  unfolding open_payment_def payments_last_def later_def by metis

lemma has_charge_lasts: "has_charge key amount c d \<Longrightarrow> journal_grows d d' \<Longrightarrow> has_charge key amount c d'"
  unfolding has_charge_def journal_grows_def by blast

lemma has_decline_lasts: "has_decline key d \<Longrightarrow> journal_grows d d' \<Longrightarrow> has_decline key d'"
  unfolding has_decline_def journal_grows_def by blast

lemma settled_stays:
  "can_transition_payment\<^sup>*\<^sup>* s t \<Longrightarrow> s = PaymentSucceeded \<or> s = PaymentRefunded \<Longrightarrow>
   t = PaymentSucceeded \<or> t = PaymentRefunded"
  by (induction rule: rtranclp_induct) (auto simp: can_transition_payment_iff)

lemma received_lasts:
  assumes "received key c d" "payments_last d d'" "journal_grows d d'"
  shows "received key c d'"
proof -
  obtain p where p: "p \<in> set (payments d)" "pay_key p = Some key" "pay_provider p = Some c"
    "pay_status p = PaymentSucceeded \<or> pay_status p = PaymentRefunded" "has_charge key (pay_amount p) c d"
    using assms(1) by (auto simp: received_def)
  obtain q where q: "q \<in> set (payments d')" "later p q" using assms(2) p(1) by (auto simp: payments_last_def)
  then have "pay_status q = PaymentSucceeded \<or> pay_status q = PaymentRefunded"
    using p(4) settled_stays by (auto simp: later_def)
  moreover have "pay_provider q = Some c" using q(2) p(3,4) by (auto simp: later_def)
  moreover have "has_charge key (pay_amount q) c d'"
    using has_charge_lasts [OF p(5) assms(3)] q(2) by (simp add: later_def)
  ultimately show ?thesis using q p(2) by (auto simp: received_def later_def)
qed

lemma stable_open: "stable sys_step (\<lambda>d. books_inv d \<and> open_payment key p d)"
  by (rule books_stableI) (rule open_payment_lasts)

lemma stable_open_charged:
  "stable sys_step (\<lambda>d. books_inv d \<and> open_payment key p d \<and> has_charge key amount c d)"
  by (rule books_stableI) (use open_payment_lasts has_charge_lasts in blast)

lemma stable_open_declined: "stable sys_step (\<lambda>d. books_inv d \<and> open_payment key p d \<and> has_decline key d)"
  by (rule books_stableI) (use open_payment_lasts has_decline_lasts in blast)

lemma stable_received: "stable sys_step (\<lambda>d. books_inv d \<and> received key c d)"
  by (rule books_stableI) (rule received_lasts)

section \<open>The operations make only these steps\<close>

text \<open>One transaction: a step or nothing; an error leaves what lasts.\<close>

lemma runs_step:
  assumes once: "once m R F" and stable: "stable sys_step (\<lambda>d. books_inv d \<and> P d)"
    and guar: "\<And>d a d'. books_inv d \<Longrightarrow> P d \<Longrightarrow> R d a d' \<Longrightarrow> sys_step\<^sup>*\<^sup>* d d' \<and> (books_inv d' \<longrightarrow> Q a d')"
  shows "runs sys_step V (\<lambda>d. books_inv d \<and> P d) m (\<lambda>a d. books_inv d \<and> Q a d) (\<lambda>e d. books_inv d \<and> P d)"
proof (rule runs_once [OF once stable])
  fix d a d' and e :: gerr
  assume P: "books_inv d \<and> P d" and R: "R d a d'"
  then show "sys_step\<^sup>*\<^sup>* d d'" using guar by blast
  from this P have "books_inv d'" using books_machine.inv_steps by blast
  with guar P R show "books_inv d' \<and> Q a d'" by blast
  show "books_inv d' \<and> P d'" using stableD [OF stable P \<open>sys_step\<^sup>*\<^sup>* d d'\<close>] .
qed auto

lemma runs_step_plain:
  assumes "once m R F"
    and "\<And>d a d'. books_inv d \<Longrightarrow> R d a d' \<Longrightarrow> sys_step\<^sup>*\<^sup>* d d' \<and> (books_inv d' \<longrightarrow> Q a d')"
  shows "runs sys_step V books_inv m (\<lambda>a d. books_inv d \<and> Q a d) (\<lambda>e d. books_inv d)"
  using runs_step [OF assms(1), of "\<lambda>_. True"] assms(2) stable_books by simp

lemma payment_found:
  assumes inv: "books_inv d" and key: "key \<noteq> []"
    and find: "List.find (\<lambda>p. pay_key p = Some key) (payments d) = Some q"
  shows "open_payment key (payment_info_of q) d"
    and "pay_status q = PaymentSucceeded \<Longrightarrow> received key (pi_provider (payment_info_of q)) d"
proof -
  have q: "q \<in> set (payments d)" "pay_key q = Some key" using find_Some_in [OF find] by auto
  then show "open_payment key (payment_info_of q) d"
    using key by (auto simp: open_payment_def payment_info_of_def)
  assume st: "pay_status q = PaymentSucceeded"
  with q charge_invD(1) [OF books_parts(4) [OF inv] q(1)]
  show "received key (pi_provider (payment_info_of q)) d"
    unfolding received_def has_charge_def
    by (intro bexI [of _ q]) (auto simp: payment_info_of_def)
qed

lemma runs_by_key:
  assumes "key \<noteq> []"
  shows "runs sys_step V books_inv (by_key key)
    (\<lambda>p d. books_inv d \<and> open_payment key p d \<and>
       (pi_status p = PaymentSucceeded \<longrightarrow> received key (pi_provider p) d)) (\<lambda>e d. books_inv d)"
  unfolding by_key_def
  by (rule runs_step_plain [OF once_performs [OF performs_stmt]])
    (use payment_found [OF _ assms] in \<open>auto simp: sql_simps payment_info_of_def\<close>)

lemma runs_start:
  assumes "key \<noteq> []"
  shows "runs sys_step V books_inv (start oid key)
    (\<lambda>r d. books_inv d \<and> open_payment key \<lparr>pi_id = fst r, pi_amount = snd r, pi_status = PaymentPending,
       pi_provider = []\<rparr> d) (\<lambda>e d. books_inv d)"
proof (rule runs_step_plain [OF once_performs [OF performs_start]])
  fix d d' and r :: "int \<times> money"
  assume eff: "start_eff oid key d r d'"
  then have "sys_step d d'" by (rule started [OF assms])
  then show "sys_step\<^sup>*\<^sup>* d d' \<and> (books_inv d' \<longrightarrow> open_payment key
      \<lparr>pi_id = fst r, pi_amount = snd r, pi_status = PaymentPending, pi_provider = []\<rparr> d')"
    using eff assms by (auto simp: start_eff_def start_db_def open_payment_def null_if_empty_def)
qed

lemma runs_start_or_resume:
  assumes "key \<noteq> []"
  shows "runs sys_step V books_inv (start_or_resume oid key)
    (\<lambda>p d. books_inv d \<and> open_payment key p d \<and>
       (pi_status p = PaymentSucceeded \<longrightarrow> received key (pi_provider p) d)) (\<lambda>e d. books_inv d)"
proof -
  have fresh: "runs sys_step V books_inv
      (attempt (start oid key)
        (\<lambda>err. if is_unique_violation err ''payments_idempotency_key'' then by_key key else fail err)
        (\<lambda>(pid, amount). ret \<lparr>pi_id = pid, pi_amount = amount, pi_status = PaymentPending, pi_provider = []\<rparr>))
      (\<lambda>p d. books_inv d \<and> open_payment key p d \<and>
         (pi_status p = PaymentSucceeded \<longrightarrow> received key (pi_provider p) d)) (\<lambda>e d. books_inv d)"
    by (rule runs_attempt [OF runs_start [OF assms]])
      (auto intro!: runs_if runs_by_key [OF assms] runs_fail runs_ret split: prod.splits)
  show ?thesis
    unfolding start_or_resume_def Let_def
    by (intro runs_if) (use assms in \<open>auto intro!: runs_attempt [OF runs_by_key] runs_fail runs_ret runs_if fresh\<close>)
qed

lemma foreign_not: "foreign e \<Longrightarrow> \<not> errors_is e (Sentinel s)"
  by (simp add: foreign_def)

lemma errors_is_provider_error [simp]: "errors_is (provider_error e) (Sentinel s) = errors_is e (Sentinel s)"
  by (simp add: provider_error_def)

lemma runs_is_down:
  assumes "stable S P"
  shows "runs S V P is_down (\<lambda>_. P) (\<lambda>_ _. False)"
  unfolding is_down_def
proof (rule runs_attempt)
  show "runs S V P (stmt select_down) (\<lambda>_. P) (\<lambda>_. P)"
    by (rule runs_stmt [OF assms]) (auto simp: sql_simps)
qed (auto intro: runs_ret)

definition charge_made :: "string \<Rightarrow> money \<Rightarrow> int \<times> charge_state \<Rightarrow> database \<Rightarrow> bool" where
  "charge_made key amount r d \<longleftrightarrow>
     (\<exists>ch\<in>set (charges d). ch_id ch = fst r \<and> ch_status ch = snd r \<and> ch_key ch = Some key \<and>
        ch_amount ch = amount)"

lemma insert_charge_error:
  "insert_charge oid amount status key n d = Inl e \<Longrightarrow> \<not> errors_is e (Sentinel s)"
  by (auto simp: insert_charge_def encode_error_def numeric_overflow_def unique_violation_def split: if_splits)

lemma insert_charge_step:
  assumes p: "open_payment key p d" and eff: "insert_charge oid (pi_amount p) status key n d = Inr (c, d')"
  shows "sys_step d d'" and "charge_made key (pi_amount p) (c, status) d'"
proof -
  have "key \<noteq> []" "\<exists>q\<in>set (payments d). pay_key q = Some key \<and> pay_amount q = pi_amount p"
    using p by (auto simp: open_payment_def)
  then show "sys_step d d'" using eff by (rule charged)
  show "charge_made key (pi_amount p) (c, status) d'"
    using eff \<open>key \<noteq> []\<close> by (auto simp: insert_charge_sql charge_made_def)
qed

lemma runs_insert_charge:
  "runs sys_step V (\<lambda>d. books_inv d \<and> open_payment key p d)
     (stmt (insert_charge oid (pi_amount p) status key))
     (\<lambda>c d. books_inv d \<and> open_payment key p d \<and> charge_made key (pi_amount p) (c, status) d)
     (\<lambda>e d. books_inv d \<and> open_payment key p d \<and> \<not> errors_is e (Sentinel ErrDeclined))"
proof (rule runs_stmt [OF stable_open])
  fix n d c d' and e :: gerr
  assume P: "books_inv d \<and> open_payment key p d"
    and eff: "insert_charge oid (pi_amount p) status key n d = Inr (c, d')"
  note st = insert_charge_step [OF conjunct2 [OF P] eff]
  then have P': "books_inv d' \<and> open_payment key p d'"
    using stableD [OF stable_open P] by blast
  with st show "sys_step\<^sup>*\<^sup>* d d' \<and> books_inv d' \<and> open_payment key p d' \<and>
      charge_made key (pi_amount p) (c, status) d'" by blast
  show "books_inv d' \<and> open_payment key p d' \<and> \<not> errors_is e (Sentinel ErrDeclined)" if "foreign e"
    using P' foreign_not [OF that] by blast
qed (auto simp: foreign_not dest: insert_charge_error)

lemma runs_select_charge:
  "runs sys_step V (\<lambda>d. books_inv d \<and> open_payment key p d) (stmt (select_charge key))
     (\<lambda>r d. books_inv d \<and> open_payment key p d \<and> charge_made key (pi_amount p) r d)
     (\<lambda>e d. books_inv d \<and> open_payment key p d \<and> \<not> errors_is e (Sentinel ErrDeclined))"
proof (rule runs_stmt [OF stable_open])
  fix n d r d'
  assume P: "books_inv d \<and> open_payment key p d" and sel: "select_charge key n d = Inr (r, d')"
  then obtain ch where ch: "ch \<in> set (charges d)" "ch_key ch = Some key" "r = (ch_id ch, ch_status ch)" "d' = d"
    by (auto simp: sql_simps dest: find_Some_in)
  obtain q where "q \<in> set (payments d)" "pay_key q = Some key" "pay_amount q = pi_amount p"
    using P by (auto simp: open_payment_def)
  then have "ch_amount ch = pi_amount p"
    using charge_amount [of d ch q] P ch by (simp add: books_inv_def)
  with P ch show "sys_step\<^sup>*\<^sup>* d d' \<and> books_inv d' \<and> open_payment key p d' \<and> charge_made key (pi_amount p) r d'"
    by (auto simp: charge_made_def)
qed (auto simp: foreign_not sql_simps)

lemma runs_charge:
  "runs sys_step V (\<lambda>d. books_inv d \<and> open_payment key p d) (charge unlucky key oid (pi_amount p))
     (\<lambda>c d. books_inv d \<and> open_payment key p d \<and> has_charge key (pi_amount p) c d)
     (\<lambda>e d. books_inv d \<and> open_payment key p d \<and> (errors_is e (Sentinel ErrDeclined) \<longrightarrow> has_decline key d))"
  (is "runs sys_step V ?P _ ?Q ?E")
proof -
  let ?M = "\<lambda>r d. ?P d \<and> charge_made key (pi_amount p) r d"
  let ?F = "\<lambda>e d. ?P d \<and> \<not> errors_is e (Sentinel ErrDeclined)"
  have again: "runs sys_step V ?P (attempt (stmt (select_charge key)) (\<lambda>err. fail (provider_error err)) ret) ?M ?F"
    by (rule runs_attempt [OF runs_select_charge]) (auto intro!: runs_fail runs_ret)
  have made: "runs sys_step V ?P
      (attempt (stmt (insert_charge oid (pi_amount p) status key))
         (\<lambda>err. if errors_is err NoRows
            then attempt (stmt (select_charge key)) (\<lambda>err. fail (provider_error err)) ret
            else fail (provider_error err))
         (\<lambda>cid. ret (cid, status))) ?M ?F" for status
    by (rule runs_attempt [OF runs_insert_charge])
      (auto intro!: runs_if runs_fail runs_ret runs_conseq [OF again])
  have answer: "runs sys_step V (?M r)
      (case r of (cid, status) \<Rightarrow> if status = Declined then fail (Sentinel ErrDeclined) else ret (charge_name cid))
      ?Q ?E" for r
    by (cases r, cases "snd r") (auto intro!: runs_fail runs_ret simp: charge_made_def has_charge_def has_decline_def)
  show ?thesis
    unfolding charge_def Let_def
    by (intro runs_attempt [OF runs_is_down [OF stable_open]] runs_false runs_if runs_fail
        runs_attempt [OF made] answer) auto
qed

lemma settled_status:
  assumes "transition_eff pid to pr reason d () d'" and "ids_inv d" and "q \<in> set (payments d)" "pay_id q = pid"
  shows "mark_payment to pr q \<in> set (payments d')"
proof -
  obtain p where p: "pay_id p = pid" "moved p to pr d d'" using settled_moves [OF assms(2,1)] by blast
  then have "p = q" using payment_unique [OF assms(2) movedD(1) [OF p(2)] assms(3)] assms(4) by simp
  then show ?thesis using moved_member [OF assms(2) p(2)] by blast
qed

lemma runs_record_success:
  "runs sys_step V (\<lambda>d. books_inv d \<and> open_payment key p d \<and> has_charge key (pi_amount p) c d)
     (transition (pi_id p) PaymentSucceeded c reason) (\<lambda>_ d. books_inv d \<and> received key c d) (\<lambda>e d. books_inv d)"
proof (rule runs_conseq [OF runs_step [OF once_performs [OF performs_transition] stable_open_charged]])
  fix d d' and u :: unit
  assume inv: "books_inv d" and P: "open_payment key p d \<and> has_charge key (pi_amount p) c d"
    and eff: "transition_eff (pi_id p) PaymentSucceeded c reason d u d'"
  obtain q where q: "q \<in> set (payments d)" "pay_id q = pi_id p" "pay_key q = Some key" "pay_amount q = pi_amount p"
    using P by (auto simp: open_payment_def)
  have "justified (pi_id p) PaymentSucceeded c d"
    using P q unfolding justified_def has_charge_def by (intro bexI [of _ q]) auto
  then have st: "sys_step d d'" using eff by (simp add: settled)
  have m: "mark_payment PaymentSucceeded c q \<in> set (payments d')"
    using settled_status [of "pi_id p" PaymentSucceeded c reason d d' q] eff books_parts(1) [OF inv] q by simp
  have ch: "has_charge key (pi_amount p) c d'" using P has_charge_lasts step_journal [OF st] by blast
  then have "c \<noteq> []" by (auto simp: has_charge_def)
  with m ch q have "received key c d'"
    unfolding received_def by (intro bexI [of _ "mark_payment PaymentSucceeded c q"]) auto
  with st show "sys_step\<^sup>*\<^sup>* d d' \<and> (books_inv d' \<longrightarrow> received key c d')" by blast
qed auto

lemma runs_record_failure:
  "runs sys_step V (\<lambda>d. books_inv d \<and> open_payment key p d \<and> has_decline key d)
     (transition (pi_id p) PaymentFailed [] reason) (\<lambda>_ d. books_inv d) (\<lambda>e d. books_inv d)"
proof (rule runs_conseq [OF runs_step [OF once_performs [OF performs_transition] stable_open_declined,
      where Q = "\<lambda>_ _. True"]])
  fix d d' and u :: unit
  assume P: "open_payment key p d \<and> has_decline key d"
    and eff: "transition_eff (pi_id p) PaymentFailed [] reason d u d'"
  have "justified (pi_id p) PaymentFailed [] d"
    using P unfolding justified_def has_decline_def open_payment_def by fastforce
  then show "sys_step\<^sup>*\<^sup>* d d' \<and> (books_inv d' \<longrightarrow> True)" using eff by (auto intro: settled)
qed auto

interpretation paying: payment_deps sys_step books_inv start_or_resume transition "charge unlucky"
    open_payment has_charge has_decline received for unlucky
  by (unfold_locales; (rule stable_books stable_open stable_open_charged stable_open_declined runs_record_success
      runs_record_failure runs_charge | rule runs_start_or_resume, assumption))

section \<open>The refund worker\<close>

text \<open>A leased refund: its row, the payment it is for and the charge it goes back on.\<close>

definition owed :: "due_refund \<Rightarrow> database \<Rightarrow> bool" where
  "owed r d \<longleftrightarrow> (\<exists>f\<in>set (refunds d). \<exists>p\<in>set (payments d). rf_id f = dr_id r \<and> rf_payment f = dr_payment r \<and>
     rf_amount f = dr_amount r \<and> pay_id p = rf_payment f \<and> pay_provider p = Some (dr_charge r) \<and>
     pay_status p \<noteq> PaymentPending)"

definition returned_at :: "due_refund \<Rightarrow> database \<Rightarrow> bool" where
  "returned_at r d \<longleftrightarrow> (\<exists>x\<in>set (provider_refunds d). pr_key x = refund_key (dr_id r))"

lemma owed_lasts:
  assumes "owed r d" "payments_last d d'" "journal_grows d d'"
  shows "owed r d'"
proof -
  obtain f p where f: "f \<in> set (refunds d)" "rf_id f = dr_id r" "rf_payment f = dr_payment r"
      "rf_amount f = dr_amount r" and p: "p \<in> set (payments d)" "pay_id p = rf_payment f"
      "pay_provider p = Some (dr_charge r)" "pay_status p \<noteq> PaymentPending"
    using assms(1) by (auto simp: owed_def)
  obtain q where q: "q \<in> set (payments d')" "later p q" using assms(2) p(1) by (auto simp: payments_last_def)
  obtain g where g: "g \<in> set (refunds d')" "same_refund f g" using assms(3) f(1) by (auto simp: journal_grows_def)
  have "pay_status q \<noteq> PaymentPending" using q(2) p(4) never_pending_again by (auto simp: later_def)
  then show ?thesis
    unfolding owed_def by (intro bexI [OF _ g(1)] bexI [OF _ q(1)]) (use g q f p in \<open>auto simp: same_refund_def later_def\<close>)
qed

lemma stable_owed: "stable sys_step (\<lambda>d. books_inv d \<and> owed r d)"
  by (rule books_stableI) (rule owed_lasts)

lemma stable_owed_returned: "stable sys_step (\<lambda>d. books_inv d \<and> owed r d \<and> returned_at r d)"
  by (rule books_stableI) (use owed_lasts in \<open>auto simp: returned_at_def journal_grows_def\<close>)

lemma stable_all_owed: "stable sys_step (\<lambda>d. books_inv d \<and> (\<forall>r\<in>set rs. owed r d))"
  by (rule books_stableI) (use owed_lasts in blast)

lemma runs_refund_charge:
  "runs sys_step V (\<lambda>d. books_inv d \<and> owed r d) (refund_charge (refund_key (dr_id r)) (dr_charge r) (dr_amount r))
     (\<lambda>_ d. books_inv d \<and> owed r d \<and> returned_at r d) (\<lambda>_ d. books_inv d \<and> owed r d)"
  (is "runs sys_step V ?P _ (\<lambda>_. ?Q) (\<lambda>_. ?P)")
proof -
  let ?key = "refund_key (dr_id r)"
  have step: "sys_step d d' \<and> returned_at r d'"
    if P: "?P d" and eff: "insert_provider_refund ?key (dr_charge r) (dr_amount r) n d = Inr (a, d')" for n d a d'
  proof
    show "sys_step d d'"
      by (rule returned [OF _ eff]) (use P in \<open>unfold owed_def, blast\<close>)
    show "returned_at r d'" using eff by (auto simp: insert_provider_refund_sql returned_at_def)
  qed
  have ins: "runs sys_step V ?P (stmt (insert_provider_refund ?key (dr_charge r) (dr_amount r)))
      (\<lambda>_. ?Q) (\<lambda>_. ?P)"
  proof (rule runs_stmt [OF stable_owed])
    fix n d a d'
    assume P: "?P d" and eff: "insert_provider_refund ?key (dr_charge r) (dr_amount r) n d = Inr (a, d')"
    note st = step [OF P eff]
    have "?P d'" using stableD [OF stable_owed P] st by blast
    then show "sys_step\<^sup>*\<^sup>* d d' \<and> ?Q d'" "?P d'" using st by blast+
  qed auto
  have sel: "runs sys_step V ?P (stmt (select_provider_refund ?key)) (\<lambda>_. ?Q) (\<lambda>_. ?P)"
    by (rule runs_stmt [OF stable_owed]) (auto simp: sql_simps returned_at_def dest!: find_Some_in)
  show ?thesis
    unfolding refund_charge_def
    by (intro runs_attempt [OF runs_is_down [OF stable_owed]] runs_false runs_if runs_fail runs_ret
        runs_attempt [where M = "\<lambda>_. ?Q" and F = "\<lambda>_. ?P"] ins sel) auto
qed

lemma runs_mark_succeeded:
  "runs sys_step V (\<lambda>d. books_inv d \<and> owed r d \<and> returned_at r d) (mark_succeeded r c)
     (\<lambda>_. books_inv) (\<lambda>_. books_inv)"
proof (rule runs_conseq [OF runs_step [OF once_performs [OF performs_mark_succeeded] stable_owed_returned,
      where Q = "\<lambda>_ _. True"]])
  fix d d' and u :: unit
  assume P: "owed r d \<and> returned_at r d" and eff: "refunded_eff r c d u d'"
  have "sys_step d d'"
    by (rule refunded [where r = r and c = c]) (use P eff in \<open>auto simp: owed_def returned_at_def\<close>)
  then show "sys_step\<^sup>*\<^sup>* d d' \<and> (books_inv d' \<longrightarrow> True)" by blast
qed auto

text \<open>A statement that is a step by itself.\<close>

lemma runs_stmt_step:
  assumes "\<And>n d a d'. f n d = Inr (a, d') \<Longrightarrow> d' = d \<or> sys_step d d'"
  shows "runs sys_step V books_inv (stmt f) (\<lambda>_. books_inv) (\<lambda>_. books_inv)"
proof -
  have "runs sys_step V books_inv (stmt f) (\<lambda>_ d. books_inv d \<and> True) (\<lambda>_ d. books_inv d)"
    by (rule runs_step_plain [OF once_performs [OF performs_stmt]]) (use assms in blast)
  then show ?thesis by simp
qed

lemma runs_mark_failed: "runs sys_step V books_inv (mark_failed cfg r e) (\<lambda>_. books_inv) (\<lambda>_. books_inv)"
  unfolding mark_failed_def
  by (intro runs_if runs_stmt_step) (auto intro: refund_later refund_manual)

lemma runs_refund_each:
  "runs sys_step V (\<lambda>d. books_inv d \<and> (\<forall>r\<in>set rs. owed r d)) (refund_each cfg refund_charge rs)
     (\<lambda>_. books_inv) (\<lambda>_. books_inv)"
proof (induction rs)
  case (Cons r rs)
  let ?rest = "\<lambda>d. books_inv d \<and> (\<forall>r\<in>set rs. owed r d)"
  have one: "runs sys_step V (\<lambda>d. books_inv d \<and> owed r d)
      (attempt (refund_charge (refund_key (dr_id r)) (dr_charge r) (dr_amount r)) (mark_failed cfg r) (mark_succeeded r))
      (\<lambda>_. books_inv) (\<lambda>_. books_inv)"
    by (intro runs_attempt [OF runs_refund_charge] runs_mark_succeeded runs_conseq [OF runs_mark_failed]) auto
  have first: "runs sys_step V (\<lambda>d. books_inv d \<and> (\<forall>s\<in>set (r # rs). owed s d))
      (attempt (refund_charge (refund_key (dr_id r)) (dr_charge r) (dr_amount r)) (mark_failed cfg r) (mark_succeeded r))
      (\<lambda>_. ?rest) (\<lambda>_. ?rest)"
    by (rule runs_conseq [OF runs_frame [OF one stable_all_owed [of rs]]]) auto
  show ?case
    unfolding refund_each.simps by (rule runs_attempt [OF first Cons.IH Cons.IH])
qed (auto intro: runs_ret)

lemma owed_lease:
  assumes inv: "books_inv d" and eff: "lease_refunds cfg locked n d = Inr (rs, d')" and r: "r \<in> set rs"
  shows "owed r d'"
proof -
  have rs: "rs = map (\<lambda>r. due_of (lease_refund cfg (now d) r) (the (payment_of r d)))
            (filter (leased cfg locked d) (refunds d))"
    and d': "d' = d\<lparr>refunds := update_where (leased cfg locked d) (lease_refund cfg (now d)) (refunds d)\<rparr>"
    using eff by (simp_all add: lease_refunds_def)
  obtain f where f: "f \<in> set (refunds d)" "leased cfg locked d f" "r = due_of (lease_refund cfg (now d) f) (the (payment_of f d))"
    using r by (auto simp: rs)
  then obtain p where p: "payment_of f d = Some p" by (auto simp: leased_def)
  then have p_in: "p \<in> set (payments d)" "pay_id p = rf_payment f"
    unfolding payment_of_def by (auto dest: find_Some_in)
  obtain q where "q \<in> set (payments d)" "pay_id q = rf_payment f"
      "pay_status q = PaymentSucceeded \<or> pay_status q = PaymentRefunded"
    using refund_invE [OF books_parts(3) [OF inv] f(1)] by metis
  then have st: "pay_status p = PaymentSucceeded \<or> pay_status p = PaymentRefunded"
    using payment_unique [OF books_parts(1) [OF inv] p_in(1)] p_in(2) by metis
  then obtain c where c: "pay_provider p = Some c" using charge_invD(1) [OF books_parts(4) [OF inv] p_in(1)] by blast
  have "lease_refund cfg (now d) f \<in> set (refunds d')" using f by (auto simp: d' set_update_where)
  then show ?thesis
    unfolding owed_def
    by (intro bexI [of _ "lease_refund cfg (now d) f"] bexI [of _ p])
      (use f(3) p p_in c st in \<open>auto simp: due_of_def d'\<close>)
qed

lemma runs_process_due:
  "runs sys_step V books_inv (process_due cfg refund_charge locked) (\<lambda>_. books_inv) (\<lambda>_. books_inv)"
  unfolding process_due_def
proof (rule runs_attempt [OF _ _ runs_refund_each])
  show "runs sys_step V books_inv (stmt (lease_refunds cfg locked))
      (\<lambda>rs d. books_inv d \<and> (\<forall>r\<in>set rs. owed r d)) (\<lambda>_. books_inv)"
    by (rule runs_step_plain [OF once_performs [OF performs_stmt]])
      (use owed_lease refund_leased in blast)
qed (rule runs_fail)

section \<open>The reconciliation worker\<close>

definition pending_at :: "stuck_payment \<Rightarrow> database \<Rightarrow> bool" where
  "pending_at s d \<longleftrightarrow> (\<exists>p\<in>set (payments d). pay_id p = st_id s \<and> (st_key s \<noteq> [] \<longrightarrow> pay_key p = Some (st_key s)))"

definition lookup_true :: "string \<Rightarrow> charge_lookup \<times> string \<Rightarrow> database \<Rightarrow> bool" where
  "lookup_true key r d \<longleftrightarrow>
     (fst r = ChargeSucceeded \<longrightarrow> (\<exists>ch\<in>set (charges d). ch_status ch = Charged \<and> ch_key ch = Some key \<and>
        snd r = charge_name (ch_id ch))) \<and>
     (fst r = ChargeDeclined \<longrightarrow> has_decline key d)"

lemma pending_at_lasts: "pending_at s d \<Longrightarrow> payments_last d d' \<Longrightarrow> pending_at s d'"
  unfolding pending_at_def payments_last_def later_def by metis

lemma stable_pending_at: "stable sys_step (\<lambda>d. books_inv d \<and> pending_at s d)"
  by (rule books_stableI) (rule pending_at_lasts)

lemma stable_all_pending: "stable sys_step (\<lambda>d. books_inv d \<and> (\<forall>s\<in>set ss. pending_at s d))"
  by (rule books_stableI) (use pending_at_lasts in blast)

lemma stable_lookup: "stable sys_step (\<lambda>d. books_inv d \<and> pending_at s d \<and> lookup_true key r d)"
  by (rule books_stableI) (auto simp: lookup_true_def journal_grows_def has_decline_def dest: pending_at_lasts)

lemma runs_charge_status:
  "runs sys_step V (\<lambda>d. books_inv d \<and> pending_at s d) (charge_status key)
     (\<lambda>r d. books_inv d \<and> pending_at s d \<and> lookup_true key r d) (\<lambda>_ d. books_inv d \<and> pending_at s d)"
  (is "runs sys_step V ?P _ ?Q (\<lambda>_. ?P)")
proof -
  let ?M = "\<lambda>r d. ?P d \<and> (\<exists>ch\<in>set (charges d). ch_key ch = Some key \<and> ch_id ch = fst r \<and> ch_status ch = snd r)"
  have sel: "runs sys_step V ?P (stmt (select_charge key)) ?M (\<lambda>_. ?P)"
    by (rule runs_stmt [OF stable_pending_at]) (auto simp: sql_simps dest!: find_Some_in)
  have answer: "runs sys_step V (?M r)
      (case r of (cid, status) \<Rightarrow> if status = Declined then ret (ChargeDeclined, [])
        else ret (ChargeSucceeded, charge_name cid)) ?Q (\<lambda>_. ?P)" for r
    by (cases r, cases "snd r") (auto intro!: runs_ret simp: lookup_true_def has_decline_def)
  show ?thesis
    unfolding charge_status_def
    by (intro runs_attempt [OF runs_is_down [OF stable_pending_at]] runs_false runs_if runs_fail
        runs_attempt [OF sel] answer runs_ret) (auto simp: lookup_true_def)
qed

lemma runs_books:
  "runs sys_step V books_inv (schedule p t) (\<lambda>_. books_inv) (\<lambda>_. books_inv)"
  "runs sys_step V books_inv (manual p reason) (\<lambda>_. books_inv) (\<lambda>_. books_inv)"
proof -
  have st: "runs sys_step V books_inv (stmt f) (\<lambda>_. books_inv) (\<lambda>_. books_inv)"
    if "performs (stmt f) (\<lambda>d a d'. books_only d d') (\<lambda>d e. False)" for f :: "unit sql"
  proof -
    have "runs sys_step V books_inv (stmt f) (\<lambda>_ d. books_inv d \<and> True) (\<lambda>_ d. books_inv d)"
      by (rule runs_step_plain [OF once_performs [OF that]]) (auto intro: booked)
    then show ?thesis by simp
  qed
  show "runs sys_step V books_inv (schedule p t) (\<lambda>_. books_inv) (\<lambda>_. books_inv)"
    "runs sys_step V books_inv (manual p reason) (\<lambda>_. books_inv) (\<lambda>_. books_inv)"
    unfolding schedule_def manual_def
    by (intro runs_attempt [OF st [OF performs_books(1)]] runs_ret, assumption+)
      (intro runs_attempt [OF st [OF performs_books(2)]] runs_ret, assumption+)
qed

lemma runs_retry_or_manual:
  "runs sys_step V books_inv (retry_or_manual cfg p reason) (\<lambda>_. books_inv) (\<lambda>_. books_inv)"
  unfolding retry_or_manual_def by (intro runs_if runs_books)

lemma runs_settle:
  assumes "stable sys_step (\<lambda>d. books_inv d \<and> P d)"
    and "\<And>d. books_inv d \<Longrightarrow> P d \<Longrightarrow> justified pid to pr d"
  shows "runs sys_step V (\<lambda>d. books_inv d \<and> P d) (transition pid to pr reason) (\<lambda>_. books_inv) (\<lambda>_. books_inv)"
proof (rule runs_conseq [OF runs_step [OF once_performs [OF performs_transition] assms(1), where Q = "\<lambda>_ _. True"]])
  fix d d' and u :: unit
  assume "books_inv d" "P d" "transition_eff pid to pr reason d u d'"
  then show "sys_step\<^sup>*\<^sup>* d d' \<and> (books_inv d' \<longrightarrow> True)" using assms(2) by (auto intro: settled)
qed auto

lemma runs_resolve:
  assumes "stable sys_step (\<lambda>d. books_inv d \<and> P d)"
    and "\<And>d. books_inv d \<Longrightarrow> P d \<Longrightarrow> justified (st_id p) to pr d"
  shows "runs sys_step V (\<lambda>d. books_inv d \<and> P d) (resolve cfg transition p to pr reason) (\<lambda>_. books_inv) (\<lambda>_. books_inv)"
  unfolding resolve_def
  by (rule runs_attempt [OF runs_settle [OF assms]])
    (auto intro!: runs_if runs_ret runs_retry_or_manual)

lemma runs_reconcile:
  "runs sys_step V (\<lambda>d. books_inv d \<and> pending_at s d) (reconcile cfg charge_status transition age_text s)
     (\<lambda>_. books_inv) (\<lambda>_. books_inv)"
proof -
  let ?I = "\<lambda>r d. pending_at s d \<and> lookup_true (st_key s) r d"
  have act: "runs sys_step V (\<lambda>d. books_inv d \<and> ?I (status, c) d)
      (if status = ChargeSucceeded then
         resolve cfg transition s PaymentSucceeded c ''reconciled: charged at provider''
       else if status = ChargeDeclined then
         resolve cfg transition s PaymentFailed [] ''reconciled: declined at provider''
       else if status = ChargeNotFound \<and> rw_expire_after cfg \<le> st_age s then
         resolve cfg transition s PaymentExpired []
           (''reconciled: provider has no charge after '' @ age_text (st_age s))
       else schedule s (worker_backoff cfg (nat (st_attempts s)))) (\<lambda>_. books_inv) (\<lambda>_. books_inv)"
    if key: "st_key s \<noteq> []" for status c
  proof (intro runs_if runs_resolve [OF stable_lookup])
    fix d
    assume I: "?I (status, c) d"
    then obtain p where p: "p \<in> set (payments d)" "pay_id p = st_id s" "pay_key p = Some (st_key s)"
      using key by (auto simp: pending_at_def)
    show "justified (st_id s) PaymentSucceeded c d" if "status = ChargeSucceeded"
      using I p that by (auto simp: justified_def lookup_true_def intro!: bexI [of _ p])
    show "justified (st_id s) PaymentFailed [] d" if "status = ChargeDeclined"
      using I p that by (auto simp: justified_def lookup_true_def has_decline_def intro!: bexI [of _ p])
    show "justified (st_id s) PaymentExpired [] d"
      using p by (auto simp: justified_def)
  qed (rule runs_conseq [OF runs_books(1)], auto)
  show ?thesis
    unfolding reconcile_def
  proof (intro runs_if runs_attempt [OF runs_charge_status])
    show "runs sys_step V (\<lambda>d. books_inv d \<and> pending_at s d)
        (manual s ''no idempotency key: cannot ask provider about this payment'') (\<lambda>_. books_inv) (\<lambda>_. books_inv)"
      by (rule runs_conseq [OF runs_books(2)]) auto
    show "runs sys_step V (\<lambda>d. books_inv d \<and> pending_at s d) (retry_or_manual cfg s reason)
        (\<lambda>_. books_inv) (\<lambda>_. books_inv)" for reason
      by (rule runs_conseq [OF runs_retry_or_manual]) auto
  qed (use act in \<open>auto split: prod.splits\<close>)
qed

lemma runs_reconcile_each:
  "runs sys_step V (\<lambda>d. books_inv d \<and> (\<forall>s\<in>set ss. pending_at s d))
     (reconcile_each cfg charge_status transition age_text ss) (\<lambda>_. books_inv) (\<lambda>_. books_inv)"
proof (induction ss)
  case (Cons s ss)
  let ?rest = "\<lambda>d. books_inv d \<and> (\<forall>s\<in>set ss. pending_at s d)"
  have first: "runs sys_step V (\<lambda>d. books_inv d \<and> (\<forall>t\<in>set (s # ss). pending_at t d))
      (reconcile cfg charge_status transition age_text s) (\<lambda>_. ?rest) (\<lambda>_. ?rest)"
    by (rule runs_conseq [OF runs_frame [OF runs_reconcile stable_all_pending [of ss]]]) auto
  show ?case
    unfolding reconcile_each.simps by (rule runs_attempt [OF first runs_fail Cons.IH]) simp
qed (auto intro: runs_ret)

lemma runs_query: "runs sys_step V books_inv (stmt (query q)) (\<lambda>_. books_inv) (\<lambda>_. books_inv)"
  by (rule runs_stmt_step) (auto simp: query_def split: sum.splits)

text \<open>A count or an age that only goes into a gauge.\<close>

lemma runs_gauge:
  "runs sys_step V books_inv (attempt (stmt (query q)) (\<lambda>_. ret ()) (\<lambda>_. ret ())) (\<lambda>_. books_inv) (\<lambda>_. books_inv)"
  by (rule runs_attempt [OF runs_query]) (auto intro: runs_ret)

lemma runs_process_stuck:
  "runs sys_step V books_inv (process_stuck cfg charge_status transition age_text locked)
     (\<lambda>_. books_inv) (\<lambda>_. books_inv)"
  unfolding process_stuck_def count_stuck_def
proof (rule runs_attempt [OF runs_gauge runs_fail], assumption, rule runs_attempt [OF _ _ runs_reconcile_each])
  show "runs sys_step V books_inv (stmt (lease_stuck cfg locked))
      (\<lambda>ss d. books_inv d \<and> (\<forall>s\<in>set ss. pending_at s d)) (\<lambda>_. books_inv)"
  proof (rule runs_step_plain [OF once_performs [OF performs_lease_stuck]])
    fix d d' and ss :: "stuck_payment list"
    assume inv: "books_inv d" and eff: "books_only d d' \<and> (\<forall>st\<in>set ss. \<exists>p\<in>set (payments d). pay_id p = st_id st \<and>
           pay_key p = (if st_key st = [] then pay_key p else Some (st_key st)))"
    then have st: "sys_step d d'" by (simp add: booked)
    have "\<forall>s\<in>set ss. pending_at s d" using eff by (fastforce simp: pending_at_def)
    then show "sys_step\<^sup>*\<^sup>* d d' \<and> (books_inv d' \<longrightarrow> (\<forall>s\<in>set ss. pending_at s d'))"
      using st step_payments [OF st inv] pending_at_lasts by blast
  qed
qed (rule runs_fail)

section \<open>Orders and the outbox\<close>

lemma runs_create:
  "runs sys_step V books_inv (create_order_svc items key) (\<lambda>_. books_inv) (\<lambda>_. books_inv)"
proof (rule runs_served [OF served_create stable_books])
  fix d r d'
  assume "created_eff items key d r d'"
  then show st: "sys_step\<^sup>*\<^sup>* d d'"
    by (auto simp: created_eff_def split: sum.splits dest: validate_items_good intro: placed)
  fix d'' and e :: gerr
  assume "books_inv d" "sys_step\<^sup>*\<^sup>* d' d''"
  with st show "books_inv d''" "books_inv d''" using books_machine.inv_steps by blast+
qed

lemma runs_cancel: "runs sys_step V books_inv (cancel_order oid) (\<lambda>_. books_inv) (\<lambda>_. books_inv)"
proof (rule runs_served [OF served_cancel stable_books])
  fix d b d'
  assume "\<exists>r. b = fst r \<and> cancel_eff oid d r d'"
  then show st: "sys_step\<^sup>*\<^sup>* d d'" by (auto intro: cancelled)
  fix d'' and e :: gerr
  assume "books_inv d" "sys_step\<^sup>*\<^sup>* d' d''"
  with st show "books_inv d''" "books_inv d''" using books_machine.inv_steps by blast+
qed

lemma runs_cancel_svc: "runs sys_step V books_inv (cancel_order_svc oid) (\<lambda>_. books_inv) (\<lambda>_. books_inv)"
  unfolding cancel_order_svc_def get_order_by_id_def select_order_def select_order_items_def
  by (intro runs_attempt [where M = "\<lambda>_. books_inv" and F = "\<lambda>_. books_inv"] runs_query runs_if runs_cancel)
    (auto intro: runs_fail runs_ret)

lemma runs_process_batch:
  "runs sys_step V books_inv (process_batch locked write) (\<lambda>_. books_inv) (\<lambda>_. books_inv)"
proof -
  have tx: "runs sys_step V books_inv (batch_tx locked write) (\<lambda>_ d. books_inv d \<and> True) (\<lambda>_. books_inv)"
    by (rule runs_step_plain [OF once_performs [OF performs_batch_tx]]) (auto intro: relayed)
  have dlq: "runs sys_step V books_inv (move_to_dlq ids err) (\<lambda>_. books_inv) (\<lambda>_. books_inv)" for ids err
    unfolding move_to_dlq_def
    by (intro runs_attempt [where M = "\<lambda>_. books_inv" and F = "\<lambda>_. books_inv"] runs_ret runs_stmt_step)
      (auto simp: sql_simps intro: dead_lettered)
  show ?thesis
    unfolding process_batch_def
    by (rule runs_attempt [OF tx])
      (auto intro!: runs_fail runs_ret runs_if dlq
        runs_attempt [where M = "\<lambda>_. books_inv" and F = "\<lambda>_. books_inv"] split: prod.splits)
qed

lemma runs_cleanup_loop:
  "runs sys_step V books_inv (cleanup_loop i cutoff deleted) (\<lambda>_. books_inv) (\<lambda>_. books_inv)"
proof (induction i arbitrary: deleted)
  case (Suc i)
  have "runs sys_step V books_inv (stmt (delete_expired cutoff)) (\<lambda>_. books_inv) (\<lambda>_. books_inv)"
    by (rule runs_stmt_step) (auto intro: cleaned)
  then show ?case
    unfolding cleanup_loop.simps
    by (intro runs_attempt [where M = "\<lambda>_. books_inv" and F = "\<lambda>_. books_inv"] runs_if Suc.IH)
      (auto intro: runs_ret)
qed (auto intro: runs_ret)

end
