(* ===== verification/Audits.thy ===== *)
theory Audits
  imports System
begin

text \<open>
  The audit of \<open>internal/reconciliation\<close> runs against the service: what it has read of the payments and
  of the provider's list lasts (\<open>ours_seen\<close>, \<open>theirs_seen\<close>), so every correction it makes is a step of
  \<open>sys_step\<close>, whatever the others did since it read (\<open>runs_audit\<close>). In a reachable state its classification
  asks for a person only where a charged payment has expired here (\<open>sound_classify\<close>).
\<close>

section \<open>What the audit has seen lasts\<close>

definition ours_seen :: "string \<Rightarrow> ours \<Rightarrow> database \<Rightarrow> bool" where
  "ours_seen k x d \<longleftrightarrow> os_key x = k \<and>
     (\<exists>p\<in>set (payments d). pay_id p = os_payment x \<and> pay_key p = Some k \<and>
        can_transition_payment\<^sup>*\<^sup>* (os_status x) (pay_status p) \<and>
        (os_refund x \<noteq> 0 \<longrightarrow> (\<exists>f\<in>set (refunds d). rf_id f = os_refund x \<and> rf_payment f = pay_id p)))"

lemma ours_seenE:
  assumes "ours_seen k x d"
  obtains p where "p \<in> set (payments d)" "pay_id p = os_payment x" "pay_key p = Some k"
    "can_transition_payment\<^sup>*\<^sup>* (os_status x) (pay_status p)"
    "os_refund x \<noteq> 0 \<longrightarrow> (\<exists>f\<in>set (refunds d). rf_id f = os_refund x \<and> rf_payment f = pay_id p)"
  using assms unfolding ours_seen_def by blast

definition theirs_seen :: "string \<Rightarrow> theirs \<Rightarrow> database \<Rightarrow> bool" where
  "theirs_seen k th d \<longleftrightarrow>
     (th_status th = ''declined'' \<longrightarrow> has_decline k d) \<and>
     (th_status th = ''charged'' \<or> th_status th = ''refunded'' \<longrightarrow>
        (\<exists>c\<in>set (charges d). ch_status c = Charged \<and> ch_key c = Some k \<and> th_charge th = charge_name (ch_id c))) \<and>
     (th_status th = ''refunded'' \<longrightarrow> (\<exists>x\<in>set (provider_refunds d). pr_charge x = th_charge th))"

text \<open>A refund whose payment has gone back.\<close>

definition gone_back :: "int \<Rightarrow> database \<Rightarrow> bool" where
  "gone_back i d \<longleftrightarrow> (\<exists>f\<in>set (refunds d). \<exists>p\<in>set (payments d). rf_id f = i \<and> pay_id p = rf_payment f \<and>
     pay_status p = PaymentRefunded)"

lemma refunded_stays: "can_transition_payment\<^sup>*\<^sup>* PaymentRefunded t \<longleftrightarrow> t = PaymentRefunded"
proof
  show "can_transition_payment\<^sup>*\<^sup>* PaymentRefunded t \<Longrightarrow> t = PaymentRefunded"
    by (induction rule: rtranclp_induct) (auto simp: can_transition_payment_iff)
qed auto

lemma ours_seen_lasts:
  assumes "ours_seen k x d" and "payments_last d d'" and "journal_grows d d'"
  shows "ours_seen k x d'"
proof -
  obtain p where p: "p \<in> set (payments d)" "pay_id p = os_payment x" "pay_key p = Some k"
    "can_transition_payment\<^sup>*\<^sup>* (os_status x) (pay_status p)"
    "os_refund x \<noteq> 0 \<longrightarrow> (\<exists>f\<in>set (refunds d). rf_id f = os_refund x \<and> rf_payment f = pay_id p)"
    using ours_seenE [OF assms(1)] by blast
  obtain q where q: "q \<in> set (payments d')" "later p q" using assms(2) p(1) by (auto simp: payments_last_def)
  have "can_transition_payment\<^sup>*\<^sup>* (os_status x) (pay_status q)"
    using p(4) q(2) by (auto simp: later_def intro: rtranclp_trans)
  moreover have "\<exists>f\<in>set (refunds d'). rf_id f = os_refund x \<and> rf_payment f = pay_id q" if "os_refund x \<noteq> 0"
    using that p(5) assms(3) q(2) by (fastforce simp: journal_grows_def same_refund_def later_def)
  ultimately show ?thesis
    using assms(1) p q unfolding ours_seen_def by (intro conjI bexI [OF _ q(1)]) (auto simp: later_def)
qed

lemma theirs_seen_lasts: "theirs_seen k th d \<Longrightarrow> journal_grows d d' \<Longrightarrow> theirs_seen k th d'"
  unfolding theirs_seen_def using has_decline_lasts [of k d d'] by (auto simp: journal_grows_def)

lemma gone_back_lasts:
  assumes "gone_back i d" and "payments_last d d'" and "journal_grows d d'"
  shows "gone_back i d'"
proof -
  obtain f p where f: "f \<in> set (refunds d)" "rf_id f = i" and p: "p \<in> set (payments d)" "pay_id p = rf_payment f"
    "pay_status p = PaymentRefunded"
    using assms(1) by (auto simp: gone_back_def)
  obtain q where q: "q \<in> set (payments d')" "later p q" using assms(2) p(1) by (auto simp: payments_last_def)
  obtain g where g: "g \<in> set (refunds d')" "same_refund f g" using assms(3) f(1) by (auto simp: journal_grows_def)
  show ?thesis
    unfolding gone_back_def
    by (intro bexI [OF _ g(1)] bexI [OF _ q(1)])
      (use f p q(2) g(2) in \<open>auto simp: later_def same_refund_def refunded_stays\<close>)
qed

lemma stable_gone_back: "stable sys_step (\<lambda>d. books_inv d \<and> gone_back i d)"
  by (rule books_stableI) (rule gone_back_lasts)

definition both_seen :: "string \<Rightarrow> ours \<Rightarrow> theirs \<Rightarrow> database \<Rightarrow> bool" where
  "both_seen k x th d \<longleftrightarrow> ours_seen k x d \<and> theirs_seen k th d"

lemma stable_both_seen: "stable sys_step (\<lambda>d. books_inv d \<and> both_seen k x th d)"
  by (rule books_stableI) (use ours_seen_lasts theirs_seen_lasts in \<open>auto simp: both_seen_def\<close>)

definition all_seen :: "(string \<Rightarrow> ours option) \<Rightarrow> (string \<Rightarrow> theirs option) \<Rightarrow> database \<Rightarrow> bool" where
  "all_seen ours theirs d \<longleftrightarrow> (\<forall>k. (\<forall>x. ours k = Some x \<longrightarrow> ours_seen k x d) \<and>
     (\<forall>th. theirs k = Some th \<longrightarrow> theirs_seen k th d))"

lemma stable_all_seen: "stable sys_step (\<lambda>d. books_inv d \<and> all_seen ours theirs d)"
  by (rule books_stableI) (use ours_seen_lasts theirs_seen_lasts in \<open>unfold all_seen_def, blast\<close>)

lemma all_seen_both: "all_seen ours theirs d \<Longrightarrow> ours k = Some x \<Longrightarrow> theirs k = Some th \<Longrightarrow> both_seen k x th d"
  by (simp add: all_seen_def both_seen_def)

section \<open>The corrections are justified\<close>

lemma seen_justifies:
  assumes "books_inv d" and "both_seen k x th d"
  shows "th_status th = ''charged'' \<Longrightarrow> justified (os_payment x) PaymentSucceeded (th_charge th) d"
    and "th_status th = ''declined'' \<Longrightarrow> justified (os_payment x) PaymentFailed [] d"
    and "th_status th = ''refunded'' \<Longrightarrow> os_refund x \<noteq> 0 \<Longrightarrow> os_status x = PaymentSucceeded \<Longrightarrow>
      justified (os_payment x) PaymentRefunded [] d"
proof -
  obtain p where p: "p \<in> set (payments d)" "pay_id p = os_payment x" "pay_key p = Some k"
    "can_transition_payment\<^sup>*\<^sup>* (os_status x) (pay_status p)"
    "os_refund x \<noteq> 0 \<longrightarrow> (\<exists>f\<in>set (refunds d). rf_id f = os_refund x \<and> rf_payment f = pay_id p)"
    using assms(2) ours_seenE unfolding both_seen_def by metis
  have th: "theirs_seen k th d" using assms(2) by (simp add: both_seen_def)
  show "justified (os_payment x) PaymentSucceeded (th_charge th) d" if "th_status th = ''charged''"
    using th that p(1-3) unfolding justified_def theirs_seen_def by (intro bexI [of _ p]) auto
  show "justified (os_payment x) PaymentFailed [] d" if "th_status th = ''declined''"
    using th that p(1-3) unfolding justified_def theirs_seen_def has_decline_def by (intro bexI [of _ p]) auto
  assume st: "th_status th = ''refunded''" and f: "os_refund x \<noteq> 0" and s: "os_status x = PaymentSucceeded"
  obtain c where c: "c \<in> set (charges d)" "ch_key c = Some k" "th_charge th = charge_name (ch_id c)"
    using th st by (auto simp: theirs_seen_def)
  obtain y where y: "y \<in> set (provider_refunds d)" "pr_charge y = th_charge th"
    using th st by (auto simp: theirs_seen_def)
  have "pay_status p = PaymentSucceeded \<or> pay_status p = PaymentRefunded"
    using settled_stays [OF p(4)] s by simp
  then obtain b where b: "b \<in> set (charges d)" "ch_key b = pay_key p" "pay_provider p = Some (charge_name (ch_id b))"
    using charge_invD(1) [OF books_parts(4) [OF assms(1)] p(1)] by blast
  then have "b = c" using charge_unique [OF books_parts(1) [OF assms(1)] b(1) c(1)] c(2) p(3) by simp
  then have "\<exists>y\<in>set (provider_refunds d). pay_provider p = Some (pr_charge y)"
    using b(3) c(3) y by (intro bexI [OF _ y(1)]) simp
  then show "justified (os_payment x) PaymentRefunded [] d"
    using p f unfolding justified_def by (intro bexI [of _ p]) auto
qed

section \<open>The audit makes only steps\<close>

lemma runs_audit_refund:
  "runs sys_step V (\<lambda>d. books_inv d \<and> gone_back i d) (stmt (confirm_refund i)) (\<lambda>_. books_inv) (\<lambda>_. books_inv)"
proof (rule runs_conseq [OF runs_step [OF once_performs [OF performs_stmt] stable_gone_back, where Q = "\<lambda>_ _. True"]])
  fix d d' and u :: unit
  assume "gone_back i d" and eff: "\<exists>n. confirm_refund i n d = Inr (u, d')"
  then have "sys_step d d'" by (auto simp: gone_back_def intro: refund_confirmed)
  then show "sys_step\<^sup>*\<^sup>* d d' \<and> (books_inv d' \<longrightarrow> True)" by blast
qed auto

lemma runs_take_back:
  assumes st: "th_status th = ''refunded''" and f: "os_refund x \<noteq> 0" and s: "os_status x = PaymentSucceeded"
  shows "runs sys_step V (\<lambda>d. books_inv d \<and> both_seen k x th d)
    (transition (os_payment x) PaymentRefunded [] reason)
    (\<lambda>_ d. books_inv d \<and> gone_back (os_refund x) d) (\<lambda>_. books_inv)"
proof (rule runs_conseq [OF runs_step [OF once_performs [OF performs_transition] stable_both_seen]])
  fix d d' and u :: unit
  assume inv: "books_inv d" and P: "both_seen k x th d"
    and eff: "transition_eff (os_payment x) PaymentRefunded [] reason d u d'"
  have step: "sys_step d d'"
    using seen_justifies(3) [OF inv P st f s] eff by (auto intro: settled)
  obtain p where p: "p \<in> set (payments d)" "pay_id p = os_payment x"
    "os_refund x \<noteq> 0 \<longrightarrow> (\<exists>f\<in>set (refunds d). rf_id f = os_refund x \<and> rf_payment f = pay_id p)"
    using P ours_seenE unfolding both_seen_def by metis
  then obtain g where g: "g \<in> set (refunds d)" "rf_id g = os_refund x" "rf_payment g = pay_id p" using f by blast
  obtain h where h: "h \<in> set (refunds d')" "same_refund g h"
    using step_journal [OF step] g(1) by (auto simp: journal_grows_def)
  have m: "mark_payment PaymentRefunded [] p \<in> set (payments d')"
    using settled_status [of "os_payment x"] eff books_parts(1) [OF inv] p by simp
  have "gone_back (os_refund x) d'"
    unfolding gone_back_def
    by (intro bexI [OF _ h(1)] bexI [OF _ m]) (use g h(2) in \<open>simp add: same_refund_def\<close>)
  with step show "sys_step\<^sup>*\<^sup>* d d' \<and> (books_inv d' \<longrightarrow> gone_back (os_refund x) d')" by blast
qed auto

lemma runs_fix:
  assumes a: "fd_action (classify amount_text (Some x) (Some th)) = a" "a \<noteq> NoAction" "a \<noteq> Manual"
  shows "runs sys_step V (\<lambda>d. books_inv d \<and> both_seen k x th d) (audit_fix transition a (Some x) (Some th))
    (\<lambda>_. books_inv) (\<lambda>_. books_inv)"
proof -
  let ?reason = "''reconciliation: provider says '' @ th_status th"
  have meaning: "case a of
       FixPaymentSucceeded \<Rightarrow> th_status th = ''charged''
     | FixPaymentFailed \<Rightarrow> th_status th = ''declined''
     | FixRefundSucceeded \<Rightarrow> th_status th = ''refunded'' \<and> os_refund x \<noteq> 0 \<and>
         (os_status x = PaymentSucceeded \<or> os_status x = PaymentRefunded)
     | _ \<Rightarrow> False"
    using classify_fix [OF a] by (cases a) (auto simp: can_transition_payment_iff)
  show ?thesis
  proof (cases a)
    case FixPaymentSucceeded
    then show ?thesis
      using meaning seen_justifies(1)
      by (simp add: audit_fix_def) (intro runs_settle [OF stable_both_seen]; blast)
  next
    case FixPaymentFailed
    then show ?thesis
      using meaning seen_justifies(2)
      by (simp add: audit_fix_def) (intro runs_settle [OF stable_both_seen]; blast)
  next
    case FixRefundSucceeded
    have there: "gone_back (os_refund x) d" if "os_status x = PaymentRefunded" "both_seen k x th d" for d
      using that meaning FixRefundSucceeded
      by (fastforce simp: both_seen_def ours_seen_def gone_back_def refunded_stays)
    have first: "runs sys_step V (\<lambda>d. books_inv d \<and> both_seen k x th d)
        (if os_status x = PaymentSucceeded then transition (os_payment x) PaymentRefunded [] ?reason else ret ())
        (\<lambda>_ d. books_inv d \<and> gone_back (os_refund x) d) (\<lambda>_. books_inv)"
      using meaning FixRefundSucceeded there by (intro runs_if runs_take_back runs_ret) auto
    show ?thesis
      unfolding audit_fix_def Let_def FixRefundSucceeded option.case prod.case action.case
      by (rule runs_attempt [OF first runs_fail runs_audit_refund])
  qed (use meaning in auto)
qed

lemma runs_report:
  assumes "\<And>n d a d'. f n d = Inr (a, d') \<Longrightarrow> d' = d \<or> (\<exists>x y. d' = d\<lparr>recon_runs := x, recon_items := y\<rparr>)"
    and "stable sys_step (\<lambda>d. books_inv d \<and> P d)"
  shows "runs sys_step V (\<lambda>d. books_inv d \<and> P d) (stmt f) (\<lambda>_ d. books_inv d \<and> P d) (\<lambda>_ d. books_inv d \<and> P d)"
proof (rule runs_step [OF once_performs [OF performs_stmt] assms(2)])
  fix d a d'
  assume inv: "books_inv d" "P d" and "\<exists>n. f n d = Inr (a, d')"
  then have "sys_step\<^sup>*\<^sup>* d d'" using assms(1) by (metis reports r_into_rtranclp rtranclp.rtrancl_refl)
  with inv stableD [OF assms(2), of d d'] show "sys_step\<^sup>*\<^sup>* d d' \<and> (books_inv d' \<longrightarrow> P d')" by blast
qed

lemma report_statements:
  "insert_run from to n d = Inr (a, d') \<Longrightarrow> \<exists>x y. d' = d\<lparr>recon_runs := x, recon_items := y\<rparr>"
  "insert_recon_item i n d = Inr (u, d') \<Longrightarrow> \<exists>x y. d' = d\<lparr>recon_runs := x, recon_items := y\<rparr>"
  "finish_run rep n d = Inr (u, d') \<Longrightarrow> \<exists>x y. d' = d\<lparr>recon_runs := x, recon_items := y\<rparr>"
proof -
  have "\<exists>x y. d\<lparr>recon_runs := r\<rparr> = d\<lparr>recon_runs := x, recon_items := y\<rparr>"
    "\<exists>x y. d\<lparr>recon_items := r'\<rparr> = d\<lparr>recon_runs := x, recon_items := y\<rparr>" for r r' and d :: database
    by (rule exI [of _ r], rule exI [of _ "recon_items d"], simp)
      (rule exI [of _ "recon_runs d"], rule exI [of _ r'], simp)
  then show "insert_run from to n d = Inr (a, d') \<Longrightarrow> \<exists>x y. d' = d\<lparr>recon_runs := x, recon_items := y\<rparr>"
    "insert_recon_item i n d = Inr (u, d') \<Longrightarrow> \<exists>x y. d' = d\<lparr>recon_runs := x, recon_items := y\<rparr>"
    "finish_run rep n d = Inr (u, d') \<Longrightarrow> \<exists>x y. d' = d\<lparr>recon_runs := x, recon_items := y\<rparr>"
    by (auto simp: insert_run_def insert_recon_item_def finish_run_def split: if_splits)
qed

lemma runs_audit_keys:
  "runs sys_step V (\<lambda>d. books_inv d \<and> all_seen ours theirs d)
     (audit_keys transition amount_text ours theirs rep ks) (\<lambda>_. books_inv) (\<lambda>_. books_inv)"
proof (induction ks arbitrary: rep)
  case (Cons k ks)
  let ?P = "\<lambda>d. books_inv d \<and> all_seen ours theirs d"
  let ?f = "classify amount_text (ours k) (theirs k)"
  have corrects: "runs sys_step V ?P (audit_fix transition (fd_action ?f) (ours k) (theirs k)) (\<lambda>_. ?P) (\<lambda>_. ?P)"
    if action: "fd_kind ?f \<noteq> Matched" "fd_action ?f \<noteq> Manual"
  proof -
    obtain x th where xt: "ours k = Some x" "theirs k = Some th"
      using classify_fix [OF refl classify_kinds(2) [OF action(1)] action(2)] by blast
    have "runs sys_step V (\<lambda>d. books_inv d \<and> both_seen k x th d)
        (audit_fix transition (fd_action ?f) (ours k) (theirs k)) (\<lambda>_. books_inv) (\<lambda>_. books_inv)"
      using runs_fix [OF refl] classify_kinds(2) action xt by simp
    from runs_frame [OF this stable_all_seen [of ours theirs]] show ?thesis
      by (rule runs_conseq) (use all_seen_both xt in auto)
  qed
  have decide: "runs sys_step V ?P
      (if fd_action ?f \<noteq> Manual then
         attempt (audit_fix transition (fd_action ?f) (ours k) (theirs k))
           (\<lambda>err. ret (''manual'', ?f\<lparr>fd_note := fd_note ?f @ ''; auto-fix failed: '' @ error_text err\<rparr>))
           (\<lambda>_. ret (''auto_fixed'', ?f))
       else ret (''manual'', ?f)) (\<lambda>_. ?P) (\<lambda>_. books_inv)" if "fd_kind ?f \<noteq> Matched"
    by (intro runs_if runs_attempt [OF corrects [OF that]] runs_ret) auto
  have note_it: "runs sys_step V ?P (audit_record run k f act (ours k) (theirs k)) (\<lambda>_. ?P) (\<lambda>_. ?P)" for run f act
    unfolding audit_record_def by (rule runs_report [OF _ stable_all_seen]) (use report_statements in blast)
  show ?case
    unfolding audit_keys.simps Let_def
    by (intro runs_if Cons.IH runs_attempt [OF decide])
      (auto intro!: runs_fail runs_attempt [OF note_it] Cons.IH split: prod.split)
qed (auto intro: runs_ret)

text \<open>What the two reads return.\<close>

lemma theirs_by_key_Some:
  "theirs_by_key cs k = Some th \<Longrightarrow> \<exists>c\<in>set cs. pc_key c = k \<and> k \<noteq> [] \<and> th = theirs_of c"
  unfolding theirs_by_key_def by (induction cs rule: rev_induct) (auto split: if_splits)

lemma ours_by_key_Some: "ours_by_key os k = Some x \<Longrightarrow> x \<in> set os \<and> os_key x = k"
  unfolding ours_by_key_def by (induction os rule: rev_induct) (auto split: if_splits)

lemma ours_of_seen:
  assumes "p \<in> set (payments d)" and "pay_key p = Some k"
  shows "ours_seen k (ours_of d p) d"
  using assms find_Some_in [of "\<lambda>r. rf_payment r = pay_id p" "refunds d"]
  by (fastforce simp: ours_seen_def ours_of_def Let_def split: option.splits)

definition list_seen :: "provider_charge list \<Rightarrow> database \<Rightarrow> bool" where
  "list_seen cs d \<longleftrightarrow> (\<forall>c\<in>set cs. pc_key c \<noteq> [] \<longrightarrow> theirs_seen (pc_key c) (theirs_of c) d)"

lemma stable_list_seen: "stable sys_step (\<lambda>d. books_inv d \<and> list_seen cs d)"
  by (rule books_stableI) (use theirs_seen_lasts in \<open>auto simp: list_seen_def\<close>)

definition listed :: "database \<Rightarrow> charge \<Rightarrow> provider_charge" where
  "listed d c = \<lparr>pc_key = (case ch_key c of None \<Rightarrow> [] | Some k \<Rightarrow> k), pc_charge = charge_name (ch_id c),
     pc_amount = ch_amount c,
     pc_status = (if exists_where (\<lambda>r. pr_charge r = charge_name (ch_id c)) (provider_refunds d) \<and>
         ch_status c = Charged then ''refunded'' else charge_state_text (ch_status c)),
     pc_created = ch_created c\<rparr>"

lemma listed_seen:
  assumes "c \<in> set (charges d)" and "ch_key c = Some k"
  shows "theirs_seen k (theirs_of (listed d c)) d"
  using assms
  by (cases "ch_status c") (auto simp: theirs_seen_def theirs_of_def listed_def has_decline_def exists_where_def)

lemma runs_list_charges:
  "runs sys_step V books_inv (list_charges from to) (\<lambda>cs d. books_inv d \<and> list_seen cs d) (\<lambda>_. books_inv)"
proof -
  let ?row = "\<lambda>(cid, key, amount, status, created, refunded).
    \<lparr>pc_key = key, pc_charge = charge_name cid, pc_amount = amount,
     pc_status = (if refunded \<and> status = Charged then ''refunded'' else charge_state_text status),
     pc_created = created\<rparr>"
  have sel: "runs sys_step V books_inv (stmt (select_charges_between from to))
      (\<lambda>rows d. books_inv d \<and> list_seen (map ?row rows) d) (\<lambda>_. books_inv)"
  proof (rule runs_step_plain [OF once_performs [OF performs_stmt]])
    fix d d' rows
    assume "\<exists>n. select_charges_between from to n d = Inr (rows, d')"
    then have d': "d' = d" and rows: "map ?row rows =
        map (listed d) (filter (\<lambda>c. from \<le> ch_created c \<and> ch_created c < to) (charges d))"
      by (auto simp: select_charges_between_def query_def listed_def)
    have "list_seen (map ?row rows) d"
      unfolding rows list_seen_def
    proof (intro ballI impI)
      fix c assume "c \<in> set (map (listed d) (filter (\<lambda>c. from \<le> ch_created c \<and> ch_created c < to) (charges d)))"
        and key: "pc_key c \<noteq> []"
      then obtain r where r: "r \<in> set (charges d)" "c = listed d r" by auto
      then have "ch_key r = Some (pc_key c)" using key by (auto simp: listed_def split: option.splits)
      with r show "theirs_seen (pc_key c) (theirs_of c) d" using listed_seen by simp
    qed
    with d' show "sys_step\<^sup>*\<^sup>* d d' \<and> (books_inv d' \<longrightarrow> list_seen (map ?row rows) d')" by blast
  qed
  show ?thesis
    unfolding list_charges_def
    by (intro runs_attempt [OF runs_is_down [OF stable_books]] runs_false runs_if runs_fail
        runs_attempt [OF sel] runs_ret) auto
qed

lemma runs_audit:
  "runs sys_step V books_inv (audit list_charges transition amount_text shuffle from to)
     (\<lambda>_. books_inv) (\<lambda>_. books_inv)"
proof -
  let ?all = "\<lambda>ours cs d. books_inv d \<and> all_seen (ours_by_key ours) (theirs_by_key cs) d"
  have read: "runs sys_step V (\<lambda>d. books_inv d \<and> list_seen cs d) (stmt (select_ours from to keys))
      (\<lambda>ours. ?all ours cs) (\<lambda>_. books_inv)" for cs keys
  proof (rule runs_conseq [OF runs_step [OF once_performs [OF performs_stmt] stable_list_seen]])
    fix d d' ours
    assume cs: "list_seen cs d" and "\<exists>n. select_ours from to keys n d = Inr (ours, d')"
    then have d': "d' = d" and eq: "ours = map (ours_of d) (filter
        (\<lambda>p. case pay_key p of None \<Rightarrow> False
          | Some k \<Rightarrow> from \<le> pay_created p \<and> pay_created p < to \<or> k \<in> set keys) (payments d))"
      by (auto simp: select_ours_def query_def)
    have ours: "\<exists>p\<in>set (payments d). \<exists>k. pay_key p = Some k \<and> x = ours_of d p" if "x \<in> set ours" for x
    proof -
      have "x \<in> ours_of d ` set (filter (\<lambda>p. case pay_key p of None \<Rightarrow> False
          | Some k \<Rightarrow> from \<le> pay_created p \<and> pay_created p < to \<or> k \<in> set keys) (payments d))"
        using that unfolding eq set_map .
      then obtain p where "x = ours_of d p" "p \<in> set (filter (\<lambda>p. case pay_key p of None \<Rightarrow> False
          | Some k \<Rightarrow> from \<le> pay_created p \<and> pay_created p < to \<or> k \<in> set keys) (payments d))"
        by (rule imageE)
      then show ?thesis by (cases "pay_key p") auto
    qed
    have "all_seen (ours_by_key ours) (theirs_by_key cs) d"
      unfolding all_seen_def
    proof (intro allI conjI impI)
      fix k x assume "ours_by_key ours k = Some x"
      then have "x \<in> set ours" "os_key x = k" using ours_by_key_Some by blast+
      then obtain p k' where p: "p \<in> set (payments d)" "pay_key p = Some k'" "x = ours_of d p" using ours by blast
      then have "k' = k" using \<open>os_key x = k\<close> by (simp add: ours_of_def Let_def)
      with p show "ours_seen k x d" using ours_of_seen by simp
    next
      fix k th assume "theirs_by_key cs k = Some th"
      from theirs_by_key_Some [OF this] cs show "theirs_seen k th d" by (auto simp: list_seen_def)
    qed
    with d' show "sys_step\<^sup>*\<^sup>* d d' \<and> (books_inv d' \<longrightarrow> all_seen (ours_by_key ours) (theirs_by_key cs) d')" by blast
  qed auto
  have report: "runs sys_step V (?all ours cs) (stmt (insert_run from to)) (\<lambda>_. ?all ours cs) (\<lambda>_. ?all ours cs)"
    for ours cs by (rule runs_report [OF _ stable_all_seen]) (use report_statements in blast)
  have final: "runs sys_step V books_inv (stmt (finish_run rep)) (\<lambda>_. books_inv) (\<lambda>_. books_inv)" for rep
    by (rule runs_stmt_step) (metis report_statements(3) reports)
  show ?thesis
    unfolding audit_def Let_def
    by (rule runs_attempt [OF runs_list_charges])
      (auto intro!: runs_fail runs_attempt [OF read] runs_attempt [OF report] runs_attempt [OF runs_audit_keys]
        runs_attempt [OF final] runs_ret)
qed

lemma runs_audit_tick:
  assumes "0 \<le> every"
  shows "runs sys_step V books_inv
     (audit_tick (try_claim name) (audit list_charges transition amount_text shuffle) app_now every window)
     (\<lambda>_. books_inv) (\<lambda>_. books_inv)"
proof -
  have lease: "runs sys_step V books_inv (stmt (update_lease name every)) (\<lambda>_. books_inv) (\<lambda>_. books_inv)"
    by (rule runs_stmt_step) (use lease_taken [OF assms] in blast)
  have claim: "runs sys_step V books_inv (try_claim name every) (\<lambda>_. books_inv) (\<lambda>_. books_inv)"
    unfolding try_claim_def by (rule runs_attempt [OF lease]) (auto intro: runs_fail runs_ret)
  show ?thesis
    unfolding audit_tick_def
    by (intro runs_attempt [OF claim] runs_if runs_attempt [OF runs_audit] runs_ret)
qed

section \<open>What the audit says of a sound state\<close>

text \<open>The number of a refund is never 0, the value \<open>COALESCE\<close> gives for no refund.\<close>

definition numbered_inv :: "database \<Rightarrow> bool" where
  "numbered_inv d \<longleftrightarrow> (\<forall>f\<in>set (refunds d). 0 < rf_id f)"

lemma numbered_update:
  "(\<And>f. rf_id (h f) = rf_id f) \<Longrightarrow> (\<forall>f\<in>set (update_where P h fs). 0 < rf_id f) \<longleftrightarrow> (\<forall>f\<in>set fs. 0 < rf_id f)"
  unfolding update_where_def by (induction fs) auto

lemma step_numbered:
  assumes "sys_step d d'" and "numbered_inv d"
  shows "numbered_inv d'"
  using assms(1)
proof (cases rule: sys_step.cases)
  case (placed items key r)
  then show ?thesis using placed_frame(1) assms(2) by (simp add: money_tables_eq numbered_inv_def)
next
  case (cancelled oid r)
  then show ?thesis
    using assms(2) cancel_db_money [of oid d, unfolded money_tables_eq]
    by (auto simp: cancel_eff_def refund_eff_def numbered_inv_def split: option.splits if_splits)
next
  case (settled pid to pr reason)
  then obtain p where "d' = transition_db p to pr reason d" by (auto simp: transition_eff_def)
  then have "refunds d' = refunds d" by (simp add: transition_db_def Let_def)
  then show ?thesis using assms(2) by (simp add: numbered_inv_def)
next
  case (refunded r c)
  then have "refunds d' = update_where (refund_open (dr_id r)) (settle_refund c) (refunds d)"
    by (auto simp: refunded_eff_def refunded_db_def)
  then show ?thesis using assms(2) by (simp add: numbered_inv_def numbered_update)
next
  case relayed
  then show ?thesis using outbox_frames(1) assms(2) by (simp add: money_tables_eq numbered_inv_def)
next
  case (dead_lettered ids err)
  then show ?thesis using outbox_frames(2) assms(2) by (simp add: money_tables_eq numbered_inv_def)
next
  case cleaned
  then show ?thesis using outbox_frames(3) assms(2) by (simp add: money_tables_eq numbered_inv_def)
next
  case (refund_leased cfg locked n rs)
  then have "refunds d' = update_where (leased cfg locked d) (lease_refund cfg (now d)) (refunds d)"
    by (auto simp: lease_refunds_def)
  then show ?thesis using assms(2) by (simp add: numbered_inv_def numbered_update)
next
  case (refund_later i t err n)
  then have "refunds d' = update_where (refund_open i) (\<lambda>r. r\<lparr>rf_next := now d + t, rf_error := Some err\<rparr>) (refunds d)"
    by (auto simp: update_refund_later_def)
  then show ?thesis using assms(2) by (simp add: numbered_inv_def numbered_update)
next
  case (refund_manual i err n)
  then have "refunds d' = update_where (refund_open i) (\<lambda>r. r\<lparr>rf_status := RefundManualReview, rf_error := Some err\<rparr>) (refunds d)"
    by (auto simp: update_refund_manual_def)
  then show ?thesis using assms(2) by (simp add: numbered_inv_def numbered_update)
next
  case (refund_confirmed i n)
  then have "refunds d' = update_where (\<lambda>r. rf_id r = i \<and> (rf_status r = RefundPending \<or> rf_status r = RefundManualReview)) (confirm_row) (refunds d)"
    by (auto simp: confirm_refund_def)
  then show ?thesis using assms(2) by (simp add: numbered_inv_def numbered_update confirm_row_def)
qed (use assms(2) in \<open>auto simp: numbered_inv_def insert_charge_sql insert_provider_refund_sql update_lease_def Let_def
    start_eff_def start_db_def books_only_def dest!: claim_frame request_frames\<close>)

interpretation audit_machine: invariant initial_db sys_step "\<lambda>d. books_inv d \<and> numbered_inv d"
  by unfold_locales
    (use initial_books step_books step_numbered in \<open>auto simp: initial_db_def empty_db_def numbered_inv_def\<close>)

text \<open>The refund of a payment whose charge has gone back.\<close>

lemma returned_charge:
  assumes inv: "books_inv d" and c: "c \<in> set (charges d)" and p: "p \<in> set (payments d)"
    and key: "ch_key c = pay_key p" and x: "x \<in> set (provider_refunds d)" "pr_charge x = charge_name (ch_id c)"
  shows "\<exists>f\<in>set (refunds d). rf_payment f = pay_id p \<and>
    (pay_status p = PaymentSucceeded \<and> rf_status f \<noteq> RefundSucceeded \<or> pay_status p = PaymentRefunded)"
proof -
  note ids = books_parts(1) [OF inv]
  obtain f q where f: "f \<in> set (refunds d)" and q: "q \<in> set (payments d)" "pay_id q = rf_payment f"
    "pay_provider q = Some (pr_charge x)"
    using return_invD(1) [OF books_parts(5) [OF inv] x(1)] by blast
  obtain q' where q': "q' \<in> set (payments d)" "pay_id q' = rf_payment f"
    "pay_status q' = PaymentSucceeded \<and> rf_status f \<noteq> RefundSucceeded \<or> pay_status q' = PaymentRefunded"
    using refund_invE [OF books_parts(3) [OF inv] f] by metis
  have "q' = q" using payment_unique [OF ids q'(1) q(1)] q'(2) q(2) by simp
  then obtain b where b: "b \<in> set (charges d)" "ch_key b = pay_key q" "pay_provider q = Some (charge_name (ch_id b))"
    using charge_invD(1) [OF books_parts(4) [OF inv] q(1)] q'(3) by blast
  have "ch_id b = ch_id c" using b(3) q(3) x(2) by simp
  then have "b = c" using ids b(1) c unfolding ids_inv_def by (metis distinct_key_eq)
  then have "q = p" using payment_key_unique [OF ids q(1) p] b(2) key by simp
  then show ?thesis using f q(2) q'(3) \<open>q' = q\<close> by auto
qed

lemma find_refund:
  assumes "ids_inv d" and "f \<in> set (refunds d)" and "rf_payment f = i"
  shows "List.find (\<lambda>r. rf_payment r = i) (refunds d) = Some f"
proof -
  obtain g where g: "List.find (\<lambda>r. rf_payment r = i) (refunds d) = Some g"
    using assms(2,3) find_None_iff [of "\<lambda>r. rf_payment r = i" "refunds d"]
    by (cases "List.find (\<lambda>r. rf_payment r = i) (refunds d)") auto
  then have "g = f" using refund_unique(1) [OF assms(1) _ assms(2)] assms(3) by (auto dest: find_Some_in)
  with g show ?thesis by simp
qed

text \<open>A payment has one of the five statuses of the code.\<close>

lemma path_known:
  "payment_path ss \<Longrightarrow> ss \<noteq> [] \<Longrightarrow> hd ss \<noteq> OtherPayment s \<Longrightarrow> last ss \<noteq> OtherPayment s"
  by (induction ss rule: payment_path.induct) (auto simp: can_transition_payment_iff)

lemma known_status:
  assumes "books_inv d" and "p \<in> set (payments d)"
  shows "pay_status p \<noteq> OtherPayment s"
proof -
  have h: "history (pay_id p) d \<noteq> []" "hd (history (pay_id p) d) = PaymentPending"
    "payment_path (history (pay_id p) d)" "last (history (pay_id p) d) = pay_status p"
    using books_parts(6) [OF assms(1)] assms(2) by (auto simp: history_inv_def)
  show ?thesis using path_known [OF h(3,1), of s] h by simp
qed

lemma sound_classify:
  assumes inv: "books_inv d" and num: "numbered_inv d"
    and p: "p \<in> set (payments d)" and c: "c \<in> set (charges d)" and key: "ch_key c = pay_key p"
    and manual: "fd_action (classify amount_text (Some (ours_of d p)) (Some (theirs_of (listed d c)))) = Manual"
  shows "pay_status p = PaymentExpired \<and> ch_status c = Charged"
proof -
  let ?os = "ours_of d p" and ?th = "theirs_of (listed d c)"
  note ids = books_parts(1) [OF inv]
  have amount: "os_amount ?os = th_amount ?th"
    using charge_amount [OF ids books_parts(4) [OF inv] c p key]
    by (simp add: ours_of_def theirs_of_def listed_def Let_def)
  have status: "os_status ?os = pay_status p" by (simp add: ours_of_def Let_def)
  note known = known_status [OF inv p]
  have own: "b = c" if "b \<in> set (charges d)" "ch_key b = pay_key p" for b
    using charge_unique [OF ids that(1) c] that(2) key by simp
  show ?thesis
  proof (cases "ch_status c")
    case Declined
    then have th: "th_status ?th = ''declined''" by (simp add: theirs_of_def listed_def)
    have "pay_status p \<noteq> PaymentSucceeded \<and> pay_status p \<noteq> PaymentRefunded"
      using charge_invD(1) [OF books_parts(4) [OF inv] p] own Declined by fastforce
    then show ?thesis
      using manual th status by (cases "pay_status p") (auto simp: known classify_def Let_def matched_pair_def)
  next
    case Charged
    have failed: "pay_status p \<noteq> PaymentFailed"
      using charge_invD(2) [OF books_parts(4) [OF inv] p] own Charged by fastforce
    show ?thesis
    proof (cases "exists_where (\<lambda>r. pr_charge r = charge_name (ch_id c)) (provider_refunds d)")
      case False
      have th: "th_status ?th = ''charged''" using False Charged by (simp add: theirs_of_def listed_def)
      have "pay_status p \<noteq> PaymentRefunded"
      proof
        assume r: "pay_status p = PaymentRefunded"
        then obtain x where x: "x \<in> set (provider_refunds d)" "pay_provider p = Some (pr_charge x)"
          using return_invD(2) [OF books_parts(5) [OF inv] p] by blast
        have "pay_provider p = Some (charge_name (ch_id c))"
          using charge_invD(1) [OF books_parts(4) [OF inv] p] r own by blast
        with x False show False by (auto simp: exists_where_def)
      qed
      then show ?thesis
        using manual th status amount failed Charged
        by (cases "pay_status p") (auto simp: known classify_def Let_def matched_pair_def)
    next
      case True
      then obtain x where x: "x \<in> set (provider_refunds d)" "pr_charge x = charge_name (ch_id c)"
        by (auto simp: exists_where_def)
      obtain f where f: "f \<in> set (refunds d)" "rf_payment f = pay_id p"
        "pay_status p = PaymentSucceeded \<and> rf_status f \<noteq> RefundSucceeded \<or> pay_status p = PaymentRefunded"
        using returned_charge [OF inv c p key x] by blast
      have th: "th_status ?th = ''refunded''" using True Charged by (simp add: theirs_of_def listed_def)
      have os: "os_refund ?os = rf_id f" "os_refund_status ?os = refund_status_text (rf_status f)"
        using find_refund [OF ids f(1,2)] by (simp_all add: ours_of_def Let_def)
      have "0 < rf_id f" using num f(1) by (auto simp: numbered_inv_def)
      then have False
        using manual th status amount os f(3)
        by (cases "rf_status f") (auto simp: classify_def Let_def matched_pair_def)
      then show ?thesis ..
    qed
  qed
qed

lemma sound_missing:
  assumes inv: "books_inv d"
  shows "p \<in> set (payments d) \<Longrightarrow> \<forall>c\<in>set (charges d). ch_key c \<noteq> pay_key p \<Longrightarrow>
      fd_kind (classify amount_text (Some (ours_of d p)) None) = Matched"
    and "c \<in> set (charges d) \<Longrightarrow> \<exists>p\<in>set (payments d). ch_key c = pay_key p"
proof -
  assume p: "p \<in> set (payments d)" and "\<forall>c\<in>set (charges d). ch_key c \<noteq> pay_key p"
  then have "pay_status p \<noteq> PaymentSucceeded \<and> pay_status p \<noteq> PaymentRefunded"
    using charge_invD(1) [OF books_parts(4) [OF inv] p] by blast
  then show "fd_kind (classify amount_text (Some (ours_of d p)) None) = Matched"
    using known_status [OF inv p]
    by (cases "pay_status p") (auto simp: classify_def ours_of_def Let_def)
next
  show "c \<in> set (charges d) \<Longrightarrow> \<exists>p\<in>set (payments d). ch_key c = pay_key p"
    using charge_invD(3) [OF books_parts(4) [OF inv]] by metis
qed

end
