(* ===== verification/Relay.thy ===== *)
theory Relay
  imports Outbox
begin

text \<open>
  The loop of the relay, \<open>Run\<close> of \<open>worker/outbox_relay.go\<close>: \<open>relay_round\<close> is one pass (a batch, the next pause and, once a
  minute, the cleaning), \<open>relay_run\<close> a number of them; \<open>relay_state\<close> holds its local variables and the gauge of the lag. The four readings of
  the process's clock in a pass (for the gauge, the check of the interval, the cutoff of the cleaning, the new \<open>lastCleanup\<close>) are its argument. What is
  shown: with a broker that decides on every message, the loop settles every event.
\<close>

section \<open>The loop\<close>

definition cleanup_interval :: time where "cleanup_interval = minutes 1"

definition select_oldest :: "time sql" where
  "select_oldest = query (\<lambda>d. row_or_none (case sort_key ob_id (filter (\<lambda>r. ob_published r = None) (outbox d)) of
     [] \<Rightarrow> None | r # rs \<Rightarrow> Some (ob_created r)))"

text \<open>The new value of the gauge \<open>OutboxLagSeconds\<close>, or \<open>None\<close> where it keeps its value.\<close>

definition update_lag_metric :: "time \<Rightarrow> time option act" where
  "update_lag_metric t =
     attempt (stmt select_oldest) (\<lambda>err. if errors_is err NoRows then ret (Some 0) else ret None) (\<lambda>created_at.
     ret (Some (t - created_at)))"

record relay_state =
  rl_delay :: "64 word"
  rl_last_cleanup :: time
  rl_lag :: time

definition relay_round ::
  "int set \<Rightarrow> (message list \<Rightarrow> write_outcome) \<Rightarrow> time \<times> time \<times> time \<times> time \<Rightarrow> relay_state \<Rightarrow> relay_state act" where
  "relay_round locked write clocks s =
     (case clocks of (t0, t1, t2, t3) \<Rightarrow>
      attempt (update_lag_metric t0) fail (\<lambda>lag.
      attempt (result_of (process_batch locked write)) fail (\<lambda>result.
      let s = s\<lparr>rl_lag := (case lag of Some v \<Rightarrow> v | None \<Rightarrow> rl_lag s), rl_delay := relay_delay result (rl_delay s)\<rparr> in
      if cleanup_interval \<le> t1 - rl_last_cleanup s
      then attempt (cleanup t2) fail (\<lambda>_. ret (s\<lparr>rl_last_cleanup := t3\<rparr>))
      else ret s)))"

primrec relay_run ::
  "int set \<Rightarrow> (message list \<Rightarrow> write_outcome) \<Rightarrow> (time \<times> time \<times> time \<times> time) list \<Rightarrow> relay_state \<Rightarrow> relay_state act" where
  "relay_run locked write [] s = ret s"
| "relay_run locked write (t # ts) s = attempt (relay_round locked write t s) fail (relay_run locked write ts)"

section \<open>Every event is settled\<close>

text \<open>A broker that takes a message or refuses it for good.\<close>

definition final :: "write_error option \<Rightarrow> bool" where
  "final e = (case e of None \<Rightarrow> True | Some x \<Rightarrow> is_poison x)"

definition decides :: "(message list \<Rightarrow> write_outcome) \<Rightarrow> bool" where
  "decides write \<longleftrightarrow> (\<forall>ms. case write ms of
       WriteOk \<Rightarrow> True
     | WriteErrors _ es \<Rightarrow> length es = length ms \<and> (\<forall>e\<in>set es. final e)
     | WriteFailed _ \<Rightarrow> False)"

definition no_stranded :: "database \<Rightarrow> bool" where
  "no_stranded d \<longleftrightarrow> (\<forall>r\<in>set (outbox d). ob_published r = None \<longrightarrow> ob_retries r < max_retries)"

definition weight :: "outbox_row \<Rightarrow> nat" where
  "weight r = (if ob_published r = None then nat (max_retries - ob_retries r) else 0)"

definition work :: "database \<Rightarrow> nat" where
  "work d = sum_list (map weight (outbox d))"

lemma quiet_next [simp]: "outside {} d w \<Longrightarrow> env (next_event w) = (\<lambda>d. d)"
  by (cases "events w") (auto simp: outside_def next_event_def quiet_event_def)

lemma faultless_empty [simp]: "faultless {}"
  by (simp add: faultless_def)

lemma decided_batch:
  assumes "decides write" and "rows \<noteq> []"
  shows "\<exists>es. per_message (length rows) (write (map message_of rows)) = Inr es \<and> length es = length rows \<and>
    (\<forall>e\<in>set es. final e)"
  using assms(1) [unfolded decides_def, rule_format, of "map message_of rows"]
  by (cases "write (map message_of rows)") (auto simp: per_message_def final_def)

lemma decided_ids:
  assumes "length es = length ids" and "\<forall>e\<in>set es. final e"
  shows "set ids \<subseteq> set (published_ids ids es) \<union> set (poisoned_ids ids es)"
proof
  fix i assume "i \<in> set ids"
  then obtain j where j: "j < length ids" "ids ! j = i" by (auto simp: in_set_conv_nth)
  then have "final (es ! j)" using assms by auto
  with j show "i \<in> set (published_ids ids es) \<union> set (poisoned_ids ids es)"
    using assms(1) by (cases "es ! j") (auto simp: mem_published_ids mem_poisoned_ids final_def)
qed

lemma decided_some:
  assumes "decides write" and "rows \<noteq> []" and "per_message (length rows) (write (map message_of rows)) = Inr es"
    and "published_ids (map ob_id rows) es = []" and "poisoned_ids (map ob_id rows) es = []"
  shows False
proof -
  have "length es = length (map ob_id rows)" "\<forall>e\<in>set es. final e"
    using decided_batch [OF assms(1,2)] assms(3) by auto
  from decided_ids [OF this] assms(2,4,5) show False by (cases rows) auto
qed

lemma performs_decided:
  assumes "decides write"
  shows "performs (batch_tx locked write) (batch_eff locked write) (\<lambda>d e. False)"
proof -
  have no_err: "per_message (length rows) (write (map message_of rows)) \<noteq> Inl e" if "rows \<noteq> []" for rows e
    using decided_batch [OF assms that] by auto
  have some: "False" if "rows \<noteq> []" "write (map message_of rows) = WriteErrors msg es"
    "poisoned_ids (map ob_id rows) es = []" "published_ids (map ob_id rows) es = []" for rows msg es
    by (rule decided_some [OF assms that(1) _ that(4,3)]) (simp add: per_message_def that(2))
  have no_fail: "write ms \<noteq> WriteFailed x" for ms x
    using assms [unfolded decides_def, rule_format, of ms] by auto
  show ?thesis
    unfolding batch_tx_def
    by (rule performs_tx,
        auto simp: wp_simps sql_simps Let_def no_err elim!: wp_stmt_tx wp_commit_ok split: sum.splits,
        auto simp: batch_eff_def batch_ids_def per_message_def Let_def no_fail
          split: write_outcome.splits if_splits,
        metis some)
qed

text \<open>What a pass does to the weights.\<close>

lemma sum_weight_mono:
  assumes "\<And>r. r \<in> set rs \<Longrightarrow> weight (f r) \<le> weight r"
  shows "sum_list (map (\<lambda>r. weight (f r)) rs) \<le> sum_list (map weight rs)"
  using assms by (induction rs) (auto intro: add_mono)

lemma sum_weight_less:
  assumes "\<And>r. r \<in> set rs \<Longrightarrow> weight (f r) \<le> weight r" and "s \<in> set rs" and "weight (f s) < weight s"
  shows "sum_list (map (\<lambda>r. weight (f r)) rs) < sum_list (map weight rs)"
  using assms(1,2)
proof (induction rs)
  case (Cons r rs)
  show ?case
  proof (cases "s = r")
    case True
    then show ?thesis using assms(3) sum_weight_mono [of rs f] Cons.prems(1) by (simp add: add_less_le_mono)
  next
    case False
    then show ?thesis using Cons.IH Cons.prems by (simp add: add_le_less_mono)
  qed
qed simp

lemma sum_weight_filter: "sum_list (map weight (filter P rs)) \<le> sum_list (map weight rs)"
  by (induction rs) auto

lemma delete_where_filter: "delete_where P rs = filter (\<lambda>r. \<not> P r) rs"
  by (simp add: delete_where_def)

lemma weight_zero: "weight r = 0 \<longleftrightarrow> (ob_published r = None \<longrightarrow> max_retries \<le> ob_retries r)"
  by (auto simp: weight_def)

lemma work_zero: "work d = 0 \<longleftrightarrow> (\<forall>r\<in>set (outbox d). ob_published r = None \<longrightarrow> max_retries \<le> ob_retries r)"
  by (simp add: work_def weight_zero)

definition progress :: "database \<Rightarrow> database \<Rightarrow> bool" where
  "progress d d' \<longleftrightarrow> (no_stranded d \<longrightarrow> no_stranded d') \<and> (work d' < work d \<or> work d = 0 \<and> work d' = 0)"

definition batch_row :: "int list \<Rightarrow> int list \<Rightarrow> time \<Rightarrow> outbox_row \<Rightarrow> outbox_row" where
  "batch_row ps fs t r = (let r' = if ob_id r \<in> set ps then publish_row t r else r
     in if ob_id r' \<in> set fs then fail_row t r' else r')"

lemma weight_batch_row:
  "weight (batch_row ps fs t r) \<le> weight r"
  "ob_id r \<in> set ps \<union> set fs \<Longrightarrow> ob_published r = None \<Longrightarrow> ob_retries r < max_retries \<Longrightarrow>
     weight (batch_row ps fs t r) < weight r"
  by (auto simp: batch_row_def weight_def Let_def)

lemma marked_outbox: "outbox (mark_poisoned fs (mark_published ps d)) = map (batch_row ps fs (now d)) (outbox d)"
  by (simp add: mark_poisoned_def mark_published_def update_where_twice batch_row_def Let_def)

lemma batch_eff_decided:
  assumes "decides write" and "batch_eff {} write d r d'" and "batch_rows {} d \<noteq> []"
  shows "d' = mark_poisoned (fst (snd r)) (mark_published (fst r) d)"
    and "ob_id ` set (batch_rows {} d) \<subseteq> set (fst r) \<union> set (fst (snd r))"
proof -
  let ?rows = "batch_rows {} d"
  have eff: "batch_ids {} write d = Inr (fst r, fst (snd r))" and
    d': "d' = mark_poisoned (fst (snd r)) (mark_published (fst r) d)"
    using assms(2,3) by (simp_all add: batch_eff_def)
  obtain es where es: "per_message (length ?rows) (write (map message_of ?rows)) = Inr es"
    "length es = length (map ob_id ?rows)" "\<forall>e\<in>set es. final e"
    using decided_batch [OF assms(1,3)] by auto
  then have "fst r = published_ids (map ob_id ?rows) es" "fst (snd r) = poisoned_ids (map ob_id ?rows) es"
    using eff by (auto simp: batch_ids_def Let_def)
  then show "ob_id ` set ?rows \<subseteq> set (fst r) \<union> set (fst (snd r))" using decided_ids [OF es(2,3)] by simp
  show "d' = mark_poisoned (fst (snd r)) (mark_published (fst r) d)" by (rule d')
qed

lemma no_batch_rows: "batch_rows {} d = [] \<longleftrightarrow> work d = 0"
proof -
  have "batch_rows {} d = [] \<longleftrightarrow> filter (due {}) (outbox d) = []"
    by (cases "sort_key ob_id (filter (due {}) (outbox d))")
      (auto simp: batch_rows_def batch_size_def take_Suc dest: arg_cong [of _ _ set])
  then show ?thesis by (auto simp: work_zero filter_empty_conv due_def)
qed

lemma work_marked:
  assumes "s \<in> set (outbox d)" "ob_id s \<in> set ps \<union> set fs" "ob_published s = None" "ob_retries s < max_retries"
  shows "work (mark_poisoned fs (mark_published ps d)) < work d"
  unfolding work_def marked_outbox map_map comp_def
  by (rule sum_weight_less [OF weight_batch_row(1) assms(1) weight_batch_row(2) [OF assms(2-4)]])

lemma work_moved: "work (move_exhausted ids err d) \<le> work d"
  by (simp add: work_def move_exhausted_def delete_where_filter sum_weight_filter)

lemma no_stranded_moved:
  assumes "no_stranded d"
  shows "no_stranded (move_exhausted fs err (mark_poisoned fs (mark_published ps d)))"
  using assms
  by (auto simp: no_stranded_def move_exhausted_def delete_where_filter marked_outbox exhausted_def batch_row_def Let_def
      not_le split: if_splits)

lemma no_stranded_published:
  assumes "no_stranded d"
  shows "no_stranded (mark_poisoned [] (mark_published ps d))"
  using assms by (auto simp: no_stranded_def mark_published_def update_where_def)

lemma process_batch_progress:
  assumes "decides write" and out: "outside {} d w"
  shows "wp (process_batch {} write) (\<lambda>r w'. \<exists>d'. outside {} d' w' \<and> progress d d') (\<lambda>e w'. False) w"
proof -
  have tx: "wp (batch_tx {} write) (\<lambda>r w'. \<exists>d'. outside {} d' w' \<and> batch_eff {} write d r d') (\<lambda>e w'. False) w"
    by (rule wp_mono [OF performsD [OF performs_decided [OF assms(1)] out]]) (use out in auto)
  show ?thesis
    unfolding process_batch_def wp_simps
  proof (rule wp_mono [OF tx], clarify)
    fix ps fs werr w' d'
    assume out': "outside {} d' w'" and eff: "batch_eff {} write d (ps, fs, werr) d'"
    show "wp (attempt (if fs \<noteq> [] then move_to_dlq fs (case werr of None \<Rightarrow> [] | Some e \<Rightarrow> error_text e) else ret ()) fail
        (\<lambda>_. ret (length ps, werr))) (\<lambda>r w'. \<exists>d'. outside {} d' w' \<and> progress d d') (\<lambda>e w'. False) w'"
    proof (cases "batch_rows {} d = []")
      case True
      then have "ps = [] \<and> fs = [] \<and> d' = d" using eff by (simp add: batch_eff_def)
      then show ?thesis using out' True by (auto simp: wp_simps progress_def no_batch_rows)
    next
      case False
      then obtain s where s: "s \<in> set (batch_rows {} d)" by (cases "batch_rows {} d") auto
      then have due: "s \<in> set (outbox d)" "ob_published s = None" "ob_retries s < max_retries"
        using set_batch_rows [of "{}" d] by (auto simp: due_def)
      have d': "d' = mark_poisoned fs (mark_published ps d)" and ids: "ob_id s \<in> set ps \<union> set fs"
        using batch_eff_decided [OF assms(1) eff False] s by auto
      have less: "work d' < work d" unfolding d' by (rule work_marked [OF due(1) ids due(2,3)])
      show ?thesis
      proof (cases "fs = []")
        case True
        then show ?thesis using out' less no_stranded_published by (auto simp: wp_simps progress_def d')
      next
        case False
        have "progress d (move_exhausted fs err d')" for err
          using less work_moved [of fs err d'] no_stranded_moved d' by (auto simp: progress_def)
        moreover note env = quiet_next [OF out']
        ultimately show ?thesis
          using False out' by (auto simp: wp_simps move_to_dlq_def sql_simps env elim!: wp_stmt_outside)
      qed
    qed
  qed auto
qed

text \<open>The cleaning deletes published events only.\<close>

lemma delete_expired_progress:
  assumes "delete_expired cutoff n d = Inr (k, d')"
  shows "work d' \<le> work d" and "no_stranded d \<Longrightarrow> no_stranded d'"
  using assms by (auto simp: delete_expired_def work_def no_stranded_def delete_where_filter sum_weight_filter)

definition no_more_work :: "database \<Rightarrow> database \<Rightarrow> bool" where
  "no_more_work d d' \<longleftrightarrow> work d' \<le> work d \<and> (no_stranded d \<longrightarrow> no_stranded d')"

lemma cleanup_progress:
  "outside {} d w \<Longrightarrow> wp (cleanup_loop i cutoff n) (\<lambda>r w'. \<exists>d'. outside {} d' w' \<and> no_more_work d d') (\<lambda>e w'. False) w"
proof (induction i arbitrary: d w n)
  case (Suc i)
  note env = quiet_next [OF Suc.prems]
  show ?case
    unfolding cleanup_loop.simps wp_simps
  proof (rule wp_stmt_outside [OF Suc.prems], goal_cases)
    case (3 k a d' w')
    note run = 3(1) and out = 3(2)
    have less: "no_more_work d d'" using delete_expired_progress [OF run [unfolded env]] by (simp add: no_more_work_def)
    have "wp (cleanup_loop i cutoff (n + a)) (\<lambda>r w'. \<exists>d''. outside {} d'' w' \<and> no_more_work d d'') (\<lambda>e w'. False) w'"
      by (rule wp_mono [OF Suc.IH [OF out]]) (use less in \<open>auto simp: no_more_work_def\<close>)
    then show ?case using out less by (auto simp: wp_simps)
  qed (auto simp: delete_expired_def)
qed (auto simp: wp_simps no_more_work_def)

lemma lag_progress:
  "outside {} d w \<Longrightarrow> wp (update_lag_metric t) (\<lambda>r w'. outside {} d w') (\<lambda>e w'. False) w"
  unfolding update_lag_metric_def wp_simps
  by (rule wp_stmt_outside) (auto simp: wp_simps select_oldest_def query_def split: sum.splits)

lemma round_progress:
  assumes "decides write" and "outside {} d w"
  shows "wp (relay_round {} write t s) (\<lambda>r w'. \<exists>d'. outside {} d' w' \<and> progress d d') (\<lambda>e w'. False) w"
proof -
  obtain t0 t1 t2 t3 where ts: "t = (t0, t1, t2, t3)" by (cases t) auto
  have sweep: "wp (cleanup t2) (\<lambda>r w'. \<exists>d'. outside {} d' w' \<and> progress d d') (\<lambda>e w'. False) w1"
    if "outside {} d1 w1" "progress d d1" for d1 w1
    unfolding cleanup_def
    by (rule wp_mono [OF cleanup_progress [OF that(1)]]) (use that(2) in \<open>auto simp: progress_def no_more_work_def\<close>)
  have batch: "wp (process_batch {} write) (\<lambda>a w'. \<exists>d'. outside {} d' w' \<and> progress d d') (\<lambda>e w'. False) w0"
    if "outside {} d w0" for w0
    by (rule process_batch_progress [OF assms(1) that])
  show ?thesis
    unfolding relay_round_def ts prod.case result_of_def wp_simps Let_def
    by (rule wp_mono [OF lag_progress [OF assms(2)]], rule wp_mono [OF batch], assumption)
      (use sweep in \<open>auto simp: wp_simps wp_if\<close>)
qed

lemma run_progress:
  assumes "decides write"
  shows "outside {} d w \<Longrightarrow> wp (relay_run {} write ts s)
    (\<lambda>r w'. \<exists>d'. outside {} d' w' \<and> (no_stranded d \<longrightarrow> no_stranded d') \<and> work d' \<le> work d - length ts) (\<lambda>e w'. False) w"
proof (induction ts arbitrary: d w s)
  case (Cons t ts)
  show ?case
    unfolding relay_run.simps wp_simps
  proof (rule wp_mono [OF round_progress [OF assms Cons.prems]])
    fix s' w1 assume "\<exists>d1. outside {} d1 w1 \<and> progress d d1"
    then obtain d1 where d1: "outside {} d1 w1" "progress d d1" by blast
    show "wp (relay_run {} write ts s') (\<lambda>r w'. \<exists>d'. outside {} d' w' \<and> (no_stranded d \<longrightarrow> no_stranded d') \<and>
        work d' \<le> work d - length (t # ts)) (\<lambda>e w'. False) w1"
      by (rule wp_mono [OF Cons.IH [OF d1(1)]]) (use d1(2) in \<open>force simp: progress_def\<close>)+
  qed
qed (auto simp: wp_simps)

lemma work_bound: "\<forall>r\<in>set (outbox d). 0 \<le> ob_retries r \<Longrightarrow> work d \<le> 5 * length (outbox d)"
proof -
  assume pos: "\<forall>r\<in>set (outbox d). 0 \<le> ob_retries r"
  have "sum_list (map weight rs) \<le> 5 * length rs" if "\<forall>r\<in>set rs. 0 \<le> ob_retries r" for rs
    using that by (induction rs) (auto simp: weight_def max_retries_def)
  then show ?thesis using pos by (simp add: work_def)
qed



end
