(* ===== verification/Workers.thy ===== *)
theory Workers
  imports Audits Relay
begin

text \<open>
  The endless loops of the workers: \<open>Run\<close> of \<open>worker/refund_worker.go\<close> and \<open>worker/reconcile_worker.go\<close>, \<open>RunScheduled\<close> and
  \<open>RunScheduledOnce\<close> of \<open>reconciliation/job.go\<close>, all a \<open>select\<close> between a ticker and the end of the context; and \<open>Run\<close> of
  \<open>worker/outbox_relay.go\<close>, which is \<open>relay_run\<close>.

  What the \<open>select\<close> picks is an argument, a list of \<open>pick\<close>s: \<open>Tick i\<close> is a tick with what the world decides about its round, \<open>Done\<close> the end of the
  context. \<open>ticker\<close> is the loop over the picks; its value says whether it has returned. The error of a
  round is logged and does not end the loop.
\<close>

section \<open>The loops\<close>

datatype 'i pick = Tick 'i | Done

primrec ticker :: "('i \<Rightarrow> unit act) \<Rightarrow> 'i pick list \<Rightarrow> bool act" where
  "ticker one_round [] = ret False"
| "ticker one_round (p # ps) =
     (case p of
        Done \<Rightarrow> ret True
      | Tick i \<Rightarrow> attempt (result_of (one_round i)) fail (\<lambda>_. ticker one_round ps))"

definition refund_run ::
  "refund_settings \<Rightarrow> (string \<Rightarrow> string \<Rightarrow> money \<Rightarrow> string act) \<Rightarrow> int set pick list \<Rightarrow> bool act" where
  "refund_run cfg refund_fn = ticker (process_due cfg refund_fn)"

definition reconcile_run ::
  "reconcile_settings \<Rightarrow> (string \<Rightarrow> (charge_lookup \<times> string) act) \<Rightarrow>
   (int \<Rightarrow> payment_status \<Rightarrow> string \<Rightarrow> string \<Rightarrow> unit act) \<Rightarrow> (time \<Rightarrow> string) \<Rightarrow> int set pick list \<Rightarrow> bool act" where
  "reconcile_run cfg status_fn transition_fn age_text = ticker (process_stuck cfg status_fn transition_fn age_text)"

text \<open>\<open>time.Now()\<close> and the order of Go's map in the round of the tick\<close>

definition run_scheduled ::
  "((string list \<Rightarrow> string list) \<Rightarrow> time \<Rightarrow> time \<Rightarrow> report act) \<Rightarrow> time \<Rightarrow>
   (time \<times> (string list \<Rightarrow> string list)) pick list \<Rightarrow> bool act" where
  "run_scheduled run window =
     ticker (\<lambda>(t, shuffle). attempt (run shuffle (t - window) t) fail (\<lambda>_. ret ()))"

definition run_scheduled_once ::
  "(time \<Rightarrow> bool act) \<Rightarrow> ((string list \<Rightarrow> string list) \<Rightarrow> time \<Rightarrow> time \<Rightarrow> report act) \<Rightarrow> time \<Rightarrow> time \<Rightarrow>
   (time \<times> (string list \<Rightarrow> string list)) pick list \<Rightarrow> bool act" where
  "run_scheduled_once claim_fn run every window =
     ticker (\<lambda>(t, shuffle). audit_tick claim_fn (run shuffle) t every window)"

section \<open>What the loops do\<close>

text \<open>A loop returns when its context ends and not before, whatever its rounds do.\<close>

lemma ticker_returns: "\<exists>w'. ticker one_round ps w = (Inr (Done \<in> set ps), w')"
proof (induction ps arbitrary: w)
  case (Cons p ps)
  show ?case
  proof (cases p)
    case (Tick i)
    obtain r w1 where "result_of (one_round i) w = (Inr r, w1)"
      by (cases "one_round i w"; cases "fst (one_round i w)") (auto simp: result_of_def attempt_def ret_def)
    moreover obtain w' where "ticker one_round ps w1 = (Inr (Done \<in> set ps), w')" using Cons.IH by blast
    ultimately show ?thesis using Tick by (simp add: attempt_def)
  qed (simp add: ret_def)
qed (simp add: ret_def)

text \<open>After the end of the context it does nothing.\<close>

lemma ticker_stops: "ticker one_round (ps @ Done # qs) = ticker one_round (ps @ [Done])"
  by (induction ps) (auto split: pick.splits)

lemma runs_ticker:
  assumes "\<And>i. runs S V I (one_round i) (\<lambda>_. I) (\<lambda>_. I)"
  shows "runs S V I (ticker one_round ps) (\<lambda>_. I) (\<lambda>_. I)"
proof (induction ps)
  case (Cons p ps)
  show ?case
  proof (cases p)
    case (Tick i)
    have "runs S V I (result_of (one_round i)) (\<lambda>_. I) (\<lambda>_. I)"
      by (rule runs_conseq [OF runs_result_of [OF assms]]) (auto split: sum.splits)
    then show ?thesis using Tick by (auto intro: runs_attempt runs_fail Cons.IH)
  qed (auto intro: runs_ret)
qed (auto intro: runs_ret)

lemma runs_relay_round:
  "runs sys_step V books_inv (relay_round locked write t s) (\<lambda>_. books_inv) (\<lambda>_. books_inv)"
proof -
  have lag: "runs sys_step V books_inv (update_lag_metric u) (\<lambda>_. books_inv) (\<lambda>_. books_inv)" for u
    unfolding update_lag_metric_def select_oldest_def
    by (rule runs_attempt [OF runs_query]) (auto intro: runs_ret)
  have batch: "runs sys_step V books_inv (result_of (process_batch locked write)) (\<lambda>_. books_inv) (\<lambda>_. books_inv)"
    by (rule runs_conseq [OF runs_result_of [OF runs_process_batch]]) (auto split: sum.splits)
  obtain t0 t1 t2 t3 where "t = (t0, t1, t2, t3)" by (cases t) auto
  then show ?thesis
    unfolding relay_round_def Let_def cleanup_def
    by (auto intro!: runs_attempt [OF lag] runs_attempt [OF batch] runs_if runs_attempt [OF runs_cleanup_loop]
        intro: runs_ret runs_fail)
qed

lemma runs_relay_run: "runs sys_step V books_inv (relay_run locked write ts s) (\<lambda>_. books_inv) (\<lambda>_. books_inv)"
proof (induction ts arbitrary: s)
  case (Cons t ts)
  show ?case unfolding relay_run.simps by (rule runs_attempt [OF runs_relay_round runs_fail Cons.IH])
qed (auto intro: runs_ret)

lemma runs_refund_run: "runs sys_step V books_inv (refund_run cfg refund_charge ps) (\<lambda>_. books_inv) (\<lambda>_. books_inv)"
  unfolding refund_run_def by (rule runs_ticker [OF runs_process_due])

lemma runs_reconcile_run:
  "runs sys_step V books_inv (reconcile_run cfg charge_status transition age_text ps) (\<lambda>_. books_inv) (\<lambda>_. books_inv)"
  unfolding reconcile_run_def by (rule runs_ticker [OF runs_process_stuck])

lemma runs_scheduled:
  "runs sys_step V books_inv (run_scheduled (audit list_charges transition amount_text) window ps) (\<lambda>_. books_inv) (\<lambda>_. books_inv)"
  unfolding run_scheduled_def
  by (rule runs_ticker) (auto intro!: runs_attempt [OF runs_audit] intro: runs_ret runs_fail)

lemma runs_scheduled_once:
  assumes "0 \<le> every"
  shows "runs sys_step V books_inv
    (run_scheduled_once (try_claim name) (audit list_charges transition amount_text) every window ps)
    (\<lambda>_. books_inv) (\<lambda>_. books_inv)"
  unfolding run_scheduled_once_def by (rule runs_ticker) (use runs_audit_tick [OF assms] in auto)

end
