(* ===== verification/Answers.thy ===== *)
theory Answers
  imports System
begin

text \<open>
  The endpoint \<open>POST /orders/{id}/pay\<close> among the other steps of the service: an answer that is stored
  under an idempotency key stays true (\<open>requests_inv\<close>), so the answer of every attempt, first or repeated, is true
  (\<open>runs_pay_endpoint\<close>). \<open>replaying\<close> is the interpretation of \<open>idempotency_store\<close> on the repository.
\<close>

definition answer_fine :: "string \<Rightarrow> int \<Rightarrow> string \<Rightarrow> database \<Rightarrow> bool" where
  "answer_fine key code body d \<longleftrightarrow> (code = 200 \<longrightarrow> paid_answer key body d)"

definition requests_inv :: "database \<Rightarrow> bool" where
  "requests_inv d \<longleftrightarrow> (\<forall>r\<in>set (pay_requests d). rq_status r = Completed \<longrightarrow>
     answer_fine (rq_key r) (claim_code (stored (rq_code r) (rq_body r)))
       (claim_body (stored (rq_code r) (rq_body r))) d)"

lemma stored_sel [simp]:
  "claim_code (stored (Some code) b) = code" "claim_body (stored c (Some body)) = body"
  "\<not> claim_owner (stored c b)" "\<not> claim_mismatch (stored c b)" "\<not> claim_busy (stored c b)"
  "claim_owner owner" "claim_mismatch mismatch" "claim_busy busy" "claim_code owner = 0"
  by (simp_all add: stored_def owner_def busy_def mismatch_def empty_claim_def)

lemma placed_requests: "placed_eff items key d r d' \<Longrightarrow> pay_requests d' = pay_requests d"
proof -
  have items: "items_eff oid is c c' \<Longrightarrow> pay_requests c' = pay_requests c" for oid "is" c c'
    by (induction "is" arbitrary: c) (auto simp: item_eff_def item_db_def)
  assume "placed_eff items key d r d'"
  then obtain d1 where create: "create_eff items key d r d1" and ev: "d' = d1 \<or> add_event (fst r) d1 d'"
    by (auto simp: placed_eff_def split: if_splits)
  have "pay_requests d1 = pay_requests d"
    using create by (auto simp: create_eff_def place_eff_def open_order_def remember_order_def
        keep_idem_key_def Let_def dest!: items split: option.splits)
  then show ?thesis using ev by (auto simp: add_event_def)
qed

lemma step_request_cases:
  assumes "sys_step d d'"
  obtains (same) "pay_requests d' = pay_requests d"
  | (claimed) key hash c where "claim_db key hash d = (c, d')"
  | (released) key n where "release_request key n d = Inr ((), d')"
  | (completed) code key body n where "answer_fine key code body d" "complete_request key code body n d = Inr ((), d')"
  using assms
proof (cases rule: sys_step.cases)
  case (placed items key r)
  then show ?thesis using same placed_requests by blast
next
  case (cancelled oid r)
  then show ?thesis
    by (intro same) (auto simp: cancel_eff_def refund_eff_def cancel_db_def split: option.splits if_splits)
next
  case (settled pid to pr reason)
  then obtain p where "d' = transition_db p to pr reason d" by (auto simp: transition_eff_def)
  then show ?thesis by (intro same) (simp add: transition_db_def Let_def)
next
  case (relayed locked wr x)
  then show ?thesis by (intro same) (auto simp: batch_eff_def mark_published_def mark_poisoned_def split: if_splits)
next
  case request_claimed
  then show ?thesis using claimed by blast
next
  case request_released
  then show ?thesis using released by blast
next
  case request_answered
  then show ?thesis using completed by (auto simp: answer_fine_def)
qed (rule same, auto simp: start_eff_def start_db_def insert_charge_sql insert_provider_refund_sql lease_refunds_def
    update_refund_later_def update_refund_manual_def confirm_refund_def refunded_eff_def refunded_db_def
    books_only_def move_exhausted_def delete_expired_def update_lease_def Let_def)

lemma answer_fine_lasts:
  "answer_fine key code body d \<Longrightarrow> payments_last d d' \<Longrightarrow> journal_grows d d' \<Longrightarrow> answer_fine key code body d'"
  unfolding answer_fine_def paid_answer_def using received_lasts by blast

lemma requests_subset:
  assumes "requests_inv d" "payments_last d d'" "journal_grows d d'"
    and "\<And>r. r \<in> set (pay_requests d') \<Longrightarrow> rq_status r = Completed \<Longrightarrow>
      \<exists>s\<in>set (pay_requests d). rq_status s = Completed \<and> rq_key s = rq_key r \<and> rq_code s = rq_code r \<and> rq_body s = rq_body r"
  shows "requests_inv d'"
  unfolding requests_inv_def
proof (intro ballI impI)
  fix r assume "r \<in> set (pay_requests d')" "rq_status r = Completed"
  from assms(4) [OF this] obtain s where "s \<in> set (pay_requests d)" "rq_status s = Completed"
    "rq_key s = rq_key r" "rq_code s = rq_code r" "rq_body s = rq_body r" by blast
  with assms(1) answer_fine_lasts [OF _ assms(2,3)]
  show "answer_fine (rq_key r) (claim_code (stored (rq_code r) (rq_body r)))
      (claim_body (stored (rq_code r) (rq_body r))) d'"
    unfolding requests_inv_def by metis
qed

lemma step_requests:
  assumes step: "sys_step d d'" and inv: "books_inv d" "requests_inv d"
  shows "requests_inv d'"
proof -
  note lasts = step_payments [OF step inv(1)] step_journal [OF step]
  show ?thesis
    using step
  proof (cases rule: step_request_cases)
    case same
    then show ?thesis by (intro requests_subset [OF inv(2) lasts]) auto
  next
    case (claimed key hash c)
    then show ?thesis
      by (intro requests_subset [OF inv(2) lasts])
        (auto simp: claim_db.simps renewed_def set_update_where split: option.splits if_splits, blast+)
  next
    case (released key n)
    then show ?thesis
      by (intro requests_subset [OF inv(2) lasts]) (auto simp: release_request_def set_update_where)
  next
    case (completed code key body n)
    have fine: "answer_fine key code body d'" using completed(1) lasts by (rule answer_fine_lasts)
    let ?h = "\<lambda>r. r\<lparr>rq_status := Completed, rq_code := Some code, rq_body := Some body\<rparr>"
    have d': "pay_requests d' = update_where (\<lambda>r. rq_key r = key) ?h (pay_requests d)"
      using completed(2) by (auto simp: complete_request_def)
    show ?thesis
      unfolding requests_inv_def
    proof (intro ballI impI)
      fix r assume r: "r \<in> set (pay_requests d')" "rq_status r = Completed"
      then consider s where "rq_key s = key" "r = ?h s" | "r \<in> set (pay_requests d)"
        by (auto simp: d' set_update_where)
      then show "answer_fine (rq_key r) (claim_code (stored (rq_code r) (rq_body r)))
          (claim_body (stored (rq_code r) (rq_body r))) d'"
      proof cases
        case 2
        then show ?thesis using inv(2) r(2) lasts answer_fine_lasts unfolding requests_inv_def by blast
      qed (use fine in simp)
    qed
  qed
qed

lemma stable_requests: "stable sys_step (\<lambda>d. books_inv d \<and> requests_inv d)"
  by (rule stableI) (use step_books step_requests in blast)

interpretation requests_machine: invariant initial_db sys_step "\<lambda>d. books_inv d \<and> requests_inv d"
  by unfold_locales
    (use initial_books step_books step_requests in \<open>auto simp: initial_db_def empty_db_def requests_inv_def\<close>)

section \<open>The endpoint\<close>

abbreviation sound :: "database \<Rightarrow> bool" where
  "sound d \<equiv> books_inv d \<and> requests_inv d"

lemma stable_answer: "stable sys_step (\<lambda>d. sound d \<and> answer_fine key code body d)"
proof (rule stableI)
  fix d d' assume inv: "sound d \<and> answer_fine key code body d" and step: "sys_step d d'"
  then have "sound d'" using step_books step_requests by blast
  moreover have "answer_fine key code body d'"
    using inv step_payments [OF step] step_journal [OF step] answer_fine_lasts by blast
  ultimately show "sound d' \<and> answer_fine key code body d'" ..
qed

lemma claimed_fine:
  assumes inv: "sound d" and eff: "claim_eff key hash d c d'"
  shows "sys_step\<^sup>*\<^sup>* d d'"
    and "\<not> claim_owner c \<Longrightarrow> \<not> claim_mismatch c \<Longrightarrow> \<not> claim_busy c \<Longrightarrow>
      answer_fine key (claim_code c) (claim_body c) d'"
proof -
  show "sys_step\<^sup>*\<^sup>* d d'" using eff by (auto simp: claim_eff_def intro: request_claimed)
  assume no: "\<not> claim_owner c" "\<not> claim_mismatch c" "\<not> claim_busy c"
  then have "claim_db key hash d = (c, d')" using eff by (auto simp: claim_eff_def)
  then obtain r where r: "List.find (\<lambda>r. rq_key r = key) (pay_requests d) = Some r" "rq_status r = Completed"
    "c = stored (rq_code r) (rq_body r)" "d' = d"
    using no by (auto simp: claim_db.simps split: option.splits if_splits)
  then have "r \<in> set (pay_requests d)" "rq_key r = key" using find_Some_in [OF r(1)] by auto
  with inv r show "answer_fine key (claim_code c) (claim_body c) d'" by (auto simp: requests_inv_def)
qed

lemma runs_claim_request:
  "runs sys_step V sound (claim key hash)
    (\<lambda>c d. sound d \<and> (\<not> claim_owner c \<and> \<not> claim_mismatch c \<and> \<not> claim_busy c \<longrightarrow>
       answer_fine key (claim_code c) (claim_body c) d)) (\<lambda>_. sound)"
proof (rule runs_once [OF once_performs [OF performs_claim] stable_requests])
  fix d c d' and e :: gerr
  assume inv: "sound d" and eff: "claim_eff key hash d c d'"
  note fine = claimed_fine [OF inv eff]
  show "sys_step\<^sup>*\<^sup>* d d'" by (rule fine(1))
  show s: "sound d'" using stableD [OF stable_requests inv fine(1)] .
  show "sound d' \<and> (\<not> claim_owner c \<and> \<not> claim_mismatch c \<and> \<not> claim_busy c \<longrightarrow>
      answer_fine key (claim_code c) (claim_body c) d')" using s fine(2) by blast
qed auto

lemma runs_answer_step:
  assumes "stable sys_step (\<lambda>d. sound d \<and> P d)"
    and "\<And>n d a d'. P d \<Longrightarrow> f n d = Inr (a, d') \<Longrightarrow> sys_step d d'"
  shows "runs sys_step V (\<lambda>d. sound d \<and> P d) (stmt f) (\<lambda>_. sound) (\<lambda>_. sound)"
proof (rule runs_once [OF once_performs [OF performs_stmt] assms(1)])
  fix d a d' and e :: gerr
  assume inv: "sound d \<and> P d" and eff: "\<exists>n. f n d = Inr (a, d')"
  show "sys_step\<^sup>*\<^sup>* d d'" using eff inv assms(2) by blast
  then show "sound d'" "sound d'" using stableD [OF assms(1) inv] by blast+
qed auto

lemma runs_complete:
  "runs sys_step V (\<lambda>d. sound d \<and> answer_fine key code body d) (complete key code body) (\<lambda>_. sound) (\<lambda>_. sound)"
  unfolding complete_def
  by (rule runs_answer_step [OF stable_answer]) (auto simp: answer_fine_def intro: request_answered)

lemma runs_release: "runs sys_step V sound (release key) (\<lambda>_. sound) (\<lambda>_. sound)"
  unfolding release_def
  using runs_answer_step [of "\<lambda>_. True" "release_request key"] stable_requests by (auto intro: request_released)

interpretation replaying: idempotency_store sys_step sound claim complete release answer_fine
  by (unfold_locales; (rule stable_answer runs_claim_request runs_complete runs_release | simp add: answer_fine_def))

lemma runs_pay_handler:
  assumes "hq_key r \<noteq> []"
  shows "runs sys_step V sound (pay_handler (pay start_or_resume transition (charge unlucky) crash) r)
    (\<lambda>x d. sound d \<and> answer_fine (hq_key r) (rs_code x) (rs_body x) d) (\<lambda>_. sound)"
proof -
  have refuse: "runs sys_step V sound (ret (write_error err))
      (\<lambda>x d. sound d \<and> answer_fine (hq_key r) (rs_code x) (rs_body x) d) (\<lambda>_. sound)" for err
    using write_error_refuses by (intro runs_ret) (simp add: answer_fine_def)
  have pays: "runs sys_step V sound (pay start_or_resume transition (charge unlucky) crash oid (hq_key r))
      (\<lambda>c d. sound d \<and> received (hq_key r) c d) (\<lambda>_. sound)" for oid
    by (rule runs_conseq [OF runs_frame [OF paying.runs_pay [OF assms] stable_requests]]) auto
  obtain oid err where at: "atoi (hq_id r) = (oid, err)" by (cases "atoi (hq_id r)")
  show ?thesis
    unfolding pay_handler_def at prod.case
  proof (intro runs_if refuse runs_attempt [OF pays])
    fix e show "runs sys_step V sound (fail e)
        (\<lambda>x d. sound d \<and> answer_fine (hq_key r) (rs_code x) (rs_body x) d) (\<lambda>_. sound)"
      by (rule runs_fail)
  next
    fix c show "runs sys_step V (\<lambda>d. sound d \<and> received (hq_key r) c d) (ret (write_json 200 (paid_json oid c)))
        (\<lambda>x d. sound d \<and> answer_fine (hq_key r) (rs_code x) (rs_body x) d) (\<lambda>_. sound)"
      by (rule runs_ret) (auto simp: answer_fine_def paid_answer_def write_json_def)
  qed
qed

lemma runs_pay_endpoint:
  "runs sys_step V sound (pay_endpoint (pay start_or_resume transition (charge unlucky) crash) digest callers r)
    (\<lambda>xs d. sound d \<and> answered callers (\<lambda>x. answer_fine (hq_key r) (rs_code x) (rs_body x) d) xs) (\<lambda>_. sound)"
  unfolding pay_endpoint_def by (rule replaying.runs_idempotent) (use runs_pay_handler in auto)

end
