(* ===== verification/Handlers.thy ===== *)
theory Handlers
  imports OrderSvc PayApi
begin

text \<open>
  \<open>handler/handler.go\<close> and \<open>handler/dto.go\<close>: the handlers of orders and products, over the methods of the
  services, and the JSON they answer with.

  Arguments stand for \<open>StringFixed(2)\<close> of the library \<open>shopspring/decimal\<close> (\<open>price_text\<close>), for the JSON text
  of a time (\<open>time_text\<close>) and for the JSON decoder of a request body (\<open>decode\<close>, which also reports a body
  over the limit). A query parameter that is absent is the empty string, as \<open>url.Values.Get\<close> gives it.
\<close>

section \<open>Answers\<close>

definition item_json :: "(money \<Rightarrow> string) \<Rightarrow> order_item \<Rightarrow> json" where
  "item_json price_text i = JObject [(''product_id'', JInt (oi_product i)), (''quantity'', JInt (oi_quantity i)),
     (''price'', JText (price_text (oi_price i)))]"

definition order_json :: "(money \<Rightarrow> string) \<Rightarrow> (time \<Rightarrow> string) \<Rightarrow> order \<Rightarrow> json" where
  "order_json price_text time_text ord = JObject [(''id'', JInt (ord_id ord)),
     (''status'', JText (order_status_text (ord_status ord))), (''created_at'', JText (time_text (ord_created ord))),
     (''items'', JList (map (item_json price_text) (ord_items ord)))]"

definition product_json :: "(money \<Rightarrow> string) \<Rightarrow> product \<Rightarrow> json" where
  "product_json price_text p = JObject [(''id'', JInt (p_id p)), (''name'', JText (p_name p)),
     (''price'', JText (price_text (p_price p))), (''stock'', JInt (p_stock p))]"

definition orders_json ::
  "(money \<Rightarrow> string) \<Rightarrow> (time \<Rightarrow> string) \<Rightarrow> order list \<Rightarrow> order_cursor option \<Rightarrow> json" where
  "orders_json price_text time_text os cursor = JObject
     ((''orders'', JList (map (order_json price_text time_text) os)) #
      (case cursor of None \<Rightarrow> [] | Some c \<Rightarrow> [(''next_after_id'', JInt (cur_after c))]))"

section \<open>Handlers\<close>

definition get_products_handler :: "product list act \<Rightarrow> (money \<Rightarrow> string) \<Rightarrow> response act" where
  "get_products_handler svc_products price_text =
     attempt svc_products (\<lambda>err. ret (write_error err)) (\<lambda>ps.
     ret (write_json 200 (JList (map (product_json price_text) ps))))"

definition get_product_handler ::
  "(int \<Rightarrow> product act) \<Rightarrow> (money \<Rightarrow> string) \<Rightarrow> http_request \<Rightarrow> response act" where
  "get_product_handler svc_product price_text r =
     (case atoi (hq_id r) of (pid, err) \<Rightarrow>
        if err \<noteq> None then ret (write_error (Sentinel ErrProductNotFound))
        else
        attempt (svc_product pid) (\<lambda>err. ret (write_error err)) (\<lambda>p.
        ret (write_json 200 (product_json price_text p))))"

definition too_large :: response where
  "too_large = \<lparr>rs_code = 413, rs_json = False, rs_retry = False,
     rs_body = encode (error_response ''request body too large'') @ newline\<rparr>"

definition create_order_handler ::
  "(create_item list \<Rightarrow> string \<Rightarrow> (int \<times> bool) act) \<Rightarrow> (string \<Rightarrow> gerr + create_item list) \<Rightarrow>
   http_request \<Rightarrow> response act" where
  "create_order_handler svc_create decode r =
     (case decode (hq_body r) of
        Inl err \<Rightarrow>
          if error_text err = ''http: request body too large'' then ret too_large
          else ret (write_error (NewError ''invalid request body''))
      | Inr items \<Rightarrow>
          if length items = 0 \<or> 100 < int (length items)
          then ret (write_error (NewError ''order must have 1 to 100 items''))
          else
          attempt (svc_create items (hq_key r)) (\<lambda>err. ret (write_error err)) (\<lambda>(oid, exists).
          ret (write_json (if exists then 200 else 201) (JObject [(''id'', JInt oid)]))))"

definition read_cursor :: "http_request \<Rightarrow> gerr + order_cursor option" where
  "read_cursor r =
     (let after_id = hq_query r ''after_id'' in
      if after_id \<noteq> [] then
        case atoi after_id of (i, err) \<Rightarrow>
          if err \<noteq> None \<or> i \<le> 0 then Inl (Sentinel ErrInvalidCursor)
          else Inr (Some \<lparr>cur_after = i, cur_created = 0\<rparr>)
      else Inr None)"

definition get_orders_handler ::
  "(int \<Rightarrow> order_cursor option \<Rightarrow> (order list \<times> order_cursor option) act) \<Rightarrow>
   (money \<Rightarrow> string) \<Rightarrow> (time \<Rightarrow> string) \<Rightarrow> http_request \<Rightarrow> response act" where
  "get_orders_handler svc_orders price_text time_text r =
     (let limit = fst (atoi (hq_query r ''limit'')) in
      if hq_query r ''offset'' \<noteq> [] then ret (write_error (Sentinel ErrOffsetNotSupported))
      else case read_cursor r of
        Inl err \<Rightarrow> ret (write_error err)
      | Inr cursor \<Rightarrow>
          attempt (svc_orders limit cursor) (\<lambda>err. ret (write_error err)) (\<lambda>(os, next_cursor).
          ret (write_json 200 (orders_json price_text time_text os next_cursor))))"

definition get_order_handler ::
  "(int \<Rightarrow> order act) \<Rightarrow> (money \<Rightarrow> string) \<Rightarrow> (time \<Rightarrow> string) \<Rightarrow> http_request \<Rightarrow> response act" where
  "get_order_handler svc_order price_text time_text r =
     (case atoi (hq_id r) of (oid, err) \<Rightarrow>
        if err \<noteq> None then ret (write_error (Sentinel ErrOrderNotFound))
        else
        attempt (svc_order oid) (\<lambda>err. ret (write_error err)) (\<lambda>ord.
        ret (write_json 200 (order_json price_text time_text ord))))"

definition cancel_order_handler :: "(int \<Rightarrow> int act) \<Rightarrow> http_request \<Rightarrow> response act" where
  "cancel_order_handler svc_cancel r =
     (case atoi (hq_id r) of (oid, err) \<Rightarrow>
        if err \<noteq> None then ret (write_error (Sentinel ErrOrderNotFound))
        else
        attempt (svc_cancel oid) (\<lambda>err. ret (write_error err)) (\<lambda>cid.
        ret (write_json 200 (JObject [(''cancelled_id'', JInt cid)]))))"

section \<open>Bad requests\<close>

lemma write_error_new: "write_error (NewError msg) =
  \<lparr>rs_code = 500, rs_json = True, rs_retry = False,
   rs_body = encode (error_response ''Internal Server Error'') @ newline\<rparr>"
  by (simp add: write_error_def write_error_by_def Let_def status_by_def err_to_status_def status_text_def)

lemma check_items_new: "check_items seen items = Inl err \<Longrightarrow> \<exists>msg. err = NewError msg"
  by (induction seen items rule: check_items.induct) (auto split: if_splits sum.splits)



section \<open>Pages\<close>

lemma stmt_result: "stmt f w = (Inr a, w') \<Longrightarrow> \<exists>n d d'. f n d = Inr (a, d')"
  by (auto simp: stmt_def Let_def split: option.splits fault.splits sum.splits if_splits)

lemma quiet_query: "stmt (query q) (quiet_world d) =
    (case q d of Inl e \<Rightarrow> (Inl e, quiet_world d) | Inr a \<Rightarrow> (Inr a, quiet_world d))"
  by (auto simp: stmt_def query_def Let_def quiet_world_def next_event_def quiet_event_def split: sum.splits)

text \<open>The orders, newest first; the page before \<open>before\<close>.\<close>

definition newest_first :: "database \<Rightarrow> order_row list" where
  "newest_first d = rev (sort_key o_id (orders d))"

definition with_items :: "database \<Rightarrow> order_row \<Rightarrow> order" where
  "with_items d r = order_of r (filter (\<lambda>i. oi_order i = o_id r) (sort_key oi_id (order_items d)))"

lemma select_orders_page:
  "0 \<le> limit \<Longrightarrow> select_orders before limit = query (\<lambda>d. Inr (take (nat limit)
     (filter (\<lambda>r. case before of None \<Rightarrow> True | Some b \<Rightarrow> o_id r < b) (newest_first d))))"
  by (simp add: select_orders_def newest_first_def filter_sort [symmetric] rev_filter)

lemma page_items:
  "filter (\<lambda>i. oi_order i = o_id r) (sort_key oi_id (filter (\<lambda>i. oi_order i \<in> o_id ` set rows) is)) =
    filter (\<lambda>i. oi_order i = o_id r) (sort_key oi_id is)" if "r \<in> set rows"
proof -
  have "filter (\<lambda>i. oi_order i = o_id r) (sort_key oi_id (filter (\<lambda>i. oi_order i \<in> o_id ` set rows) is)) =
      sort_key oi_id (filter (\<lambda>i. oi_order i = o_id r) (filter (\<lambda>i. oi_order i \<in> o_id ` set rows) is))"
    by (rule filter_sort)
  also have "filter (\<lambda>i. oi_order i = o_id r) (filter (\<lambda>i. oi_order i \<in> o_id ` set rows) is) =
      filter (\<lambda>i. oi_order i = o_id r) is"
    using that by (auto simp: filter_filter intro!: filter_cong)
  finally show ?thesis by (simp add: filter_sort)
qed

definition page_rows :: "database \<Rightarrow> int \<Rightarrow> order_cursor option \<Rightarrow> order_row list" where
  "page_rows d limit cursor = take (nat limit)
     (filter (\<lambda>r. case cursor of Some c \<Rightarrow> cur_after c \<le> 0 \<or> o_id r < cur_after c | None \<Rightarrow> True) (newest_first d))"

lemma quiet_get_orders:
  assumes "0 < limit"
  shows "get_orders limit cursor (quiet_world d) =
    (Inr (map (with_items d) (page_rows d limit cursor),
       if int (length (page_rows d limit cursor)) = limit
       then Some \<lparr>cur_after = o_id (last (page_rows d limit cursor)),
         cur_created = o_created (last (page_rows d limit cursor))\<rparr>
       else None), quiet_world d)"
proof -
  let ?before = "case cursor of None \<Rightarrow> None | Some c \<Rightarrow> if 0 < cur_after c then Some (cur_after c) else None"
  have sel: "stmt (select_orders ?before limit) (quiet_world d) = (Inr (page_rows d limit cursor), quiet_world d)"
    using assms
    by (cases cursor) (auto simp: select_orders_page quiet_query page_rows_def intro!: arg_cong [of _ _ "take (nat limit)"] filter_cong)
  have items: "stmt (select_items_of (map o_id (page_rows d limit cursor))) (quiet_world d) =
      (Inr (sort_key oi_id (filter (\<lambda>i. oi_order i \<in> set (map o_id (page_rows d limit cursor))) (order_items d))),
       quiet_world d)"
    by (simp add: select_items_of_def quiet_query)
  show ?thesis
    unfolding get_orders_def attempt_def sel prod.case sum.case
    using assms items
    by (auto simp: ret_def with_items_def page_items)
qed

text \<open>A client that follows \<open>next_after_id\<close>, at most \<open>n\<close> pages.\<close>

fun follow :: "nat \<Rightarrow> database \<Rightarrow> int \<Rightarrow> order_cursor option \<Rightarrow> order list" where
  "follow 0 d limit cursor = []"
| "follow (Suc n) d limit cursor =
     (case fst (get_orders_svc limit cursor (quiet_world d)) of
        Inl e \<Rightarrow> []
      | Inr (os, None) \<Rightarrow> os
      | Inr (os, Some c) \<Rightarrow> os @ follow n d limit (Some c))"

lemma clamp_bounds: "1 \<le> clamp_limit limit" "clamp_limit limit \<le> 100"
  by (auto simp: clamp_limit_def default_limit_def max_limit_def Let_def)

lemma newest_first_sorted: "sorted_wrt (\<lambda>a b. o_id b \<le> o_id a) (newest_first d)"
  by (simp add: newest_first_def sorted_wrt_rev) (metis sorted_map sorted_sort_key)

lemma newest_first_ids: "map o_id (newest_first d) = rev (sort (map o_id (orders d)))"
proof -
  have "sort (map o_id (orders d)) = map o_id (sort_key o_id (orders d))"
    by (rule properties_for_sort) simp_all
  then show ?thesis by (simp add: newest_first_def rev_map)
qed

text \<open>What is left after a page are the orders older than its last one.\<close>

lemma older_rest:
  assumes "newest_first d = P @ R" and "P \<noteq> []" and "distinct (map o_id (orders d))"
  shows "filter (\<lambda>r. o_id r < o_id (last P)) (newest_first d) = R"
proof -
  have dist: "distinct (map o_id (P @ R))"
    using newest_first_ids [of d] assms(1,3) by (metis distinct_rev distinct_sort)
  have sorted: "sorted_wrt (\<lambda>a b. o_id b \<le> o_id a) (P @ R)" using newest_first_sorted [of d] assms(1) by simp
  have "\<not> o_id r < o_id (last P)" if r: "r \<in> set P" for r
  proof -
    obtain Q where P: "P = Q @ [last P]" using assms(2) by (metis append_butlast_last_id)
    then have "r \<in> set Q \<or> r = last P" using r by (metis rotate1.simps(2) set_ConsD set_rotate1)
    moreover have "\<forall>q\<in>set Q. o_id (last P) \<le> o_id q" using sorted P by (metis list.set_intros(1) sorted_wrt_append)
    ultimately show ?thesis by auto
  qed
  then have "filter (\<lambda>r. o_id r < o_id (last P)) P = []" by (simp add: filter_empty_conv)
  moreover have "filter (\<lambda>r. o_id r < o_id (last P)) R = R"
  proof (rule filter_True, rule ballI)
    fix r assume r: "r \<in> set R"
    have "last P \<in> set P" using assms(2) by simp
    then have "o_id r \<le> o_id (last P)" using sorted r by (simp add: sorted_wrt_append)
    moreover have "o_id r \<noteq> o_id (last P)" using dist r \<open>last P \<in> set P\<close> by fastforce
    ultimately show "o_id r < o_id (last P)" by simp
  qed
  ultimately show ?thesis by (simp add: assms(1))
qed

lemma follow_rest:
  assumes "distinct (map o_id (orders d))" and "\<forall>r\<in>set (orders d). 0 < o_id r"
  shows "newest_first d = P @ R \<Longrightarrow> length R < n \<Longrightarrow>
    (case cursor of None \<Rightarrow> P = [] | Some c \<Rightarrow> P \<noteq> [] \<and> cur_after c = o_id (last P)) \<Longrightarrow>
    follow n d limit cursor = map (with_items d) R"
proof (induction n arbitrary: P R cursor)
  case (Suc n)
  let ?k = "clamp_limit limit"
  let ?page = "take (nat ?k) R"
  have k: "0 < ?k" using clamp_bounds(1) [of limit] by simp
  have left: "filter (\<lambda>r. case cursor of Some c \<Rightarrow> cur_after c \<le> 0 \<or> o_id r < cur_after c | None \<Rightarrow> True)
      (newest_first d) = R"
  proof (cases cursor)
    case None
    then show ?thesis using Suc.prems(1,3) by simp
  next
    case (Some c)
    then have P: "P \<noteq> []" "cur_after c = o_id (last P)" using Suc.prems(3) by auto
    have "last P \<in> set (newest_first d)" using P(1) Suc.prems(1) by simp
    then have "0 < cur_after c" using P(2) assms(2) by (simp add: newest_first_def)
    then have "filter (\<lambda>r. cur_after c \<le> 0 \<or> o_id r < cur_after c) (newest_first d) =
        filter (\<lambda>r. o_id r < o_id (last P)) (newest_first d)"
      using P(2) by (intro filter_cong) auto
    then show ?thesis using older_rest [OF Suc.prems(1) P(1) assms(1)] Some by simp
  qed
  have page: "page_rows d ?k cursor = ?page" by (simp only: page_rows_def left)
  note run = quiet_get_orders [OF k, of cursor d, unfolded page]
  show ?case
  proof (cases "int (length ?page) = ?k")
    case False
    then have "?page = R" using k by (intro take_all) (simp add: min_def split: if_splits)
    then show ?thesis using run False by (simp add: get_orders_svc_def)
  next
    case True
    then have ne: "?page \<noteq> []" using k by (cases "?page") auto
    have "length (drop (nat ?k) R) < n" using Suc.prems(2) True k by auto
    moreover have "newest_first d = (P @ ?page) @ drop (nat ?k) R" using Suc.prems(1) by simp
    ultimately have rest: "follow n d limit (Some \<lparr>cur_after = o_id (last ?page), cur_created = o_created (last ?page)\<rparr>) =
        map (with_items d) (drop (nat ?k) R)"
      using ne by (intro Suc.IH [of "P @ ?page"]) auto
    then have "follow (Suc n) d limit cursor = map (with_items d) ?page @ map (with_items d) (drop (nat ?k) R)"
      using run True by (simp add: get_orders_svc_def)
    then show ?thesis by (metis append_take_drop_id map_append)
  qed
qed simp





text \<open>
  No page is longer than 100 orders, whatever limit the client asks for, whatever state the database is in and
  whatever else happens.
\<close>

theorem page_is_bounded:
  assumes "get_orders_svc limit cursor w = (Inr (os, next_cursor), w')"
  shows "int (length os) \<le> 100"
proof -
  let ?before = "case cursor of None \<Rightarrow> None | Some c \<Rightarrow> if 0 < cur_after c then Some (cur_after c) else None"
  let ?k = "clamp_limit limit"
  have short: "length rows \<le> nat ?k" if "select_orders ?before ?k n d = Inr (rows, d')" for n d rows d'
    using that clamp_bounds(1) [of limit] by (auto simp: select_orders_page sql_simps)
  obtain rows w1 where rows: "stmt (select_orders ?before ?k) w = (Inr rows, w1)" and
      os: "os = [] \<or> length os = length rows"
    using assms by (auto simp: get_orders_svc_def get_orders_def attempt_def ret_def fail_def
        split: prod.splits sum.splits if_splits)
  then show ?thesis using short stmt_result [OF rows] clamp_bounds [of limit] by fastforce
qed

theorem page_is_bounded_witness:
  "int (length (fst (projr (fst (get_orders_svc 1000000 None
     (quiet_world (empty_db\<lparr>orders := [\<lparr>o_id = 1, o_status = Paid, o_created = 5\<rparr>]\<rparr>))))))) \<le> 100"
proof -
  let ?run = "get_orders_svc 1000000 None
     (quiet_world (empty_db\<lparr>orders := [\<lparr>o_id = 1, o_status = Paid, o_created = 5\<rparr>]\<rparr>))"
  have "?run = (Inr (fst (projr (fst ?run)), snd (projr (fst ?run))), snd ?run)"
    unfolding get_orders_svc_def by (simp add: quiet_get_orders clamp_limit_def max_limit_def default_limit_def)
  then show ?thesis by (rule page_is_bounded)
qed

end
