(* ===== verification/Breaker.thy ===== *)
theory Breaker
  imports GoError Machine
begin

text \<open>
  \<open>internal/breaker/breaker.go\<close> and its only user, \<open>guard\<close> of \<open>internal/cache/redis.go\<close>.

  \<open>allow\<close> and \<open>call_done\<close> are the methods of \<open>Breaker\<close>, each one step because both hold the mutex; the
  clock is their argument. The second half is the breaker among its callers: \<open>breaker_step\<close> lets
  time pass, calls ask for permission and permitted calls report, in any order, also long after
  the breaker has tripped. \<open>onChange\<close> feeds a metric and is left out.
\<close>

section \<open>The breaker\<close>

datatype breaker_state = Closed | Open | HalfOpen

primrec breaker_state_text :: "breaker_state \<Rightarrow> string" where
  "breaker_state_text Closed = ''closed''"
| "breaker_state_text Open = ''open''"
| "breaker_state_text HalfOpen = ''half_open''"

record breaker =
  threshold :: int
  open_for :: time
  state :: breaker_state
  failures :: int
  opened_at :: time
  probing :: bool

definition new_breaker :: "int \<Rightarrow> time \<Rightarrow> breaker" where
  "new_breaker n t = \<lparr>threshold = (if n < 1 then 1 else n), open_for = t, state = Closed,
     failures = 0, opened_at = 0, probing = False\<rparr>"

definition set_state :: "breaker_state \<Rightarrow> breaker \<Rightarrow> breaker" where
  "set_state to b = (if state b = to then b else b\<lparr>state := to\<rparr>)"

definition trip :: "time \<Rightarrow> breaker \<Rightarrow> breaker" where
  "trip t b = set_state Open (b\<lparr>opened_at := t, failures := 0\<rparr>)"

definition allow :: "time \<Rightarrow> breaker \<Rightarrow> gerr option \<times> breaker" where
  "allow t b =
     (case state b of
        Open \<Rightarrow>
          if t - opened_at b < open_for b then (Some (Sentinel ErrBreakerOpen), b)
          else (None, (set_state HalfOpen b)\<lparr>probing := True\<rparr>)
      | HalfOpen \<Rightarrow>
          if probing b then (Some (Sentinel ErrBreakerOpen), b)
          else (None, b\<lparr>probing := True\<rparr>)
      | Closed \<Rightarrow> (None, b))"

definition call_done :: "bool \<Rightarrow> time \<Rightarrow> breaker \<Rightarrow> breaker" where
  "call_done success t b =
     (case state b of
        Closed \<Rightarrow>
          if success then b\<lparr>failures := 0\<rparr>
          else
            let b' = b\<lparr>failures := failures b + 1\<rparr>
            in if threshold b' \<le> failures b' then trip t b' else b'
      | HalfOpen \<Rightarrow>
          let b' = b\<lparr>probing := False\<rparr>
          in if success then set_state Closed (b'\<lparr>failures := 0\<rparr>) else trip t b'
      | Open \<Rightarrow> b)"

section \<open>The cache's use of it\<close>

text \<open>\<open>ctx.Err() != nil\<close> after the call is \<open>ctx_done\<close>; \<open>call\<close> acts on the store behind the cache.\<close>

definition is_redis_failure :: "bool \<Rightarrow> gerr option \<Rightarrow> bool" where
  "is_redis_failure ctx_done err =
     (case err of
        None \<Rightarrow> False
      | Some e \<Rightarrow>
          if errors_is e RedisNil then False
          else if errors_is e Canceled \<and> ctx_done then False
          else True)"

definition err_of :: "gerr + 'a \<Rightarrow> gerr option" where
  "err_of r = (case r of Inl e \<Rightarrow> Some e | Inr _ \<Rightarrow> None)"

definition guard ::
  "time \<Rightarrow> time \<Rightarrow> bool \<Rightarrow> ('s \<Rightarrow> (gerr + 'a) \<times> 's) \<Rightarrow> breaker option \<Rightarrow> 's \<Rightarrow>
   (gerr + 'a) \<times> breaker option \<times> 's" where
  "guard before after ctx_done call br s =
     (case br of
        None \<Rightarrow> (let (r, s') = call s in (r, None, s'))
      | Some b \<Rightarrow>
          (case allow before b of
             (Some _, b') \<Rightarrow> (Inl (Sentinel ErrCacheUnavailable), Some b', s)
           | (None, b') \<Rightarrow>
               (let (r, s') = call s
                in (r, Some (call_done (\<not> is_redis_failure ctx_done (err_of r)) after b'), s'))))"

section \<open>The breaker among its callers\<close>

record breaker_system =
  brk :: breaker
  clock :: time
  in_flight :: nat

inductive breaker_step :: "breaker_system \<Rightarrow> breaker_system \<Rightarrow> bool" where
  tick: "0 \<le> dt \<Longrightarrow> breaker_step s (s\<lparr>clock := clock s + dt\<rparr>)"
| admitted: "allow (clock s) (brk s) = (None, b) \<Longrightarrow>
    breaker_step s (s\<lparr>brk := b, in_flight := Suc (in_flight s)\<rparr>)"
| rejected: "allow (clock s) (brk s) = (Some e, b) \<Longrightarrow> breaker_step s (s\<lparr>brk := b\<rparr>)"
| reported: "in_flight s = Suc n \<Longrightarrow>
    breaker_step s (s\<lparr>brk := call_done success (clock s) (brk s), in_flight := n\<rparr>)"

definition breaker_init :: "breaker_system \<Rightarrow> bool" where
  "breaker_init s \<longleftrightarrow> (\<exists>n t. brk s = new_breaker n t) \<and> in_flight s = 0"

inductive_cases breaker_stepE: "breaker_step s t"

lemmas breaker_defs = allow_def call_done_def trip_def set_state_def new_breaker_def Let_def

text \<open>A probe is under way exactly in the half-open state, so only one is.\<close>

definition breaker_inv :: "breaker_system \<Rightarrow> bool" where
  "breaker_inv s \<longleftrightarrow>
     1 \<le> threshold (brk s) \<and> 0 \<le> failures (brk s) \<and> failures (brk s) < threshold (brk s) \<and>
     (state (brk s) \<noteq> Closed \<longrightarrow> failures (brk s) = 0 \<and> opened_at (brk s) \<le> clock s) \<and>
     (probing (brk s) \<longleftrightarrow> state (brk s) = HalfOpen)"

interpretation breaker_machine: invariant breaker_init breaker_step breaker_inv
proof
  show "breaker_inv s" if "breaker_init s" for s
    using that by (auto simp: breaker_init_def breaker_inv_def breaker_defs)
  show "breaker_inv t" if "breaker_inv s" "breaker_step s t" for s t
    using that(2,1) by (cases rule: breaker_stepE)
      (auto simp: breaker_inv_def breaker_defs split: breaker_state.splits if_splits)
qed

section \<open>What it guarantees\<close>

text \<open>\<open>trips k n rs\<close>: after \<open>n\<close> failures in a row, the results \<open>rs\<close> bring \<open>k\<close> in a row.\<close>

primrec trips :: "nat \<Rightarrow> nat \<Rightarrow> bool list \<Rightarrow> bool" where
  "trips k n [] \<longleftrightarrow> False"
| "trips k n (r # rs) \<longleftrightarrow> (if r then trips k 0 rs else k \<le> Suc n \<or> trips k (Suc n) rs)"

definition report_all :: "time \<Rightarrow> bool list \<Rightarrow> breaker \<Rightarrow> breaker" where
  "report_all t rs b = fold (\<lambda>r. call_done r t) rs b"

lemma report_all_open: "state b = Open \<Longrightarrow> report_all t rs b = b"
  by (induction rs) (auto simp: report_all_def call_done_def)

lemma report_all_trips:
  "state b = Closed \<Longrightarrow> failures b = int n \<Longrightarrow> threshold b = int k \<Longrightarrow> n < k \<Longrightarrow>
   state (report_all t rs b) = (if trips k n rs then Open else Closed)"
proof (induction rs arbitrary: b n)
  case Nil
  then show ?case by (simp add: report_all_def)
next
  case (Cons r rs)
  have run: "report_all t (r # rs) b = report_all t rs (call_done r t b)"
    by (simp add: report_all_def)
  show ?case
  proof (cases r)
    case True
    then show ?thesis using Cons.prems Cons.IH [of "b\<lparr>failures := 0\<rparr>" 0]
      unfolding run by (simp add: call_done_def)
  next
    case False
    show ?thesis
    proof (cases "k \<le> Suc n")
      case True
      then have "state (call_done r t b) = Open"
        using \<open>\<not> r\<close> Cons.prems by (simp add: call_done_def trip_def set_state_def)
      then show ?thesis using True \<open>\<not> r\<close> unfolding run by (simp add: report_all_open)
    next
      case small: False
      then show ?thesis
        using \<open>\<not> r\<close> Cons.prems Cons.IH [of "b\<lparr>failures := failures b + 1\<rparr>" "Suc n"]
        unfolding run by (simp add: call_done_def)
    qed
  qed
qed

lemma trips_iff:
  "n < k \<Longrightarrow> trips k n rs \<longleftrightarrow>
     (\<exists>xs ys. replicate n False @ rs = xs @ replicate k False @ ys)"
proof (induction rs arbitrary: n)
  case Nil
  have "replicate n False \<noteq> xs @ replicate k False @ ys" for xs ys
  proof
    assume "replicate n False = xs @ replicate k False @ ys"
    then have "length (replicate n False) = length (xs @ replicate k False @ ys)" by (rule arg_cong)
    with Nil show False by simp
  qed
  then show ?case by simp
next
  case (Cons r rs)
  show ?case
  proof (cases r)
    case True
    have "(\<exists>xs ys. replicate n False @ True # rs = xs @ replicate k False @ ys) \<longleftrightarrow>
        (\<exists>xs ys. rs = xs @ replicate k False @ ys)" (is "?L \<longleftrightarrow> ?R")
    proof
      assume ?R
      then obtain xs ys where "rs = xs @ replicate k False @ ys" by blast
      then have "replicate n False @ True # rs = (replicate n False @ True # xs) @ replicate k False @ ys"
        by simp
      then show ?L by blast
    next
      assume ?L
      then obtain xs ys where eq: "replicate n False @ True # rs = xs @ replicate k False @ ys" by blast
      from append_eq_append_conv2 [THEN iffD1, OF eq] obtain us where
        "replicate n False = xs @ us \<and> us @ True # rs = replicate k False @ ys \<or>
         replicate n False @ us = xs \<and> True # rs = us @ replicate k False @ ys" by blast
      then show ?R
      proof
        assume a: "replicate n False = xs @ us \<and> us @ True # rs = replicate k False @ ys"
        then have "length us < k" using Cons.prems by (metis length_append length_replicate le_add2 le_less_trans)
        then have "(us @ True # rs) ! length us = False"
          using a by (simp add: nth_append)
        then show ?thesis by simp
      next
        assume "replicate n False @ us = xs \<and> True # rs = us @ replicate k False @ ys"
        then show ?thesis using Cons.prems by (cases us; cases k) auto
      qed
    qed
    with True Cons.IH [of 0] Cons.prems show ?thesis by simp
  next
    case False
    have app: "replicate n False @ False # rs = replicate (Suc n) False @ rs"
      by (simp add: replicate_app_Cons_same)
    show ?thesis
    proof (cases "k \<le> Suc n")
      case True
      then have "k = Suc n" using Cons.prems by simp
      then have "replicate n False @ False # rs = [] @ replicate k False @ rs" using app by simp
      then have "\<exists>xs ys. replicate n False @ False # rs = xs @ replicate k False @ ys" by blast
      with False True show ?thesis by simp
    next
      case small: False
      have "r = False" using False by simp
      show ?thesis unfolding \<open>r = False\<close> app using small Cons.IH [of "Suc n"] by simp
    qed
  qed
qed

text \<open>How many of the callers that ask at the times \<open>ts\<close> get through, with no result in between.\<close>

primrec admissions :: "time list \<Rightarrow> breaker \<Rightarrow> nat" where
  "admissions [] b = 0"
| "admissions (t # ts) b =
     (case allow t b of (None, b') \<Rightarrow> Suc (admissions ts b') | (Some e, b') \<Rightarrow> admissions ts b')"

lemma admissions_probing: "state b = HalfOpen \<Longrightarrow> probing b \<Longrightarrow> admissions ts b = 0"
  by (induction ts) (simp_all add: allow_def)

text \<open>
  C20: The breaker opens exactly when threshold results in a row were failures. Fed with any list of
  results, a new breaker ends open if somewhere in the list there are max(1, n) consecutive
  failures, and closed otherwise; a success in between starts the count again.
\<close>

theorem breaker_trips_on_consecutive_failures:
  "state (report_all t rs (new_breaker n d)) =
     (if \<exists>xs ys. rs = xs @ replicate (nat (max 1 n)) False @ ys then Open else Closed)"
proof -
  have "state (new_breaker n d) = Closed" "failures (new_breaker n d) = int 0"
    "threshold (new_breaker n d) = int (nat (max 1 n))"
    by (simp_all add: new_breaker_def)
  moreover have "0 < nat (max 1 n)" by simp
  ultimately show ?thesis
    by (simp only: report_all_trips trips_iff replicate_0 append_Nil)
qed

text \<open>
  Everything a breaker among concurrent callers can reach keeps its invariant: the failure count
  stays below the threshold, a breaker that is not closed has count 0 and was opened in the past, and a
  probe is marked as under way exactly in the half-open state.
\<close>

theorem breaker_reachable_inv:
  "reachable breaker_init breaker_step s \<Longrightarrow>
     failures (brk s) < threshold (brk s) \<and>
     (state (brk s) \<noteq> Closed \<longrightarrow> failures (brk s) = 0 \<and> opened_at (brk s) \<le> clock s) \<and>
     (probing (brk s) \<longleftrightarrow> state (brk s) = HalfOpen)"
  using breaker_machine.inv_reachable by (auto simp: breaker_inv_def)

theorem breaker_reachable_inv_witness:
  "\<not> probing (brk \<lparr>brk = new_breaker 3 10, clock = 0, in_flight = 1\<rparr>)"
proof -
  let ?s = "\<lparr>brk = new_breaker 3 10, clock = 0, in_flight = 0\<rparr>"
  have "reachable breaker_init breaker_step ?s"
    by (rule reachable.start) (auto simp: breaker_init_def)
  moreover have "breaker_step ?s (?s\<lparr>brk := new_breaker 3 10, in_flight := Suc (in_flight ?s)\<rparr>)"
    by (rule breaker_step.admitted) (simp add: allow_def new_breaker_def)
  ultimately have "reachable breaker_init breaker_step \<lparr>brk = new_breaker 3 10, clock = 0, in_flight = 1\<rparr>"
    using reachable.step by fastforce
  from breaker_reachable_inv [OF this] show ?thesis by (simp add: new_breaker_def)
qed

text \<open>
  C21: A breaker that is not closed lets at most one call through until a result arrives, whatever the
  number of callers that ask and whenever they ask.
\<close>

theorem breaker_one_probe: "state b \<noteq> Closed \<Longrightarrow> admissions ts b \<le> 1"
proof (induction ts)
  case (Cons t ts)
  then show ?case
    by (cases "state b") (auto simp: allow_def set_state_def admissions_probing)
qed simp

theorem breaker_one_probe_witness:
  "admissions [5, 10, 11, 12] \<lparr>threshold = 1, open_for = 10, state = Open, failures = 0,
     opened_at = 0, probing = False\<rparr> \<le> 1"
  by (rule breaker_one_probe) simp

text \<open>
  What guard does with an open breaker. Before openFor has passed it answers with
  ErrUnavailable and does not run the call (the store behind the cache is untouched). After that it runs
  the call and its result decides: a failure of Redis itself opens the breaker again from that
  moment, anything else (a value, a cache miss, a client that went away) closes it.
\<close>

theorem guard_open:
  assumes "state b = Open"
  shows "guard before after ctx_done call (Some b) s =
    (if before - opened_at b < open_for b
     then (Inl (Sentinel ErrCacheUnavailable), Some b, s)
     else let (r, s') = call s in
       (r, Some (if is_redis_failure ctx_done (err_of r)
          then b\<lparr>state := Open, opened_at := after, failures := 0, probing := False\<rparr>
          else b\<lparr>state := Closed, failures := 0, probing := False\<rparr>), s'))"
  using assms
  by (auto simp: guard_def allow_def call_done_def trip_def set_state_def Let_def split: prod.splits)

theorem guard_open_witness:
  "guard 20 21 True (\<lambda>s. (Inl RedisNil :: gerr + int, Suc s)) (Some \<lparr>threshold = 2, open_for = 10,
     state = Open, failures = 0, opened_at = 0, probing = False\<rparr>) 0 =
   (Inl RedisNil, Some \<lparr>threshold = 2, open_for = 10, state = Closed, failures = 0,
     opened_at = 0, probing = False\<rparr>, 1)"
  by (subst guard_open) (simp_all add: is_redis_failure_def err_of_def)

text \<open>
  A late result can decide the probe. Two calls are admitted; the first fails and the breaker
  (threshold 1, openFor 10) opens at time 1; at time 11 a probe is admitted; then the second of the
  old calls reports success at time 12, and the breaker closes although the probe has not answered:
  reports carry no mark of the call they belong to.
\<close>

theorem breaker_late_result:
  "let b1 = snd (allow 0 (snd (allow 0 (new_breaker 1 10))));
       b2 = call_done False 1 b1;
       (admitted, b3) = allow 11 b2
   in state b2 = Open \<and> admitted = None \<and> state b3 = HalfOpen \<and> state (call_done True 12 b3) = Closed"
  by (simp add: breaker_defs)

end
