(* ===== verification/Products.thy ===== *)
theory Products
  imports Rely Breaker
begin

text \<open>
  Reading products: \<open>repository/product.go\<close>, the Redis cache around it (\<open>cached_product_repo.go\<close> over
  \<open>cache/redis.go\<close>) and the in-process cache around both (\<open>l1_product_repo.go\<close>).

  The Redis client and the LRU are libraries: their operations are arguments, functions on the state of Redis
  (\<open>'r\<close>) and of the LRU (\<open>'l\<close>). So are \<open>marshal\<close> and \<open>unmarshal\<close>, the JSON text of a product. \<open>ce\<close> is what
  the world decides of one guarded call: the two readings of the clock and whether the caller's context is
  over. The singleflight group lets concurrent readers share one execution of the leader; a reader whose context ends
  while it waits leaves with that error, and the leader goes on (\<open>left\<close>).
\<close>

section \<open>The repository\<close>

definition select_products :: "product list sql" where
  "select_products = query (\<lambda>d. Inr (products d))"

definition select_product :: "int \<Rightarrow> product sql" where
  "select_product pid = query (\<lambda>d. if \<not> int4 pid then Inl encode_error
     else row_or_none (List.find (\<lambda>p. p_id p = pid) (products d)))"

definition get_products :: "product list act" where
  "get_products = stmt select_products"

definition get_product :: "int \<Rightarrow> product act" where
  "get_product pid =
     attempt (stmt (select_product pid))
       (\<lambda>err. if errors_is err NoRows
          then fail (errorf_w ''GetProductByID: '' (Sentinel ErrProductNotFound) [])
          else fail (errorf_w ''GetProductByID: '' err [])) ret"

section \<open>The cache client\<close>

record call_env =
  call_before :: time
  call_after :: time
  call_ctx_done :: bool

type_synonym 'r guarded = "breaker option \<times> 'r"

definition redis_get ::
  "call_env \<Rightarrow> (string \<Rightarrow> 'r \<Rightarrow> (gerr + string) \<times> 'r) \<Rightarrow> (string \<Rightarrow> gerr + product) \<Rightarrow> string \<Rightarrow>
   'r guarded \<Rightarrow> (gerr + product) \<times> 'r guarded" where
  "redis_get ce client_get unmarshal key c =
     (case guard (call_before ce) (call_after ce) (call_ctx_done ce) (client_get key) (fst c) (snd c) of
        (Inl err, c') \<Rightarrow> (Inl (if errors_is err RedisNil then Sentinel ErrCacheMiss else err), c')
      | (Inr val, c') \<Rightarrow> (unmarshal val, c'))"

definition redis_set ::
  "call_env \<Rightarrow> (string \<Rightarrow> string \<Rightarrow> time \<Rightarrow> 'r \<Rightarrow> (gerr + unit) \<times> 'r) \<Rightarrow> (product \<Rightarrow> string) \<Rightarrow> string \<Rightarrow>
   product \<Rightarrow> time \<Rightarrow> 'r guarded \<Rightarrow> (gerr + unit) \<times> 'r guarded" where
  "redis_set ce client_set marshal key p ttl c =
     guard (call_before ce) (call_after ce) (call_ctx_done ce) (client_set key (marshal p) ttl) (fst c) (snd c)"

definition redis_delete ::
  "(string \<Rightarrow> 'r \<Rightarrow> (gerr + unit) \<times> 'r) \<Rightarrow> string \<Rightarrow> 'r guarded \<Rightarrow> (gerr + unit) \<times> 'r guarded" where
  "redis_delete client_del key c = (case client_del key (snd c) of (r, s) \<Rightarrow> (r, (fst c, s)))"

section \<open>The two caches\<close>

definition product_ttl :: time where "product_ttl = minutes 5"

definition product_key :: "int \<Rightarrow> string" where
  "product_key pid = ''product:'' @ show_int pid"

definition cached_get ::
  "(string \<Rightarrow> 'c \<Rightarrow> (gerr + product) \<times> 'c) \<Rightarrow> (string \<Rightarrow> product \<Rightarrow> time \<Rightarrow> 'c \<Rightarrow> (gerr + unit) \<times> 'c) \<Rightarrow>
   (int \<Rightarrow> gerr + product) \<Rightarrow> gerr option \<Rightarrow> int \<Rightarrow> 'c \<Rightarrow> (gerr + product) \<times> 'c" where
  "cached_get cache_get cache_set repo_get left pid c =
     (let key = product_key pid in
      case cache_get key c of
        (Inr p, c) \<Rightarrow> (Inr p, c)
      | (Inl err, c) \<Rightarrow>
          (let (res, c) =
             (case repo_get pid of
                Inl err \<Rightarrow> (Inl err, c)
              | Inr p \<Rightarrow> (Inr p, snd (cache_set key p product_ttl c)))
           in (case left of Some e \<Rightarrow> Inl e | None \<Rightarrow> res, c)))"

definition cached_invalidate ::
  "(string \<Rightarrow> 'c \<Rightarrow> (gerr + unit) \<times> 'c) \<Rightarrow> int \<Rightarrow> 'c \<Rightarrow> (gerr + unit) \<times> 'c" where
  "cached_invalidate cache_delete pid c = (Inr (), snd (cache_delete (product_key pid) c))"

definition l1_get ::
  "(string \<Rightarrow> 'l \<Rightarrow> product option) \<Rightarrow> (string \<Rightarrow> product \<Rightarrow> 'l \<Rightarrow> 'l) \<Rightarrow>
   (int \<Rightarrow> 'c \<Rightarrow> (gerr + product) \<times> 'c) \<Rightarrow> int \<Rightarrow> 'l \<times> 'c \<Rightarrow> (gerr + product) \<times> 'l \<times> 'c" where
  "l1_get lru_get lru_add repo_get pid s =
     (let key = product_key pid in
      case lru_get key (fst s) of
        Some p \<Rightarrow> (Inr p, s)
      | None \<Rightarrow>
          (case repo_get pid (snd s) of
             (Inl err, c) \<Rightarrow> (Inl err, (fst s, c))
           | (Inr p, c) \<Rightarrow> (Inr p, (lru_add key p (fst s), c))))"

definition l1_invalidate ::
  "(string \<Rightarrow> 'l \<Rightarrow> 'l) \<Rightarrow> (int \<Rightarrow> 'c \<Rightarrow> (gerr + unit) \<times> 'c) \<Rightarrow> int \<Rightarrow> 'l \<times> 'c \<Rightarrow> (gerr + unit) \<times> 'l \<times> 'c" where
  "l1_invalidate lru_remove repo_invalidate pid s =
     (case repo_invalidate pid (snd s) of (r, c) \<Rightarrow> (r, (lru_remove (product_key pid) (fst s), c)))"

section \<open>Reading through the caches\<close>

text \<open>
  The cache is never a reason to fail. Whatever Redis answers (a value, a miss, an error, a text that is no
  product), whatever state the breaker is in and whatever comes of writing the value back, a reader that waits gets a product
  from the cache or exactly what the database answers, value or error.
\<close>

theorem cache_never_fails_a_read:
  "fst (cached_get cache_get cache_set repo_get None pid c) =
    (case fst (cache_get (product_key pid) c) of Inr p \<Rightarrow> Inr p | Inl _ \<Rightarrow> repo_get pid)"
  by (auto simp: cached_get_def Let_def split: sum.splits prod.splits)

text \<open>
  What the two caches hold. Redis gives only what it was given (\<open>held\<close>), an LRU too (\<open>kept\<close>); both may forget
  at any time. \<open>fresh\<close>: everything they hold is the row of the database.
\<close>

definition redis_laws ::
  "(string \<Rightarrow> 'c \<Rightarrow> (gerr + product) \<times> 'c) \<Rightarrow> (string \<Rightarrow> product \<Rightarrow> time \<Rightarrow> 'c \<Rightarrow> (gerr + unit) \<times> 'c) \<Rightarrow>
   (product \<Rightarrow> bool) \<Rightarrow> ('c \<Rightarrow> string \<Rightarrow> product option) \<Rightarrow> bool" where
  "redis_laws cache_get cache_set good held \<longleftrightarrow>
     (\<forall>key c p c'. cache_get key c = (Inr p, c') \<longrightarrow> held c key = Some p) \<and>
     (\<forall>key c k. held (snd (cache_get key c)) k = None \<or> held (snd (cache_get key c)) k = held c k) \<and>
     (\<forall>key p ttl c k. good p \<longrightarrow> held (snd (cache_set key p ttl c)) k = None \<or>
        held (snd (cache_set key p ttl c)) k = held c k \<or> k = key \<and> held (snd (cache_set key p ttl c)) k = Some p)"

definition lru_laws ::
  "(string \<Rightarrow> 'l \<Rightarrow> product option) \<Rightarrow> (string \<Rightarrow> product \<Rightarrow> 'l \<Rightarrow> 'l) \<Rightarrow> ('l \<Rightarrow> string \<Rightarrow> product option) \<Rightarrow> bool" where
  "lru_laws lru_get lru_add kept \<longleftrightarrow>
     (\<forall>key l p. lru_get key l = Some p \<longrightarrow> kept l key = Some p) \<and>
     (\<forall>key p l k. kept (lru_add key p l) k = None \<or> kept (lru_add key p l) k = kept l k \<or>
        k = key \<and> kept (lru_add key p l) k = Some p)"

definition fresh_cache :: "(int \<Rightarrow> gerr + product) \<Rightarrow> (string \<Rightarrow> product option) \<Rightarrow> bool" where
  "fresh_cache repo_get view \<longleftrightarrow> (\<forall>pid p. view (product_key pid) = Some p \<longrightarrow> repo_get pid = Inr p)"

lemma product_key_inj [simp]: "product_key i = product_key j \<longleftrightarrow> i = j"
  by (simp add: product_key_def)

lemma fresh_forgets:
  assumes "fresh_cache repo_get v" and "\<And>k. v' k = None \<or> v' k = v k \<or> k = product_key pid \<and> v' k = Some p"
    and "repo_get pid = Inr p"
  shows "fresh_cache repo_get v'"
  unfolding fresh_cache_def
proof (intro allI impI)
  fix i q assume q: "v' (product_key i) = Some q"
  from assms(2) [of "product_key i"] show "repo_get i = Inr q"
    using q assms(1,3) by (auto simp: fresh_cache_def)
qed

lemma fresh_smaller:
  "fresh_cache repo_get v \<Longrightarrow> (\<And>k. v' k = None \<or> v' k = v k) \<Longrightarrow> fresh_cache repo_get v'"
  unfolding fresh_cache_def by (metis option.distinct(1))

lemma cached_get_fresh:
  assumes laws: "redis_laws cache_get cache_set good held" and good: "\<And>i p. repo_get i = Inr p \<Longrightarrow> good p"
    and fresh: "fresh_cache repo_get (held c)"
    and run: "cached_get cache_get cache_set repo_get None pid c = (r, c')"
  shows "r = repo_get pid \<and> fresh_cache repo_get (held c')"
proof (cases "cache_get (product_key pid) c")
  case (Pair a c1)
  have less: "fresh_cache repo_get (held c1)"
    by (rule fresh_smaller [OF fresh]) (use laws Pair in \<open>unfold redis_laws_def, metis snd_conv\<close>)
  show ?thesis
  proof (cases a)
    case (Inr p)
    then have "held c (product_key pid) = Some p" using laws Pair by (auto simp: redis_laws_def)
    then have "repo_get pid = Inr p" using fresh by (auto simp: fresh_cache_def)
    then show ?thesis using run Pair Inr less by (simp add: cached_get_def)
  next
    case miss: (Inl e)
    show ?thesis
    proof (cases "repo_get pid")
      case (Inl e')
      then show ?thesis using run Pair miss less by (simp add: cached_get_def)
    next
      case (Inr p)
      have "fresh_cache repo_get (held (snd (cache_set (product_key pid) p product_ttl c1)))"
        by (rule fresh_forgets [OF less _ Inr]) (use laws good [OF Inr] in \<open>unfold redis_laws_def, blast\<close>)
      then show ?thesis using run Pair miss Inr by (auto simp: cached_get_def)
    qed
  qed
qed

lemma fresh_caches:
  assumes "redis_laws cache_get cache_set good held" and "lru_laws lru_get lru_add kept"
    and "fresh_cache repo_get (kept l)" and "fresh_cache repo_get (held c)"
    and "l1_get lru_get lru_add (cached_get cache_get cache_set repo_get None) pid (l, c) = (r, (l', c'))"
    and "\<And>i p. repo_get i = Inr p \<Longrightarrow> good p"
  shows "r = repo_get pid \<and> fresh_cache repo_get (kept l') \<and> fresh_cache repo_get (held c')"
proof (cases "lru_get (product_key pid) l")
  case (Some p)
  then have "repo_get pid = Inr p" using assms(2,3) unfolding lru_laws_def fresh_cache_def by blast
  then show ?thesis using assms Some by (auto simp: l1_get_def)
next
  case None
  obtain a c1 where run: "cached_get cache_get cache_set repo_get None pid c = (a, c1)"
    by (cases "cached_get cache_get cache_set repo_get None pid c")
  note lower = cached_get_fresh [OF assms(1,6,4) run]
  show ?thesis
  proof (cases a)
    case (Inl e)
    then show ?thesis using assms(3,5) None run lower by (auto simp: l1_get_def)
  next
    case (Inr p)
    have "fresh_cache repo_get (kept (lru_add (product_key pid) p l))"
      by (rule fresh_forgets [OF assms(3) _ ]) (use assms(2) lower Inr in \<open>unfold lru_laws_def, blast | simp\<close>)+
    moreover have "repo_get pid = Inr p" using lower Inr by simp
    moreover have "r = Inr p" "l' = lru_add (product_key pid) p l" "c' = c1"
      using assms(5) None run Inr by (auto simp: l1_get_def)
    ultimately show ?thesis using lower by simp
  qed
qed

text \<open>The client of Redis, and what the guarded calls make of it.\<close>

definition client_laws ::
  "(string \<Rightarrow> 'r \<Rightarrow> (gerr + string) \<times> 'r) \<Rightarrow> (string \<Rightarrow> string \<Rightarrow> time \<Rightarrow> 'r \<Rightarrow> (gerr + unit) \<times> 'r) \<Rightarrow>
   ('r \<Rightarrow> string \<Rightarrow> string option) \<Rightarrow> bool" where
  "client_laws client_get client_set texts \<longleftrightarrow>
     (\<forall>key s v s'. client_get key s = (Inr v, s') \<longrightarrow> texts s key = Some v) \<and>
     (\<forall>key s k. texts (snd (client_get key s)) k = None \<or> texts (snd (client_get key s)) k = texts s k) \<and>
     (\<forall>key v ttl s k. texts (snd (client_set key v ttl s)) k = None \<or>
        texts (snd (client_set key v ttl s)) k = texts s k \<or> k = key \<and> texts (snd (client_set key v ttl s)) k = Some v)"

definition decoded :: "(string \<Rightarrow> gerr + product) \<Rightarrow> string option \<Rightarrow> product option" where
  "decoded unmarshal t = (case t of None \<Rightarrow> None | Some v \<Rightarrow> (case unmarshal v of Inl e \<Rightarrow> None | Inr p \<Rightarrow> Some p))"

lemma guard_state:
  "snd (snd (guard before after gone call b s)) = s \<or> snd (snd (guard before after gone call b s)) = snd (call s)"
  by (auto simp: guard_def Let_def split: option.splits prod.splits)

lemma guard_value: "guard before after gone call b s = (Inr v, c') \<Longrightarrow> \<exists>s'. call s = (Inr v, s')"
  by (auto simp: guard_def Let_def split: option.splits prod.splits)

lemma guarded_laws:
  assumes "client_laws client_get client_set texts"
  shows "redis_laws (redis_get ce client_get unmarshal) (redis_set ce' client_set marshal)
    (\<lambda>p. unmarshal (marshal p) = Inr p) (\<lambda>c k. decoded unmarshal (texts (snd c) k))"
  unfolding redis_laws_def
proof (intro conjI allI impI)
  fix key :: string and c c' :: "breaker option \<times> 'a" and p
  assume "redis_get ce client_get unmarshal key c = (Inr p, c')"
  then obtain v c1 where "guard (call_before ce) (call_after ce) (call_ctx_done ce) (client_get key) (fst c) (snd c) = (Inr v, c1)"
    and v: "unmarshal v = Inr p"
    by (auto simp: redis_get_def split: sum.splits prod.splits)
  then obtain s' where "client_get key (snd c) = (Inr v, s')" using guard_value by metis
  then show "decoded unmarshal (texts (snd c) key) = Some p"
    using assms(1) v by (auto simp: client_laws_def decoded_def)
next
  fix key k :: string and c :: "breaker option \<times> 'a"
  have st: "snd (snd (redis_get ce client_get unmarshal key c)) = snd c \<or>
      snd (snd (redis_get ce client_get unmarshal key c)) = snd (client_get key (snd c))"
    using guard_state [of "call_before ce" "call_after ce" "call_ctx_done ce" "client_get key" "fst c" "snd c"]
    by (auto simp: redis_get_def split: sum.splits prod.splits)
  then show "decoded unmarshal (texts (snd (snd (redis_get ce client_get unmarshal key c))) k) = None \<or>
      decoded unmarshal (texts (snd (snd (redis_get ce client_get unmarshal key c))) k) =
      decoded unmarshal (texts (snd c) k)"
    using assms(1) unfolding client_laws_def by (metis decoded_def option.simps(4))
next
  fix key k :: string and p ttl and c :: "breaker option \<times> 'a"
  assume "unmarshal (marshal p) = Inr p"
  then have some: "decoded unmarshal (Some (marshal p)) = Some p" by (simp add: decoded_def)
  have st: "snd (snd (redis_set ce' client_set marshal key p ttl c)) = snd c \<or>
      snd (snd (redis_set ce' client_set marshal key p ttl c)) = snd (client_set key (marshal p) ttl (snd c))"
    using guard_state [of "call_before ce'" "call_after ce'" "call_ctx_done ce'" "client_set key (marshal p) ttl"
        "fst c" "snd c"]
    by (simp add: redis_set_def)
  show "decoded unmarshal (texts (snd (snd (redis_set ce' client_set marshal key p ttl c))) k) = None \<or>
      decoded unmarshal (texts (snd (snd (redis_set ce' client_set marshal key p ttl c))) k) =
        decoded unmarshal (texts (snd c) k) \<or>
      k = key \<and> decoded unmarshal (texts (snd (snd (redis_set ce' client_set marshal key p ttl c))) k) = Some p"
    using st assms(1) some unfolding client_laws_def by (metis decoded_def option.simps(4))
qed



end
