(* ===== verification/Readiness.thy ===== *)
theory Readiness
  imports Http "HOL-Library.Word"
begin

text \<open>
  When a replica may take traffic: \<open>migrations/embed.go\<close> (\<open>latest\<close>), \<open>repository/schema.go\<close> (\<open>schema_ping\<close>),
  \<open>handler/health.go\<close> (\<open>readiness\<close>, \<open>liveness\<close>); and the configuration it starts with, \<open>config/config.go\<close>.

  The list of embedded files, the answer of the database to the version query, the ping of Redis, the
  environment and \<open>time.ParseDuration\<close> are arguments.
\<close>

section \<open>The schema version\<close>

fun index_byte :: "string \<Rightarrow> char \<Rightarrow> int" where
  "index_byte [] c = -1"
| "index_byte (x # xs) c = (if x = c then 0 else let i = index_byte xs c in if i < 0 then -1 else i + 1)"

definition migration_number :: "string \<Rightarrow> int option" where
  "migration_number name =
     (let i = index_byte name (CHR ''_'') in
      if i \<le> 0 then None
      else case atoi (take (nat i) name) of (v, None) \<Rightarrow> Some v | (v, Some e) \<Rightarrow> None)"

definition latest :: "gerr + string list \<Rightarrow> gerr + int" where
  "latest entries =
     (case entries of
        Inl err \<Rightarrow> Inl err
      | Inr names \<Rightarrow>
          (let v = foldl (\<lambda>latest name.
             (case migration_number name of None \<Rightarrow> latest | Some v \<Rightarrow> if latest < v then v else latest)) 0 names
           in if v = 0 then Inl (NewError ''no migrations embedded'') else Inr v))"

definition schema_ping :: "int \<Rightarrow> gerr + int \<Rightarrow> gerr option" where
  "schema_ping want answer =
     (case answer of
        Inl err \<Rightarrow>
          (case as_pg_error err of
             Some (code, k) \<Rightarrow>
               if code = ''42P01'' then Some (NewError ''schema not migrated: goose_db_version is missing'')
               else Some err
           | None \<Rightarrow> Some err)
      | Inr found \<Rightarrow>
          if found < want
          then Some (NewError (''schema version '' @ show_int found @ '', service needs '' @ show_int want))
          else None)"

section \<open>The probes\<close>

definition liveness :: response where
  "liveness = write_json 200 (JObject [(''status'', JText ''ok'')])"

definition readiness :: "bool \<Rightarrow> gerr option \<Rightarrow> gerr option \<Rightarrow> response" where
  "readiness shutting_down cache_err db_err =
     (if shutting_down then write_json 503 (JObject [(''status'', JText ''shutting_down'')])
      else
        let cache = (case cache_err of None \<Rightarrow> ''ok'' | Some err \<Rightarrow> ''degraded: '' @ error_text err);
            checks = (\<lambda>db. JObject [(''cache'', JText cache), (''db'', JText db)])
        in case db_err of
             Some err \<Rightarrow> write_json 503 (JObject [(''checks'', checks (error_text err)), (''status'', JText ''unavailable'')])
           | None \<Rightarrow> write_json 200 (JObject [(''checks'', checks ''ok''), (''status'', JText ''ok'')]))"

section \<open>Configuration\<close>

record config =
  cf_database_url :: string
  cf_port :: string
  cf_redis_addr :: string
  cf_max_conns :: "32 word"
  cf_min_conns :: "32 word"
  cf_acquire_timeout :: time
  cf_breaker_threshold :: int
  cf_breaker_open_for :: time
  cf_drain_delay :: time
  cf_stuck_after :: time
  cf_expire_after :: time
  cf_reconcile_every :: time
  cf_reconcile_window :: time

definition get_env :: "(string \<Rightarrow> string) \<Rightarrow> string \<Rightarrow> string \<Rightarrow> string" where
  "get_env os_env key fallback = (if os_env key \<noteq> [] then os_env key else fallback)"

definition get_int :: "(string \<Rightarrow> string) \<Rightarrow> string \<Rightarrow> int \<Rightarrow> int" where
  "get_int os_env key fallback =
     (case atoi (os_env key) of (v, err) \<Rightarrow> if err = None \<and> 0 < v then v else fallback)"

definition get_duration ::
  "(string \<Rightarrow> time option) \<Rightarrow> (string \<Rightarrow> string) \<Rightarrow> string \<Rightarrow> time \<Rightarrow> time" where
  "get_duration parse_duration os_env key fallback =
     (case parse_duration (os_env key) of None \<Rightarrow> fallback | Some v \<Rightarrow> if 0 < v then v else fallback)"

definition load :: "(string \<Rightarrow> time option) \<Rightarrow> (string \<Rightarrow> string) \<Rightarrow> gerr + config" where
  "load parse_duration os_env =
     (let db_url = os_env ''DATABASE_URL'';
          dur = get_duration parse_duration os_env
      in if db_url = [] then Inl (NewError ''DATABASE_URL is required'')
      else Inr \<lparr>
        cf_database_url = db_url,
        cf_port = get_env os_env ''PORT'' '':8083'',
        cf_redis_addr = get_env os_env ''REDIS_ADDR'' ''localhost:6379'',
        cf_max_conns = word_of_int (get_int os_env ''DB_MAX_CONNS'' 10),
        cf_min_conns = word_of_int (get_int os_env ''DB_MIN_CONNS'' 2),
        cf_acquire_timeout = dur ''DB_ACQUIRE_TIMEOUT'' (seconds 1),
        cf_breaker_threshold = get_int os_env ''REDIS_BREAKER_THRESHOLD'' 5,
        cf_breaker_open_for = dur ''REDIS_BREAKER_OPEN_FOR'' (seconds 5),
        cf_drain_delay = dur ''SHUTDOWN_DRAIN_DELAY'' (seconds 5),
        cf_stuck_after = dur ''PAY_STUCK_AFTER'' (minutes 2),
        cf_expire_after = dur ''PAY_EXPIRE_AFTER'' (minutes 15),
        cf_reconcile_every = dur ''RECONCILE_EVERY'' (hours 1),
        cf_reconcile_window = dur ''RECONCILE_WINDOW'' (hours 48)\<rparr>)"

section \<open>What the probes promise\<close>

lemma latest_fold:
  "foldl (\<lambda>latest name. (case migration_number name of None \<Rightarrow> latest | Some v \<Rightarrow> if latest < v then v else latest)) m names =
    Max (insert m {v. \<exists>name\<in>set names. migration_number name = Some v})"
proof (induction names arbitrary: m)
  case (Cons name names)
  have fin: "finite {v. \<exists>name\<in>set names. migration_number name = Some v}"
    by (rule finite_subset [of _ "(the \<circ> migration_number) ` set names"]) force+
  show ?case
  proof (cases "migration_number name")
    case None
    then show ?thesis using Cons.IH by simp
  next
    case (Some v)
    have "{u. \<exists>n\<in>set (name # names). migration_number n = Some u} =
        insert v {u. \<exists>n\<in>set names. migration_number n = Some u}"
      using Some by auto
    then show ?thesis
      using Cons.IH Some fin
      by (cases "{u. \<exists>n\<in>set names. migration_number n = Some u} = {}") (simp_all add: max_def)
  qed
qed simp

lemma schema_ping_ok: "schema_ping want answer = None \<longleftrightarrow> (\<exists>found. answer = Inr found \<and> want \<le> found)"
  by (auto simp: schema_ping_def not_less split: sum.splits option.splits prod.splits if_splits)

lemma readiness_code:
  "(rs_code (readiness shutting_down cache_err (schema_ping want answer)) = 200 \<longleftrightarrow>
      \<not> shutting_down \<and> (\<exists>found. answer = Inr found \<and> want \<le> found)) \<and>
   (rs_code (readiness shutting_down cache_err db_err) = 200 \<or> rs_code (readiness shutting_down cache_err db_err) = 503)"
  unfolding schema_ping_ok [symmetric]
  by (auto simp: readiness_def write_json_def Let_def split: option.splits)

lemma word_of_int_positive:
  fixes v :: int
  assumes "0 < v" "v < 2 ^ 31"
  shows "0 < sint (word_of_int v :: 32 word)"
proof -
  have "sint (word_of_int v :: 32 word) = v"
    unfolding sint_sbintrunc' using assms by (simp add: signed_take_bit_int_eq_self_iff)
  with assms show ?thesis by simp
qed

text \<open>
  C35: A replica takes traffic exactly when its database has the schema it was built for. The version it wants is the greatest
  number among its embedded migrations; /readyz answers 200 if and only if the replica is not shutting down, the
  database answers, and its version is at least that, so that every embedded migration is in; otherwise it answers 503. Redis
  never decides.
\<close>

theorem ready_iff_migrated:
  assumes "latest (Inr names) = Inr want"
  shows "(rs_code (readiness shutting_down cache_err (schema_ping want answer)) = 200 \<longleftrightarrow>
      \<not> shutting_down \<and> (\<exists>found. answer = Inr found \<and>
        (\<forall>name\<in>set names. \<forall>v. migration_number name = Some v \<longrightarrow> v \<le> found))) \<and>
    (rs_code (readiness shutting_down cache_err (schema_ping want answer)) = 200 \<or>
     rs_code (readiness shutting_down cache_err (schema_ping want answer)) = 503)"
proof -
  let ?N = "{v. \<exists>name\<in>set names. migration_number name = Some v}"
  have want: "want = Max (insert 0 ?N)" "want \<noteq> 0"
    using assms by (auto simp: latest_def latest_fold Let_def split: if_splits)
  have fin: "finite ?N"
    by (rule finite_subset [of _ "(the \<circ> migration_number) ` set names"]) force+
  then have pos: "want \<in> ?N" using want Max_in [of "insert 0 ?N"] by auto
  have up: "v \<le> want" if "v \<in> ?N" for v using that want(1) fin by simp
  have iff: "(\<forall>name\<in>set names. \<forall>v. migration_number name = Some v \<longrightarrow> v \<le> found) \<longleftrightarrow> want \<le> found" for found
    using pos up by fastforce
  show ?thesis unfolding iff by (rule readiness_code)
qed

theorem ready_iff_migrated_witness:
  "rs_code (readiness False (Some Canceled) (schema_ping 11 (Inr 11))) = 200 \<and>
   rs_code (readiness False None (schema_ping 11 (Inr 10))) = 503"
proof -
  have l: "latest (Inr [''001_init.sql'', ''011_fake_provider.sql'', ''README'', ''_x'']) = Inr 11" by code_simp
  have n: "migration_number ''011_fake_provider.sql'' = Some 11" "migration_number ''001_init.sql'' = Some 1"
    "migration_number ''README'' = None" "migration_number ''_x'' = None"
    by code_simp+
  show ?thesis
    using ready_iff_migrated [OF l, of False "Some Canceled" "Inr 11"] ready_iff_migrated [OF l, of False None "Inr 10"] n
    by auto
qed

lemma load_positive:
  assumes "load parse_duration os_env = Inr c"
  shows "0 < cf_breaker_threshold c" and "0 < cf_acquire_timeout c" and "0 < cf_breaker_open_for c"
    and "0 < cf_drain_delay c" and "0 < cf_stuck_after c" and "0 < cf_expire_after c" and "0 < cf_reconcile_every c"
    and "0 < cf_reconcile_window c"
proof -
  have dur: "0 < get_duration parse_duration os_env key fallback" if "0 < fallback" for key fallback
    using that by (auto simp: get_duration_def split: option.splits)
  have int: "0 < get_int os_env key fallback" if "0 < fallback" for key fallback
    using that by (auto simp: get_int_def split: prod.splits)
  show "0 < cf_breaker_threshold c" and "0 < cf_acquire_timeout c" and "0 < cf_breaker_open_for c"
    and "0 < cf_drain_delay c" and "0 < cf_stuck_after c" and "0 < cf_expire_after c" and "0 < cf_reconcile_every c"
    and "0 < cf_reconcile_window c"
    using assms dur int by (auto simp: load_def Let_def split: if_splits)
qed



end
