(* ===== verification/Api.thy ===== *)
theory Api
  imports Handlers Products Readiness
begin

text \<open>
  The HTTP interface of the order service as \<open>internal/app/app.go\<close> puts it together: the routes of
  \<open>setupRoutes\<close>, each with its handler over the services.

  Gorilla's router is a library: \<open>mux\<close> is an argument, a function of the table of routes and the request that
  gives the route it picked or its own refusal (404 or 405). The other arguments are collected in the record \<open>surroundings\<close>: what
  the world decides for one request (the provider's draw, the demo crash, whether the request's own context ends while it waits
  for an execution it shares, what the two product caches hold for a product), what the probes see, and the functions of libraries the handlers use. The middlewares around the routes are
  in \<open>Middleware\<close>; a deadline that passes shows as the failure of the call it cuts off.
\<close>

section \<open>Routes\<close>

datatype route =
    GetProductsRoute
  | GetProductRoute
  | CreateOrderRoute
  | GetOrdersRoute
  | GetOrderRoute
  | CancelOrderRoute
  | LivenessRoute
  | ReadinessRoute
  | PayRoute
  | MetricsRoute

definition routes :: "(string \<times> string option \<times> route) list" where
  "routes =
     [(''/products'', Some ''GET'', GetProductsRoute),
      (''/products/{id}'', Some ''GET'', GetProductRoute),
      (''/orders'', Some ''POST'', CreateOrderRoute),
      (''/orders'', Some ''GET'', GetOrdersRoute),
      (''/orders/{id}'', Some ''GET'', GetOrderRoute),
      (''/orders/{id}/cancel'', Some ''POST'', CancelOrderRoute),
      (''/healthz'', None, LivenessRoute),
      (''/readyz'', None, ReadinessRoute),
      (''/orders/{id}/pay'', Some ''POST'', PayRoute),
      (''/metrics'', None, MetricsRoute)]"

datatype mux_result = Found route | RefusedByMux response

type_synonym mux = "(string \<times> string option \<times> route) list \<Rightarrow> http_request \<Rightarrow> mux_result"

section \<open>Requests\<close>

record surroundings =
  su_unlucky :: bool
  su_crash :: bool
  su_gone :: "gerr option"
  su_cached :: "int \<Rightarrow> product option"
  su_shutting_down :: bool
  su_cache_ping :: "gerr option"
  su_schema_want :: int
  su_schema_found :: "gerr + int"
  su_digest :: "string \<Rightarrow> string"
  su_decode :: "string \<Rightarrow> gerr + create_item list"
  su_price_text :: "money \<Rightarrow> string"
  su_time_text :: "time \<Rightarrow> string"
  su_metrics :: response

text \<open>\<open>ProductService.GetProductByID\<close> over the caches of \<open>NewRepositories\<close>: a product one of them holds, or the
  row of the database.\<close>

definition get_product_svc :: "(int \<Rightarrow> product option) \<Rightarrow> int \<Rightarrow> product act" where
  "get_product_svc cached pid = (case cached pid of Some p \<Rightarrow> ret p | None \<Rightarrow> get_product pid)"

primrec handle :: "surroundings \<Rightarrow> http_request \<Rightarrow> route \<Rightarrow> response act" where
  "handle s r GetProductsRoute = get_products_handler get_products (su_price_text s)"
| "handle s r GetProductRoute = get_product_handler (get_product_svc (su_cached s)) (su_price_text s) r"
| "handle s r CreateOrderRoute = create_order_handler (create_order_call (su_gone s)) (su_decode s) r"
| "handle s r GetOrdersRoute = get_orders_handler get_orders_svc (su_price_text s) (su_time_text s) r"
| "handle s r GetOrderRoute = get_order_handler get_order_by_id (su_price_text s) (su_time_text s) r"
| "handle s r CancelOrderRoute = cancel_order_handler cancel_order_svc r"
| "handle s r LivenessRoute = ret liveness"
| "handle s r ReadinessRoute =
     ret (readiness (su_shutting_down s) (su_cache_ping s) (schema_ping (su_schema_want s) (su_schema_found s)))"
| "handle s r PayRoute =
     attempt (pay_endpoint (pay start_or_resume transition (charge (su_unlucky s)) (su_crash s)) (su_digest s)
         [su_gone s] r) fail (\<lambda>xs. ret (hd xs))"
| "handle s r MetricsRoute = ret (su_metrics s)"

definition api :: "surroundings \<Rightarrow> mux \<Rightarrow> http_request \<Rightarrow> response act" where
  "api s mux r = (case mux routes r of Found rt \<Rightarrow> handle s r rt | RefusedByMux x \<Rightarrow> ret x)"

section \<open>Every request is answered\<close>

text \<open>\<open>answers m\<close>: run anywhere, \<open>m\<close> writes a response, in JSON but for one; only a process that exits gives none.\<close>

definition written :: "response \<Rightarrow> bool" where
  "written x \<longleftrightarrow> rs_json x \<or> x = too_large"

definition answers :: "response act \<Rightarrow> bool" where
  "answers m \<longleftrightarrow> (\<forall>w e w'. m w = (Inl e, w') \<longrightarrow> e = ProcessExit) \<and> (\<forall>w x w'. m w = (Inr x, w') \<longrightarrow> written x)"

lemma answersD:
  "answers m \<Longrightarrow> m w = (res, w') \<Longrightarrow> case res of Inl e \<Rightarrow> e = ProcessExit | Inr x \<Rightarrow> written x"
  by (cases res) (simp_all add: answers_def, blast+)

lemma answers_ret [intro]: "written x \<Longrightarrow> answers (ret x)"
  by (simp add: answers_def ret_def)

lemma written_responses [simp]:
  "written (write_json code j)" "written (write_error err)" "written (json_response code msg retry)"
  "written (replayed code body retry)" "written liveness" "written (readiness down cache_err db_err)" "written too_large"
  by (auto simp: written_def write_json_def write_error_def write_error_by_def json_response_def replayed_def liveness_def
      readiness_def Let_def split: option.splits)

lemma answers_exit: "answers (fail ProcessExit)"
  by (simp add: answers_def fail_def)

lemma answers_attempt:
  assumes "\<And>err. answers (h err)" and "\<And>a. answers (k a)"
  shows "answers (attempt m h k)"
  using assms unfolding answers_def attempt_def by (auto split: prod.splits sum.splits)

lemma answers_through:
  assumes "answers m" and "\<And>a. answers (k a)"
  shows "answers (attempt m fail k)"
  using assms(1) assms(2) [unfolded answers_def] unfolding answers_def attempt_def
  by (auto simp: fail_def split: prod.splits sum.splits) blast+

lemma answers_if: "answers m \<Longrightarrow> answers n \<Longrightarrow> answers (if b then m else n)"
  by simp

lemma answers_pay_handler: "answers (pay_handler svc r)"
proof -
  have "answers (if err = ProcessExit then fail err else ret (write_error err))" for err
    by (cases "err = ProcessExit") (auto simp: answers_exit)
  then show ?thesis
    unfolding pay_handler_def by (auto split: prod.splits intro!: answers_attempt)
qed

lemma answers_exec:
  assumes "answers m"
  shows "answers (exec_idempotent c cp rl m key hash)"
  unfolding exec_idempotent_def
  by (intro answers_attempt answers_ret answers_if answers_through [OF assms]) simp_all

text \<open>A caller of the payment endpoint is answered, unless it left.\<close>

lemma pay_endpoint_answers:
  assumes "pay_endpoint svc digest [gone] r w = (res, w')"
  shows "case res of Inl e \<Rightarrow> e = ProcessExit
    | Inr xs \<Rightarrow> written (hd xs) \<or> gone \<noteq> None \<and> hd xs = nothing_written"
proof -
  let ?key = "hq_key r"
  let ?h = "digest (hq_method r @ '' '' @ hq_path r @ newline @ hq_body r)"
  obtain x w1 where run: "exec_idempotent claim complete release (pay_handler svc r) ?key ?h w = (x, w1)"
    by (cases "exec_idempotent claim complete release (pay_handler svc r) ?key ?h w")
  have "case x of Inl e \<Rightarrow> e = ProcessExit | Inr x \<Rightarrow> written x"
    using answersD [OF answers_exec [OF answers_pay_handler] run] .
  then show ?thesis
    using assms run
    by (cases gone) (auto simp: pay_endpoint_def idempotent_def Let_def attempt_def ret_def fail_def
        split: if_splits sum.splits)
qed

text \<open>
  C4: Every request gets an answer. Whatever the request, whichever route the router picks, whatever
  state the database, the caches and the provider are in and whichever calls fail, the service
  writes a response: in JSON, but for the refusal of a body that is too large, the metrics and the router's own refusals. There are
  two exceptions: the process that exits in the demo crash of Pay, and a payment whose own context ends while it waits for the
  execution it shares; it writes nothing, which the client sees as an empty 200.
\<close>

theorem every_request_is_answered:
  "case fst (api s mux r w) of Inl err \<Rightarrow> err = ProcessExit
   | Inr x \<Rightarrow> rs_json x \<or> x = too_large \<or> x = nothing_written \<and> su_gone s \<noteq> None \<and> mux routes r = Found PayRoute \<or>
       x = su_metrics s \<and> mux routes r = Found MetricsRoute \<or> mux routes r = RefusedByMux x"
proof (cases "mux routes r")
  case (Found rt)
  have "answers (handle s r rt)" if "rt \<noteq> PayRoute" "rt \<noteq> MetricsRoute"
    using that
    by (cases rt)
      (auto simp: get_products_handler_def get_product_handler_def create_order_handler_def
        get_orders_handler_def get_order_handler_def cancel_order_handler_def Let_def
        intro!: answers_attempt split: prod.splits sum.splits)
  note other = answersD [OF this]
  show ?thesis
  proof (cases "rt = PayRoute")
    case True
    let ?run = "pay_endpoint (pay start_or_resume transition (charge (su_unlucky s)) (su_crash s)) (su_digest s) [su_gone s] r w"
    obtain res w' where run: "?run = (res, w')" by (cases ?run)
    show ?thesis
      using pay_endpoint_answers [OF run] Found True
      by (auto simp: api_def attempt_def run ret_def fail_def written_def split: sum.splits)
  next
    case False
    obtain res w' where run: "handle s r rt w = (res, w')" by (cases "handle s r rt w")
    show ?thesis
      using Found run other [OF False _ run]
      by (cases "rt = MetricsRoute") (auto simp: api_def ret_def written_def split: sum.splits)
  qed
next
  case (RefusedByMux x)
  then show ?thesis by (simp add: api_def ret_def)
qed

end
