(* ===== verification/Service.thy ===== *)
theory Service
  imports Workers Answers Api
begin

text \<open>
  What a replica of the service is asked to do: any HTTP request (\<open>Request\<close>, through the routes and
  handlers of the theory \<open>Api\<close>), the methods behind the requests that change something (a payment
  needs a key, \<open>handler/payment.go\<close>), one round of each worker, and the workers' loops. The arguments after the request's
  own are what the world decides: the provider's draw and the demo crash, the rows other replicas
  hold, the broker's answer, the clock of the process. An audit has a positive period (a ticker needs one). \<open>runs_serve_all\<close>: nothing it does breaks
  \<open>books_inv\<close>.
\<close>

datatype job =
    Request surroundings mux http_request
  | Create "create_item list" string
  | Cancel int
  | PayOrder int string bool bool
  | PostPay "gerr option list" http_request "string \<Rightarrow> string" bool bool
  | ReturnMoney refund_settings "int set"
  | SettleStuck reconcile_settings "int set" "time \<Rightarrow> string"
  | Relay "int set" "message list \<Rightarrow> write_outcome"
  | Sweep time
  | Audit "money \<Rightarrow> string" "string list \<Rightarrow> string list" time time time
  | RefundLoop refund_settings "int set pick list"
  | SettleLoop reconcile_settings "time \<Rightarrow> string" "int set pick list"
  | RelayLoop "int set" "message list \<Rightarrow> write_outcome" "(time \<times> time \<times> time \<times> time) list" relay_state
  | AuditLoop "money \<Rightarrow> string" time time "(time \<times> (string list \<Rightarrow> string list)) pick list"

definition ignore :: "'a act \<Rightarrow> unit act" where
  "ignore m = attempt m (\<lambda>_. ret ()) (\<lambda>_. ret ())"

primrec serve :: "job \<Rightarrow> unit act" where
  "serve (Request s mux r) = ignore (api s mux r)"
| "serve (Create items key) = ignore (create_order_svc items key)"
| "serve (Cancel oid) = ignore (cancel_order_svc oid)"
| "serve (PayOrder oid key unlucky crash) =
     (if key = [] then ret ()
      else ignore (pay start_or_resume transition (charge unlucky) crash oid key))"
| "serve (PostPay callers r digest unlucky crash) =
     ignore (pay_endpoint (pay start_or_resume transition (charge unlucky) crash) digest callers r)"
| "serve (ReturnMoney cfg locked) = ignore (process_due cfg refund_charge locked)"
| "serve (SettleStuck cfg locked age_text) = ignore (process_stuck cfg charge_status transition age_text locked)"
| "serve (Relay locked write) = ignore (process_batch locked write)"
| "serve (Sweep t) = ignore (cleanup t)"
| "serve (Audit amount_text shuffle app_now every window) =
     (if every \<le> 0 then ret ()
      else audit_tick (try_claim ''reconciliation'') (audit list_charges transition amount_text shuffle)
        app_now every window)"
| "serve (RefundLoop cfg ps) = ignore (refund_run cfg refund_charge ps)"
| "serve (SettleLoop cfg age_text ps) = ignore (reconcile_run cfg charge_status transition age_text ps)"
| "serve (RelayLoop locked write ts s) = ignore (relay_run locked write ts s)"
| "serve (AuditLoop amount_text every window ps) =
     (if every \<le> 0 then ret ()
      else ignore (run_scheduled_once (try_claim ''reconciliation'') (audit list_charges transition amount_text) every window ps))"

primrec serve_all :: "job list \<Rightarrow> unit act" where
  "serve_all [] = ret ()"
| "serve_all (j # js) = attempt (serve j) fail (\<lambda>_. serve_all js)"

lemma runs_ignore:
  assumes "runs sys_step V books_inv m (\<lambda>_. books_inv) (\<lambda>_. books_inv)"
  shows "runs sys_step V books_inv (ignore m) (\<lambda>_. books_inv) (\<lambda>_. books_inv)"
  unfolding ignore_def by (rule runs_attempt [OF assms]) (auto intro: runs_ret)

lemma runs_pay_books:
  assumes "key \<noteq> []"
  shows "runs sys_step V books_inv (pay start_or_resume transition (charge unlucky) crash oid key)
    (\<lambda>_. books_inv) (\<lambda>_. books_inv)"
  by (rule runs_conseq [OF paying.runs_pay [OF assms]]) auto

lemma runs_sound:
  assumes "runs sys_step V books_inv m (\<lambda>_. books_inv) (\<lambda>_. books_inv)"
  shows "runs sys_step V sound m (\<lambda>_. sound) (\<lambda>_. sound)"
  by (rule runs_conseq [OF runs_frame [OF assms stable_requests]]) auto

lemma runs_post_pay:
  "runs sys_step V sound (ignore (pay_endpoint (pay start_or_resume transition (charge unlucky) crash) digest callers r))
    (\<lambda>_. sound) (\<lambda>_. sound)"
  unfolding ignore_def
  by (rule runs_attempt [OF runs_pay_endpoint]) (auto intro: runs_ret)

text \<open>Requests that only read, and the handlers around a method.\<close>

lemma runs_answered:
  assumes "runs sys_step V books_inv m (\<lambda>_. books_inv) (\<lambda>_. books_inv)"
  shows "runs sys_step V books_inv (attempt m (\<lambda>err. ret (f err)) (\<lambda>a. ret (g a))) (\<lambda>_. books_inv) (\<lambda>_. books_inv)"
  by (rule runs_attempt [OF assms]) (auto intro: runs_ret)

lemma runs_get_order: "runs sys_step V books_inv (get_order_by_id oid) (\<lambda>_. books_inv) (\<lambda>_. books_inv)"
  unfolding get_order_by_id_def select_order_def select_order_items_def
  by (intro runs_attempt [where M = "\<lambda>_. books_inv" and F = "\<lambda>_. books_inv"] runs_query runs_if)
    (auto intro: runs_fail runs_ret)

lemma runs_get_orders:
  "runs sys_step V books_inv (get_orders_svc limit cursor) (\<lambda>_. books_inv) (\<lambda>_. books_inv)"
  unfolding get_orders_svc_def get_orders_def select_orders_def select_items_of_def
  by (intro runs_attempt [where M = "\<lambda>_. books_inv" and F = "\<lambda>_. books_inv"] runs_query runs_if)
    (auto intro: runs_fail runs_ret)

lemma runs_get_products: "runs sys_step V books_inv get_products (\<lambda>_. books_inv) (\<lambda>_. books_inv)"
  unfolding get_products_def select_products_def by (rule runs_query)

lemma runs_get_product:
  "runs sys_step V books_inv (get_product_svc cached pid) (\<lambda>_. books_inv) (\<lambda>_. books_inv)"
proof (cases "cached pid")
  case None
  then show ?thesis
    unfolding get_product_svc_def get_product_def select_product_def
    by (simp, intro runs_attempt [where M = "\<lambda>_. books_inv" and F = "\<lambda>_. books_inv"] runs_query runs_if)
      (auto intro: runs_fail runs_ret)
qed (auto simp: get_product_svc_def intro: runs_ret)

lemma runs_create_call:
  "runs sys_step V books_inv (create_order_call gone items key) (\<lambda>_. books_inv) (\<lambda>_. books_inv)"
proof -
  have "runs sys_step V books_inv (result_of (create_order_svc items key)) (\<lambda>_. books_inv) (\<lambda>_. books_inv)"
    by (rule runs_conseq [OF runs_result_of [OF runs_create]]) (auto split: sum.splits)
  then show ?thesis
    unfolding create_order_call_def create_orders_def
    by (intro runs_if runs_create runs_attempt [where M = "\<lambda>_. books_inv" and F = "\<lambda>_. books_inv"])
      (auto intro: runs_ret runs_fail split: sum.splits)
qed

lemmas runs_reads = runs_get_order runs_get_orders runs_get_products runs_get_product

lemmas handler_defs = get_products_handler_def get_product_handler_def create_order_handler_def
  get_orders_handler_def get_order_handler_def cancel_order_handler_def

lemma runs_handle: "runs sys_step V sound (handle s r rt) (\<lambda>_. sound) (\<lambda>_. sound)"
proof (cases "rt = PayRoute")
  case True
  have "runs sys_step V sound (attempt (pay_endpoint (pay start_or_resume transition (charge (su_unlucky s)) (su_crash s))
      (su_digest s) [su_gone s] r) fail (\<lambda>xs. ret (hd xs))) (\<lambda>_. sound) (\<lambda>_. sound)"
    by (rule runs_attempt [OF runs_pay_endpoint]) (auto intro: runs_ret runs_fail)
  with True show ?thesis by simp
next
  case False
  have "runs sys_step V books_inv (handle s r rt) (\<lambda>_. books_inv) (\<lambda>_. books_inv)"
    using False
    by (cases rt)
      (auto simp: handler_defs case_prod_unfold Let_def intro!: runs_answered runs_reads runs_create_call runs_cancel_svc
        intro: runs_ret split: prod.splits sum.splits)
  then show ?thesis by (rule runs_sound)
qed

lemma runs_api: "runs sys_step V sound (ignore (api s mux r)) (\<lambda>_. sound) (\<lambda>_. sound)"
  unfolding ignore_def api_def
  by (rule runs_attempt [where M = "\<lambda>_. sound" and F = "\<lambda>_. sound"])
    (auto intro: runs_ret runs_handle split: mux_result.splits)

lemma runs_serve: "runs sys_step V sound (serve j) (\<lambda>_. sound) (\<lambda>_. sound)"
proof (cases "(\<exists>callers r digest unlucky crash. j = PostPay callers r digest unlucky crash) \<or> (\<exists>s mux r. j = Request s mux r)")
  case True
  then show ?thesis using runs_post_pay runs_api by auto
next
  case False
  have "runs sys_step V books_inv (serve j) (\<lambda>_. books_inv) (\<lambda>_. books_inv)"
    using False
    by (cases j)
      (auto intro!: runs_ignore runs_create runs_cancel_svc runs_pay_books runs_process_due
        runs_process_stuck runs_process_batch runs_cleanup_loop runs_audit_tick runs_refund_run runs_reconcile_run
        runs_relay_run runs_scheduled_once simp: cleanup_def intro: runs_ret)
  then show ?thesis by (rule runs_sound)
qed

lemma runs_serve_all: "runs sys_step V sound (serve_all js) (\<lambda>_. sound) (\<lambda>_. sound)"
proof (induction js)
  case (Cons j js)
  show ?case unfolding serve_all.simps by (rule runs_attempt [OF runs_serve runs_fail Cons.IH])
qed (auto intro: runs_ret)

end
