(* ===== verification/Stock.thy ===== *)
theory Stock
  imports Service
begin

text \<open>
  What the steps of the service keep of products, orders, keys and events: the conservation of stock
  (\<open>stock_machine\<close>), the agreement of payments with the orders they are for (\<open>totals_machine\<close>), the
  memory of the keys of orders, and that an event leaves the outbox only after Kafka took it or into the
  dead letter table.
\<close>

section \<open>Stock\<close>

lemma ledger_settled:
  assumes "products d' = products d" "order_items d' = order_items d"
    and "map o_id (orders d') = map o_id (orders d)" "\<And>x. live x d' \<longleftrightarrow> live x d"
  shows "shop_inv d' = shop_inv d" and "units pid d' = units pid d"
proof -
  have "o_id ` set (orders d') = o_id ` set (orders d)" using assms(3) by (metis set_map)
  then show "shop_inv d' = shop_inv d" using assms by (simp add: shop_inv_def item_ok_def)
  show "units pid d' = units pid d" using assms by (simp add: units_def stock_of_def reserved_def)
qed

lemma live_pay:
  "(\<exists>r\<in>set (update_where (\<lambda>r. o_id r = oid \<and> o_status r = Pending) (\<lambda>r. r\<lparr>o_status := Paid\<rparr>) os).
      o_id r = x \<and> o_status r \<noteq> Cancelled) \<longleftrightarrow> (\<exists>r\<in>set os. o_id r = x \<and> o_status r \<noteq> Cancelled)"
  by (induction os) auto

lemma transition_shop:
  assumes "transition_eff pid to pr reason d u d'"
  shows "products d' = products d" "order_items d' = order_items d" "idem_keys d' = idem_keys d"
    "outbox d' = outbox d" "outbox_dlq d' = outbox_dlq d"
    "map o_id (orders d') = map o_id (orders d)" "live x d' \<longleftrightarrow> live x d"
proof -
  obtain p where d': "d' = transition_db p to pr reason d"
    using assms by (auto simp: transition_eff_def)
  show "products d' = products d" "order_items d' = order_items d" "idem_keys d' = idem_keys d"
    "outbox d' = outbox d" "outbox_dlq d' = outbox_dlq d" "map o_id (orders d') = map o_id (orders d)"
    by (simp_all add: d' transition_db_def Let_def map_update_where)
  show "live x d' \<longleftrightarrow> live x d"
    by (cases "to = PaymentSucceeded") (simp_all add: d' transition_db_def Let_def live_def live_pay)
qed

text \<open>Most steps leave the shop alone.\<close>

definition shop_tables where
  "shop_tables d = (products d, orders d, order_items d, idem_keys d)"

definition queue_tables where
  "queue_tables d = (outbox d, outbox_dlq d)"

lemma other_steps:
  "start_eff oid key d r d' \<Longrightarrow> shop_tables d' = shop_tables d \<and> queue_tables d' = queue_tables d"
  "insert_charge oid amount status key n d = Inr (c, d') \<Longrightarrow>
     shop_tables d' = shop_tables d \<and> queue_tables d' = queue_tables d"
  "insert_provider_refund key cid amount n d = Inr (c, d') \<Longrightarrow>
     shop_tables d' = shop_tables d \<and> queue_tables d' = queue_tables d"
  "lease_refunds cfg locked n d = Inr (rs, d') \<Longrightarrow> shop_tables d' = shop_tables d \<and> queue_tables d' = queue_tables d"
  "update_refund_later i t err n d = Inr ((), d') \<Longrightarrow>
     shop_tables d' = shop_tables d \<and> queue_tables d' = queue_tables d"
  "update_refund_manual i err n d = Inr ((), d') \<Longrightarrow>
     shop_tables d' = shop_tables d \<and> queue_tables d' = queue_tables d"
  "refunded_eff x ref d () d' \<Longrightarrow> shop_tables d' = shop_tables d \<and> queue_tables d' = queue_tables d"
  "books_only d d' \<Longrightarrow> shop_tables d' = shop_tables d \<and> queue_tables d' = queue_tables d"
  "batch_eff locked write d y d' \<Longrightarrow> shop_tables d' = shop_tables d"
  "shop_tables (move_exhausted ids err d) = shop_tables d"
  "delete_expired cutoff n d = Inr (a, d') \<Longrightarrow> shop_tables d' = shop_tables d"
  "confirm_refund i n d = Inr ((), d') \<Longrightarrow> shop_tables d' = shop_tables d \<and> queue_tables d' = queue_tables d"
  "update_lease name every n d = Inr (b, d') \<Longrightarrow> shop_tables d' = shop_tables d \<and> queue_tables d' = queue_tables d"
  "claim_db key hash d = (cl, d') \<Longrightarrow> shop_tables d' = shop_tables d \<and> queue_tables d' = queue_tables d"
  "release_request key n d = Inr ((), d') \<Longrightarrow> shop_tables d' = shop_tables d \<and> queue_tables d' = queue_tables d"
  "complete_request key code body n d = Inr ((), d') \<Longrightarrow> shop_tables d' = shop_tables d \<and> queue_tables d' = queue_tables d"
  by (auto simp: shop_tables_def queue_tables_def start_eff_def start_db_def insert_charge_sql
      insert_provider_refund_sql lease_refunds_def update_refund_later_def update_refund_manual_def
      confirm_refund_def update_lease_def Let_def release_request_def complete_request_def refunded_eff_def refunded_db_def books_only_def batch_eff_def mark_published_def mark_poisoned_def
      move_exhausted_def delete_expired_def dest!: claim_frame split: if_splits)

text \<open>So an assertion about the shop has three steps to survive.\<close>

lemma shop_step_cases:
  assumes "sys_step d d'"
  obtains (same) "shop_tables d' = shop_tables d"
  | (place) items key r where "good_items items" "placed_eff items key d r d'"
  | (cancel) oid r where "cancel_eff oid d r d'"
  | (settle) pid to pr reason where "transition_eff pid to pr reason d () d'"
  using assms
proof (cases rule: sys_step.cases)
  case (placed items key r)
  then show ?thesis using place by blast
next
  case (cancelled oid r)
  then show ?thesis using cancel by blast
next
  case (settled pid to pr reason)
  then show ?thesis using settle by blast
next
  case (started key oid r)
  then show ?thesis using same other_steps(1) by blast
next
  case (charged key amount oid status n c)
  then show ?thesis using same other_steps(2) by blast
next
  case (returned rid amount cid n a)
  then show ?thesis using same other_steps(3) by blast
next
  case refund_leased
  then show ?thesis using same other_steps(4) by blast
next
  case refund_later
  then show ?thesis using same other_steps(5) by blast
next
  case refund_manual
  then show ?thesis using same other_steps(6) by blast
next
  case refunded
  then show ?thesis using same other_steps(7) by blast
next
  case booked
  then show ?thesis using same other_steps(8) by blast
next
  case relayed
  then show ?thesis using same other_steps(9) by blast
next
  case dead_lettered
  then show ?thesis using same other_steps(10) by blast
next
  case cleaned
  then show ?thesis using same other_steps(11) by blast
next
  case (refund_confirmed i n)
  then show ?thesis using same other_steps(12) by blast
next
  case (lease_taken every name n a)
  then show ?thesis using same other_steps(13) by blast
next
  case (request_claimed key hash c)
  then show ?thesis using same other_steps(14) by blast
next
  case (request_released key n)
  then show ?thesis using same other_steps(15) by blast
next
  case (request_answered code key body n)
  then show ?thesis using same other_steps(16) by blast
qed (rule same, simp add: shop_tables_def)+

lemma step_stock:
  assumes "sys_step d d'" and inv: "shop_inv d"
  shows "shop_inv d' \<and> units pid d' = units pid d"
  using assms(1)
proof (cases rule: shop_step_cases)
  case same
  then show ?thesis using ledger_cong [of d' d] inv by (simp add: shop_tables_def)
next
  case (place items key r)
  then show ?thesis using placed_ledger inv by blast
next
  case (cancel oid r)
  then show ?thesis using cancel_eff_ledger inv by blast
next
  case (settle q to pr reason)
  note t = transition_shop [OF settle]
  show ?thesis using ledger_settled [OF t(1,2,6,7)] inv by simp
qed

lemma initial_shop: "initial_db d \<Longrightarrow> shop_inv d"
  by (auto simp: initial_db_def empty_db_def shop_inv_def)

interpretation stock_machine: invariant initial_db sys_step shop_inv
  by unfold_locales (auto intro: initial_shop dest: step_stock)

lemma steps_units: "sys_step\<^sup>*\<^sup>* d d' \<Longrightarrow> shop_inv d \<Longrightarrow> units pid d' = units pid d"
proof (induction rule: rtranclp_induct)
  case (step d1 d2)
  then show ?case using step_stock stock_machine.inv_steps by metis
qed simp

section \<open>Totals\<close>

text \<open>The items of an order are written with it and never change.\<close>

definition items_of :: "int \<Rightarrow> database \<Rightarrow> order_item list" where
  "items_of oid d = filter (\<lambda>i. oi_order i = oid) (order_items d)"

lemma items_eff_others:
  "items_eff oid is d d' \<Longrightarrow> x \<noteq> oid \<Longrightarrow> items_of x d' = items_of x d"
  by (induction "is" arbitrary: d) (auto simp: item_eff_def item_db_def items_of_def new_item_def)

lemma placed_items:
  assumes "placed_eff items key d r d'" and x: "x \<in> o_id ` set (orders d)"
  shows "items_of x d' = items_of x d" and "x \<in> o_id ` set (orders d')"
proof -
  obtain d1 where create: "create_eff items key d r d1" and "d' = d1 \<or> add_event (fst r) d1 d'"
    using assms(1) by (auto simp: placed_eff_def split: if_splits)
  then have ev: "order_items d' = order_items d1" by (auto simp: add_event_def)
  have "items_of x d1 = items_of x d"
  proof (cases "ordered_before key d")
    case None
    then obtain d2 where oid: "\<forall>r'\<in>set (orders d). o_id r' \<noteq> fst r"
      and eff: "items_eff (fst r) (sort_key oi_product items) (open_order (fst r) key d) d2"
      and d1: "d1 = remember_order (fst r) key d2"
      using create by (auto simp: create_eff_def place_eff_def)
    have "items_of x d1 = items_of x d2" by (simp add: d1 items_of_def remember_order_def)
    also have "\<dots> = items_of x (open_order (fst r) key d)"
      using items_eff_others [OF eff] oid x by force
    also have "\<dots> = items_of x d" by (simp add: items_of_def open_order_def keep_idem_key_def Let_def)
    finally show ?thesis .
  qed (use create in \<open>simp add: create_eff_def\<close>)
  with ev show "items_of x d' = items_of x d" by (simp add: items_of_def)
  show "x \<in> o_id ` set (orders d')" using placed_frame(2) [OF assms(1)] x by (auto simp: opened_def)
qed

lemma cancel_shop:
  assumes "cancel_eff oid d r d'"
  shows "order_items d' = order_items d" "map o_id (orders d') = map o_id (orders d)"
    "idem_keys d' = idem_keys d" "outbox d' = outbox d" "outbox_dlq d' = outbox_dlq d"
    "order_is oid Cancelled d'"
proof -
  obtain row where "List.find (\<lambda>r. o_id r = oid) (orders d) = Some row"
    using assms by (auto simp: cancel_eff_def)
  from find_Some_in [OF this] have "oid \<in> o_id ` set (orders d)" by auto
  then show "order_items d' = order_items d" "map o_id (orders d') = map o_id (orders d)"
    "idem_keys d' = idem_keys d" "outbox d' = outbox d" "outbox_dlq d' = outbox_dlq d"
    "order_is oid Cancelled d'"
    using assms order_is_cancel [of oid Cancelled oid d]
    by (auto simp: cancel_eff_def cancel_db_def refund_eff_def map_update_where order_is_def
        split: option.splits if_splits)
qed

lemma step_items:
  assumes "sys_step d d'" and x: "x \<in> o_id ` set (orders d)"
  shows "items_of x d' = items_of x d \<and> x \<in> o_id ` set (orders d')"
  using assms(1)
proof (cases rule: shop_step_cases)
  case same
  with x show ?thesis by (simp add: shop_tables_def items_of_def)
next
  case (place items key r)
  with x show ?thesis using placed_items by blast
next
  case (cancel oid r)
  then show ?thesis using cancel_shop(1,2) x by (metis items_of_def set_map)
next
  case (settle q to pr reason)
  then show ?thesis using transition_shop(2,6) x by (metis items_of_def set_map)
qed

lemma order_total_items: "order_total oid d = sum_list (map (\<lambda>i. oi_price i * oi_quantity i) (items_of oid d))"
  by (simp add: order_total_def items_of_def)

text \<open>Where a payment row comes from.\<close>

lemma moved_back:
  assumes inv: "books_inv d" and mv: "moved p to pr d d'" and pr: "pr \<noteq> [] \<Longrightarrow> pay_status p = PaymentPending"
    and q: "q \<in> set (payments d')"
  shows "\<exists>p\<in>set (payments d). later p q"
proof (cases "q = mark_payment to pr p")
  case True
  then have "later p q" using movedD(2) [OF mv] pr by (cases "pr = []") (auto simp: later_def)
  then show ?thesis using movedD(1) [OF mv] by blast
next
  case False
  then have "q \<in> set (payments d)" using moved_member [OF books_parts(1) [OF inv] mv] q by blast
  then show ?thesis using later_refl by blast
qed

lemma step_payment_back:
  assumes "sys_step d d'" and inv: "books_inv d" and q: "q \<in> set (payments d')"
  shows "(\<exists>p\<in>set (payments d). later p q) \<or>
    (\<exists>key oid r. start_eff oid key d r d' \<and> q = new_payment (fst r) oid (order_total oid d) key (now d))"
proof (cases "payments d' = payments d")
  case False
  from assms(1) show ?thesis
  proof (cases rule: sys_step.cases)
    case (settled pid to pr reason)
    then obtain p where p: "pay_id p = pid" "moved p to pr d d'"
      using settled_moves [OF books_parts(1) [OF inv]] by blast
    have "pay_status p = PaymentPending" if "pr \<noteq> []"
      using settled(1) that movedD(2) [OF p(2)] by (auto simp: justified_def can_transition_payment_iff)
    then show ?thesis using moved_back [OF inv p(2) _ q] by blast
  next
    case (refunded r c)
    then obtain p where "moved p PaymentRefunded [] d d'" using refunded_moves [OF inv] by blast
    then show ?thesis using moved_back [OF inv _ _ q] by blast
  next
    case booked
    then obtain f where "\<forall>p. pay_core (f p) = pay_core p \<and> pay_created (f p) = pay_created p"
      and "payments d' = map f (payments d)"
      unfolding books_only_def by fastforce
    then have core: "pay_core (f p) = pay_core p" and "payments d' = map f (payments d)" for p by auto
    then obtain p where "p \<in> set (payments d)" "q = f p" using q by auto
    moreover from core [of p] have "later p (f p)" by (auto simp: pay_core_def later_def)
    ultimately show ?thesis by blast
  next
    case (started key oid r)
    then have "q \<in> set (payments d) \<or> q = new_payment (fst r) oid (order_total oid d) key (now d)"
      using q by (auto simp: start_eff_def start_db_def)
    then show ?thesis using started(2) later_refl by blast
  next
    case (placed items key r)
    then show ?thesis using placed_frame(1) False by (auto simp: money_tables_eq)
  next
    case (cancelled oid r)
    then show ?thesis using False cancel_db_money [of oid d, unfolded money_tables_eq]
      by (auto simp: cancel_eff_def refund_eff_def split: option.splits if_splits)
  next
    case relayed
    then show ?thesis using False outbox_frames(1) by (auto simp: money_tables_eq)
  next
    case (dead_lettered ids err)
    then show ?thesis using False outbox_frames(2) by (simp add: money_tables_eq)
  next
    case cleaned
    then show ?thesis using False outbox_frames(3) by (auto simp: money_tables_eq)
  qed (use False in \<open>auto simp: insert_charge_sql insert_provider_refund_sql lease_refunds_def
      update_refund_later_def update_refund_manual_def confirm_refund_def update_lease_def Let_def
      dest!: claim_frame request_frames\<close>)
qed (use q later_refl in metis)

text \<open>A payment is for the total of its order.\<close>

definition totals_inv :: "database \<Rightarrow> bool" where
  "totals_inv d \<longleftrightarrow> (\<forall>p\<in>set (payments d). pay_order p \<in> o_id ` set (orders d) \<and>
     pay_amount p = order_total (pay_order p) d)"

lemma step_totals:
  assumes st: "sys_step d d'" and "books_inv d" and inv: "totals_inv d"
  shows "totals_inv d'"
  unfolding totals_inv_def
proof
  fix q assume "q \<in> set (payments d')"
  then consider p where "p \<in> set (payments d)" "later p q"
    | key oid r where "start_eff oid key d r d'" "q = new_payment (fst r) oid (order_total oid d) key (now d)"
    using step_payment_back [OF st assms(2)] by blast
  then show "pay_order q \<in> o_id ` set (orders d') \<and> pay_amount q = order_total (pay_order q) d'"
  proof cases
    case 1
    then show ?thesis using inv step_items [OF st, of "pay_order p"]
      by (auto simp: totals_inv_def later_def order_total_items)
  next
    case 2
    then have "oid \<in> o_id ` set (orders d)" by (auto simp: start_eff_def dest!: find_Some_in)
    then show ?thesis using 2 step_items [OF st, of oid] by (simp add: order_total_items)
  qed
qed

lemma initial_totals: "initial_db d \<Longrightarrow> totals_inv d"
  by (auto simp: initial_db_def empty_db_def totals_inv_def)

interpretation totals_machine: invariant initial_db sys_step "\<lambda>d. books_inv d \<and> totals_inv d"
  by unfold_locales (auto intro: initial_books initial_totals step_books step_totals)

section \<open>Keys of orders\<close>

text \<open>A key that names an order names it for good, so a repeated request gets the same order.\<close>

lemma find_key_kept:
  assumes "List.find (\<lambda>k. k_key k = x) ks = Some k"
  shows "List.find (\<lambda>k. k_key k = x) (ks @ ls) = Some k"
  using assms by (simp add: find_append)

lemma items_eff_keys: "items_eff oid is d d' \<Longrightarrow> idem_keys d' = idem_keys d"
  by (induction "is" arbitrary: d) (auto simp: item_eff_def item_db_def)

lemma placed_key:
  assumes "placed_eff items key d r d'" and was: "ordered_before x d = Some oid"
  shows "ordered_before x d' = Some oid"
proof -
  obtain d1 where create: "create_eff items key d r d1" and "d' = d1 \<or> add_event (fst r) d1 d'"
    using assms(1) by (auto simp: placed_eff_def split: if_splits)
  then have ev: "ordered_before x d' = ordered_before x d1"
    by (auto simp: add_event_def ordered_before_def)
  show ?thesis
  proof (cases "ordered_before key d")
    case None
    then have "key \<noteq> x" using was by auto
    obtain d2 where eff: "items_eff (fst r) (sort_key oi_product items) (open_order (fst r) key d) d2"
      and d1: "d1 = remember_order (fst r) key d2"
      using create None by (auto simp: create_eff_def place_eff_def)
    have k: "idem_keys d2 = idem_keys (open_order (fst r) key d)" using items_eff_keys [OF eff] .
    obtain kx where kx: "List.find (\<lambda>k. k_key k = x) (idem_keys d) = Some kx" "x \<noteq> []" "0 < k_order kx"
      "k_order kx = oid"
      using was by (auto simp: ordered_before_def split: if_splits option.splits)
    have "List.find (\<lambda>k. k_key k = x) (idem_keys d2) = Some kx"
      unfolding k using kx(1) find_key_kept by (auto simp: open_order_def keep_idem_key_def Let_def)
    then have "List.find (\<lambda>k. k_key k = x) (idem_keys d1) = Some kx"
      using \<open>key \<noteq> x\<close> find_Some_in [OF kx(1)]
      by (auto simp: d1 remember_order_def find_update_where [where k = k_key])
    then show ?thesis using kx ev by (simp add: ordered_before_def)
  qed (use create was ev in \<open>simp add: create_eff_def\<close>)
qed

lemma placed_sets_key:
  assumes "placed_eff items key d r d'" and "key \<noteq> []"
  shows "ordered_before key d' = Some (fst r)"
proof -
  obtain d1 where create: "create_eff items key d r d1" and "d' = d1 \<or> add_event (fst r) d1 d'"
    using assms(1) by (auto simp: placed_eff_def split: if_splits)
  then have ev: "ordered_before key d' = ordered_before key d1"
    by (auto simp: add_event_def ordered_before_def)
  show ?thesis
  proof (cases "ordered_before key d")
    case None
    then obtain d2 where pos: "0 < fst r" and eff: "items_eff (fst r) (sort_key oi_product items) (open_order (fst r) key d) d2"
      and d1: "d1 = remember_order (fst r) key d2"
      using create by (auto simp: create_eff_def place_eff_def)
    have "\<exists>k\<in>set (idem_keys d2). k_key k = key"
      unfolding items_eff_keys [OF eff] using assms(2) by (auto simp: open_order_def keep_idem_key_def Let_def)
    then have "List.find (\<lambda>k. k_key k = key) (idem_keys d2) \<noteq> None"
      by (simp add: find_None_iff_ball)
    then obtain k where k: "List.find (\<lambda>k. k_key k = key) (idem_keys d2) = Some k" by blast
    have "List.find (\<lambda>k. k_key k = key) (idem_keys d1) = Some (k\<lparr>k_order := fst r\<rparr>)"
      using k find_Some_in [OF k] assms(2)
      by (simp add: d1 remember_order_def find_update_where [where k = k_key])
    then show ?thesis using pos assms(2) ev by (simp add: ordered_before_def)
  next
    case (Some oid)
    then have "r = (oid, True)" "d1 = d" using create by (simp_all add: create_eff_def)
    with Some ev show ?thesis by simp
  qed
qed

lemma step_key: "sys_step d d' \<Longrightarrow> ordered_before x d = Some oid \<Longrightarrow> ordered_before x d' = Some oid"
proof (erule shop_step_cases)
  show "ordered_before x d' = Some oid" if "ordered_before x d = Some oid" "shop_tables d' = shop_tables d"
  proof -
    have "ordered_before x d' = ordered_before x d" using that(2) by (simp add: shop_tables_def ordered_before_def)
    with that(1) show ?thesis by simp
  qed
  show "ordered_before x d' = Some oid" if "ordered_before x d = Some oid" "placed_eff items key d r d'" for items key r
    using that placed_key by blast
  show "ordered_before x d' = Some oid" if "ordered_before x d = Some oid" "cancel_eff y d r d'" for y r
  proof -
    have "ordered_before x d' = ordered_before x d" using cancel_shop(3) [OF that(2)] by (simp add: ordered_before_def)
    with that(1) show ?thesis by simp
  qed
  show "ordered_before x d' = Some oid" if "ordered_before x d = Some oid" "transition_eff q to pr reason d () d'"
    for q to pr reason
  proof -
    have "ordered_before x d' = ordered_before x d"
      using transition_shop(3) [OF that(2)] by (simp add: ordered_before_def)
    with that(1) show ?thesis by simp
  qed
qed

lemma stable_key: "stable sys_step (\<lambda>d. ordered_before x d = Some oid)"
  by (rule stableI) (rule step_key)

section \<open>Events\<close>

text \<open>One step of a row of the outbox: it stays the same event, or it is already published and is
  swept, or it becomes a dead letter.\<close>

lemma place_queue:
  assumes "placed_eff items key d r d'"
  shows "set (outbox d) \<subseteq> set (outbox d')" "outbox_dlq d' = outbox_dlq d"
proof -
  obtain d1 where create: "create_eff items key d r d1" and ev: "d' = d1 \<or> add_event (fst r) d1 d'"
    using assms by (auto simp: placed_eff_def split: if_splits)
  have items: "items_eff oid is c c' \<Longrightarrow> outbox c' = outbox c \<and> outbox_dlq c' = outbox_dlq c" for oid "is" c c'
    by (induction "is" arbitrary: c) (auto simp: item_eff_def item_db_def)
  have "outbox d1 = outbox d \<and> outbox_dlq d1 = outbox_dlq d"
    using create
    by (auto simp: create_eff_def place_eff_def remember_order_def open_order_def keep_idem_key_def Let_def
        split: option.splits if_splits dest!: items)
  then show "set (outbox d) \<subseteq> set (outbox d')" "outbox_dlq d' = outbox_dlq d"
    using ev by (auto simp: add_event_def)
qed

lemma same_event_refl [simp]: "same_event r r"
  by (simp add: same_event_def)

text \<open>The ids of the outbox are unique.\<close>

definition queue_inv :: "database \<Rightarrow> bool" where
  "queue_inv d \<longleftrightarrow> distinct (map ob_id (outbox d))"

lemma placed_queue:
  assumes "placed_eff items key d r d'" and "queue_inv d"
  shows "queue_inv d'"
proof -
  obtain d1 where create: "create_eff items key d r d1" and ev: "d' = d1 \<or> add_event (fst r) d1 d'"
    using assms by (auto simp: placed_eff_def split: if_splits)
  have items: "items_eff oid is c c' \<Longrightarrow> outbox c' = outbox c" for oid "is" c c'
    by (induction "is" arbitrary: c) (auto simp: item_eff_def item_db_def)
  have "outbox d1 = outbox d"
    using create
    by (auto simp: create_eff_def place_eff_def remember_order_def open_order_def keep_idem_key_def Let_def
        split: option.splits if_splits dest!: items)
  then show ?thesis using ev assms(2) by (auto simp: queue_inv_def add_event_def)
qed

lemma relayed_queue:
  assumes "batch_eff locked write d x d'" and "queue_inv d"
  shows "queue_inv d'"
proof -
  have "list_all2 (row_move (answer locked write d)) (outbox d) (outbox d')"
    using batch_eff_moves(1) [OF assms(1)] .
  then have "map ob_id (outbox d') = map ob_id (outbox d)"
    by (induction rule: list_all2_induct) (auto simp: row_move_def same_event_def)
  then show ?thesis using assms(2) by (simp add: queue_inv_def)
qed

lemma distinct_delete: "distinct (map f xs) \<Longrightarrow> distinct (map f (delete_where P xs))"
  by (simp add: delete_where_def distinct_map_filter)

lemma queue_step_cases:
  assumes "sys_step d d'"
  obtains (same) "outbox d' = outbox d"
  | (place) items key r where "placed_eff items key d r d'"
  | (relay) locked f x where "batch_eff locked f d x d'"
  | (dead) ids err where "d' = move_exhausted ids err d"
  | (clean) cutoff n a where "delete_expired cutoff n d = Inr (a, d')"
  using assms
proof (cases rule: sys_step.cases)
  case (placed items key r)
  then show ?thesis using place by blast
next
  case (cancelled oid r)
  then show ?thesis using same cancel_shop(4) by blast
next
  case (settled pid to pr reason)
  then show ?thesis using same transition_shop(4) by blast
next
  case relayed
  then show ?thesis using relay by blast
next
  case (dead_lettered ids err)
  then show ?thesis using dead by blast
next
  case cleaned
  then show ?thesis using clean by blast
next
  case started
  show ?thesis using same other_steps(1) [OF started(2)] by (simp add: queue_tables_def)
next
  case charged
  show ?thesis using same other_steps(2) [OF charged(3)] by (simp add: queue_tables_def)
next
  case returned
  show ?thesis using same other_steps(3) [OF returned(2)] by (simp add: queue_tables_def)
next
  case refund_leased
  show ?thesis using same other_steps(4) [OF refund_leased] by (simp add: queue_tables_def)
next
  case refund_later
  show ?thesis using same other_steps(5) [OF refund_later] by (simp add: queue_tables_def)
next
  case refund_manual
  show ?thesis using same other_steps(6) [OF refund_manual] by (simp add: queue_tables_def)
next
  case refunded
  show ?thesis using same other_steps(7) [OF refunded(3)] by (simp add: queue_tables_def)
next
  case booked
  show ?thesis using same other_steps(8) [OF booked] by (simp add: queue_tables_def)
next
  case (refund_confirmed i n)
  show ?thesis using same other_steps(12) [OF refund_confirmed(2)] by (simp add: queue_tables_def)
next
  case (lease_taken every name n a)
  show ?thesis using same other_steps(13) [OF lease_taken(2)] by (simp add: queue_tables_def)
next
  case (request_claimed key hash c)
  show ?thesis using same other_steps(14) [OF request_claimed] by (simp add: queue_tables_def)
next
  case (request_released key n)
  show ?thesis using same other_steps(15) [OF request_released] by (simp add: queue_tables_def)
next
  case (request_answered code key body n)
  show ?thesis using same other_steps(16) [OF request_answered(2)] by (simp add: queue_tables_def)
qed (rule same, simp)+

lemma step_queue:
  assumes "sys_step d d'" and inv: "queue_inv d"
  shows "queue_inv d'"
  using assms(1)
proof (cases rule: queue_step_cases)
  case place
  then show ?thesis using placed_queue inv by blast
next
  case relay
  then show ?thesis using relayed_queue inv by blast
next
  case (dead ids err)
  then show ?thesis using inv by (simp add: queue_inv_def move_exhausted_def distinct_delete)
next
  case clean
  then show ?thesis using inv by (auto simp: queue_inv_def delete_expired_def distinct_delete)
qed (use inv in \<open>simp add: queue_inv_def\<close>)

lemma initial_queue: "initial_db d \<Longrightarrow> queue_inv d"
  by (auto simp: initial_db_def empty_db_def queue_inv_def)

interpretation queue_machine: invariant initial_db sys_step queue_inv
  by unfold_locales (auto intro: initial_queue step_queue)

lemma expired_published:
  assumes "queue_inv d" and "r \<in> set (outbox d)" and "ob_id r \<in> set (expired_rows cutoff d)"
  shows "ob_published r \<noteq> None"
proof -
  obtain s where "s \<in> set (outbox d)" "ob_id s = ob_id r" "ob_published s \<noteq> None"
    using assms(3) by (auto simp: expired_rows_def dest!: in_set_takeD split: option.splits)
  then show ?thesis using distinct_key_eq [of ob_id "outbox d" s r] assms(1,2) by (simp add: queue_inv_def)
qed

lemma event_kept_in: "r \<in> set (outbox d) \<Longrightarrow> event_kept r d"
  unfolding event_kept_def using same_event_refl by blast

lemma step_events:
  assumes "sys_step d d'" and r: "r \<in> set (outbox d)" and inv: "queue_inv d"
  shows "event_kept r d' \<or> ob_published r \<noteq> None"
  using assms(1)
proof (cases rule: queue_step_cases)
  case place
  then show ?thesis using r place_queue(1) event_kept_in by blast
next
  case relay
  then show ?thesis using batch_keeps [OF relay r] by (auto simp: row_move_def event_kept_def)
next
  case (dead ids err)
  then show ?thesis using move_exhausted_keeps [OF r] by blast
next
  case (clean cutoff n a)
  show ?thesis
  proof (cases "ob_id r \<in> set (expired_rows cutoff d)")
    case True
    then show ?thesis using expired_published [OF inv r] by blast
  next
    case False
    then have "r \<in> set (outbox d')" using clean r by (auto simp: delete_expired_def set_delete_where)
    then show ?thesis using event_kept_in by blast
  qed
qed (use r event_kept_in in \<open>simp add: event_kept_in\<close>)

end
