(* ===== verification/Leases.thy ===== *)
theory Leases
  imports Audits
begin

text \<open>
  \<open>repository/job_lease.go\<close> among the other steps: nothing but a claim writes \<open>job_leases\<close>, a lease only
  moves forward, and so two replicas that both won the right to run a job did so a period apart
  (\<open>runs_claim_again\<close>).
\<close>

lemma item_eff_leases: "items_eff oid is d d' \<Longrightarrow> job_leases d' = job_leases d"
  by (induction "is" arbitrary: d) (auto simp: item_eff_def item_db_def)

lemma placed_leases: "placed_eff items key d r d' \<Longrightarrow> job_leases d' = job_leases d"
proof -
  assume "placed_eff items key d r d'"
  then obtain d1 where create: "create_eff items key d r d1" and ev: "d' = d1 \<or> add_event (fst r) d1 d'"
    by (auto simp: placed_eff_def split: if_splits)
  have "job_leases d1 = job_leases d"
    using create by (auto simp: create_eff_def place_eff_def open_order_def remember_order_def
        keep_idem_key_def Let_def dest!: item_eff_leases split: option.splits)
  then show ?thesis using ev by (auto simp: add_event_def)
qed

lemma step_lease_cases:
  assumes "sys_step d d'"
  shows "job_leases d' = job_leases d \<or>
    (\<exists>every name n a. 0 \<le> every \<and> update_lease name every n d = Inr (a, d'))"
  using assms
proof (cases rule: sys_step.cases)
  case (placed items key r)
  then show ?thesis using placed_leases by blast
next
  case (cancelled oid r)
  then show ?thesis
    by (auto simp: cancel_eff_def refund_eff_def cancel_db_def split: option.splits if_splits)
next
  case (settled pid to pr reason)
  then obtain p where "d' = transition_db p to pr reason d" by (auto simp: transition_eff_def)
  then show ?thesis by (simp add: transition_db_def Let_def)
next
  case (relayed locked wr x)
  then show ?thesis by (auto simp: batch_eff_def mark_published_def mark_poisoned_def split: if_splits)
qed (auto simp: start_eff_def start_db_def insert_charge_sql insert_provider_refund_sql lease_refunds_def
    update_refund_later_def update_refund_manual_def confirm_refund_def refunded_eff_def refunded_db_def
    books_only_def move_exhausted_def delete_expired_def dest!: claim_frame request_frames)

definition lease_inv :: "database \<Rightarrow> bool" where
  "lease_inv d \<longleftrightarrow> distinct (map jl_name (job_leases d))"

definition held_until :: "string \<Rightarrow> time \<Rightarrow> database \<Rightarrow> bool" where
  "held_until name t d \<longleftrightarrow> (\<forall>l\<in>set (job_leases d). jl_name l = name \<longrightarrow> t \<le> jl_next l)"

lemma step_lease: "sys_step d d' \<Longrightarrow> lease_inv d \<Longrightarrow> lease_inv d'"
  using step_lease_cases [of d d'] by (auto simp: lease_inv_def update_lease_def Let_def map_update_where)

lemma step_held: "sys_step d d' \<Longrightarrow> held_until name t d \<Longrightarrow> held_until name t d'"
  using step_lease_cases [of d d'] by (fastforce simp: held_until_def update_lease_def Let_def set_update_where)

interpretation lease_machine: invariant initial_db sys_step lease_inv
  by (unfold_locales; (erule step_lease, assumption | force simp: initial_db_def lease_inv_def))

lemma count_one_hits:
  assumes "count_where P xs = 1"
  shows "\<exists>x\<in>set xs. P x"
proof (rule ccontr)
  assume "\<not> ?thesis"
  then have "filter P xs = []" by (simp add: filter_empty_conv)
  with assms show False by (simp add: count_where_def)
qed

lemma runs_claim:
  assumes "0 \<le> every"
  shows "runs sys_step V lease_inv (try_claim name every)
    (\<lambda>ok d. lease_inv d \<and> (ok \<longrightarrow> held_until name (now d + every) d)) (\<lambda>_. lease_inv)"
proof -
  have st: "stable sys_step lease_inv" by (rule stableI) (rule step_lease)
  have upd: "runs sys_step V lease_inv (stmt (update_lease name every))
      (\<lambda>k d. lease_inv d \<and> (k = 1 \<longrightarrow> held_until name (now d + every) d)) (\<lambda>_. lease_inv)"
  proof (rule runs_once [OF once_performs [OF performs_stmt] st])
    fix d d' and k :: nat
    assume inv: "lease_inv d" and eff: "\<exists>n. update_lease name every n d = Inr (k, d')"
    show "sys_step\<^sup>*\<^sup>* d d'" using eff lease_taken [OF assms] by blast
    then show "lease_inv d'" using stableD [OF st inv] by blast
    moreover have "held_until name (now d' + every) d'" if "k = 1"
    proof -
      let ?hit = "\<lambda>l. jl_name l = name \<and> jl_next l \<le> now d"
      have d': "d' = d\<lparr>job_leases := update_where ?hit (\<lambda>l. l\<lparr>jl_next := now d + every\<rparr>) (job_leases d)\<rparr>"
        and k: "count_where ?hit (job_leases d) = 1"
        using eff that by (auto simp: update_lease_def Let_def)
      obtain l where l: "l \<in> set (job_leases d)" "?hit l" using count_one_hits [OF k] by blast
      have "l' = l" if "l' \<in> set (job_leases d)" "jl_name l' = name" for l'
        using inv that l unfolding lease_inv_def by (metis distinct_key_eq)
      with l(2) show ?thesis by (auto simp: held_until_def d' set_update_where)
    qed
    ultimately show "lease_inv d' \<and> (k = 1 \<longrightarrow> held_until name (now d' + every) d')" by blast
  qed auto
  show ?thesis
    unfolding try_claim_def by (rule runs_attempt [OF upd]) (auto intro: runs_fail runs_ret)
qed

lemma stable_held: "stable sys_step (held_until name t)"
  by (rule stableI) (rule step_held)

lemma runs_claim_again:
  assumes "0 \<le> every"
  shows "runs sys_step V (held_until name t) (try_claim name every) (\<lambda>ok d. ok \<longrightarrow> t \<le> now d) (\<lambda>_ _. True)"
proof -
  have upd: "runs sys_step V (held_until name t) (stmt (update_lease name every))
      (\<lambda>k d. k = 1 \<longrightarrow> t \<le> now d) (\<lambda>_ _. True)"
  proof (rule runs_once [OF once_performs [OF performs_stmt] stable_held])
    fix d d' and k :: nat
    assume held: "held_until name t d" and eff: "\<exists>n. update_lease name every n d = Inr (k, d')"
    show "sys_step\<^sup>*\<^sup>* d d'" using eff lease_taken [OF assms] by blast
    show "k = 1 \<longrightarrow> t \<le> now d'"
    proof
      assume "k = 1"
      then have k: "count_where (\<lambda>l. jl_name l = name \<and> jl_next l \<le> now d) (job_leases d) = 1" and "now d' = now d"
        using eff by (auto simp: update_lease_def Let_def)
      with count_one_hits [OF k] held show "t \<le> now d'" by (auto simp: held_until_def)
    qed
  qed auto
  show ?thesis
    unfolding try_claim_def by (rule runs_attempt [OF upd]) (auto intro: runs_fail runs_ret)
qed

end
