(* ===== verification/Settle.thy ===== *)
theory Settle
  imports System
begin

text \<open>
  What the worker for stuck payments brings about when nothing goes wrong: after one round every payment of its batch whose outcome is
  known has this outcome.

  \<open>quiet m d Q E\<close>: run alone and without failures from the committed state \<open>d\<close>, \<open>m\<close> ends in a state with \<open>Q\<close> and its
  value or with \<open>E\<close> and its error.
\<close>

section \<open>Runs without failures\<close>

definition quiet ::
  "'a act \<Rightarrow> database \<Rightarrow> ('a \<Rightarrow> database \<Rightarrow> bool) \<Rightarrow> (gerr \<Rightarrow> database \<Rightarrow> bool) \<Rightarrow> bool" where
  "quiet m d Q E \<longleftrightarrow> (\<forall>w. outside {} d w \<longrightarrow>
     wp m (\<lambda>a w'. \<exists>d'. outside {} d' w' \<and> Q a d') (\<lambda>e w'. \<exists>d'. outside {} d' w' \<and> E e d') w)"

lemma quiet_env [simp]: "outside {} d w \<Longrightarrow> env (next_event w) = (\<lambda>d. d)"
  by (cases "events w") (auto simp: outside_def next_event_def quiet_event_def)

lemma quiet_faultless [simp]: "faultless {}"
  by (simp add: faultless_def)

lemma quiet_ret: "Q a d \<Longrightarrow> quiet (ret a) d Q E"
  by (auto simp: quiet_def wp_simps)

lemma quiet_conseq:
  "quiet m d Q E \<Longrightarrow> (\<And>a d'. Q a d' \<Longrightarrow> Q' a d') \<Longrightarrow> (\<And>e d'. E e d' \<Longrightarrow> E' e d') \<Longrightarrow> quiet m d Q' E'"
  unfolding quiet_def by (intro allI impI, drule spec, drule mp, assumption, erule wp_mono) blast+

lemma quiet_attempt:
  assumes "quiet m d M N" and "\<And>a d'. M a d' \<Longrightarrow> quiet (k a) d' Q E" and "\<And>e d'. N e d' \<Longrightarrow> quiet (h e) d' Q E"
  shows "quiet (attempt m h k) d Q E"
  unfolding quiet_def wp_simps
proof (intro allI impI)
  fix w assume "outside {} d w"
  then have "wp m (\<lambda>a w'. \<exists>d'. outside {} d' w' \<and> M a d') (\<lambda>e w'. \<exists>d'. outside {} d' w' \<and> N e d') w"
    using assms(1) by (simp add: quiet_def)
  then show "wp m (\<lambda>a. wp (k a) (\<lambda>a w'. \<exists>d'. outside {} d' w' \<and> Q a d') (\<lambda>e w'. \<exists>d'. outside {} d' w' \<and> E e d'))
      (\<lambda>e. wp (h e) (\<lambda>a w'. \<exists>d'. outside {} d' w' \<and> Q a d') (\<lambda>e w'. \<exists>d'. outside {} d' w' \<and> E e d')) w"
    by (rule wp_mono) (use assms(2,3) in \<open>auto simp: quiet_def\<close>)
qed

lemma quiet_performs:
  assumes "performs m R F"
  shows "quiet m d (R d) (\<lambda>e d'. d' = d \<and> F d e)"
  unfolding quiet_def
proof (intro allI impI)
  fix w assume out: "outside {} d w"
  show "wp m (\<lambda>a w'. \<exists>d'. outside {} d' w' \<and> R d a d') (\<lambda>e w'. \<exists>d'. outside {} d' w' \<and> d' = d \<and> F d e) w"
    by (rule wp_mono [OF performsD [OF assms out]]) (use out in auto)
qed

lemma quiet_stmt: "quiet (stmt f) d (\<lambda>a d'. \<exists>n. f n d = Inr (a, d')) (\<lambda>e d'. d' = d \<and> (\<exists>n. f n d = Inl e))"
  by (rule quiet_performs [OF performs_stmt])

lemma quiet_runs:
  assumes "runs S {} P m Q E" and "P d"
  shows "quiet m d (\<lambda>a d'. S\<^sup>*\<^sup>* d d' \<and> Q a d') (\<lambda>e d'. S\<^sup>*\<^sup>* d d' \<and> E e d')"
proof -
  have "steady S {}" by (simp add: steady_def)
  with assms show ?thesis by (simp add: runs_def quiet_def)
qed

lemma quiet_conj:
  assumes "quiet m d Q E" and "quiet m d Q' E'"
  shows "quiet m d (\<lambda>a d'. Q a d' \<and> Q' a d') (\<lambda>e d'. E e d' \<and> E' e d')"
  unfolding quiet_def
proof (intro allI impI)
  fix w assume "outside {} d w"
  with assms have "wp m (\<lambda>a w'. \<exists>d'. outside {} d' w' \<and> Q a d') (\<lambda>e w'. \<exists>d'. outside {} d' w' \<and> E e d') w"
    "wp m (\<lambda>a w'. \<exists>d'. outside {} d' w' \<and> Q' a d') (\<lambda>e w'. \<exists>d'. outside {} d' w' \<and> E' e d') w"
    by (simp_all add: quiet_def)
  then show "wp m (\<lambda>a w'. \<exists>d'. outside {} d' w' \<and> Q a d' \<and> Q' a d') (\<lambda>e w'. \<exists>d'. outside {} d' w' \<and> E e d' \<and> E' e d') w"
    by (auto simp: wp_def outside_def split: prod.splits sum.splits)
qed

lemma quiet_run:
  assumes "quiet m d Q (\<lambda>_ _. False)"
  shows "\<exists>a w'. m (quiet_world d) = (Inr a, w') \<and> Q a (db w')"
proof -
  have "outside {} d (quiet_world d)" by (simp add: outside_def quiet_world_def)
  then have "wp m (\<lambda>a w'. \<exists>d'. outside {} d' w' \<and> Q a d') (\<lambda>e w'. False) (quiet_world d)"
    using assms by (simp add: quiet_def)
  then show ?thesis by (auto simp: wp_def outside_def split: prod.splits sum.splits)
qed

section \<open>One stuck payment\<close>

text \<open>What the provider knows of a key, and the status it stands for.\<close>

definition known_charge :: "string \<Rightarrow> database \<Rightarrow> charge option" where
  "known_charge key d = List.find (\<lambda>c. ch_key c = Some key) (charges d)"

definition lookup_of :: "charge option \<Rightarrow> charge_lookup \<times> string" where
  "lookup_of c = (case c of
       None \<Rightarrow> (ChargeNotFound, [])
     | Some c \<Rightarrow> if ch_status c = Declined then (ChargeDeclined, []) else (ChargeSucceeded, charge_name (ch_id c)))"

definition verdict :: "charge option \<Rightarrow> payment_status" where
  "verdict c = (case c of
       None \<Rightarrow> PaymentExpired
     | Some c \<Rightarrow> if ch_status c = Declined then PaymentFailed else PaymentSucceeded)"

text \<open>Everything but the payment \<open>i\<close> (and orders and histories) is as it was.\<close>

definition only_payment :: "int \<Rightarrow> database \<Rightarrow> database \<Rightarrow> bool" where
  "only_payment i d d' \<longleftrightarrow> charges d' = charges d \<and> provider_down d' = provider_down d \<and>
     (\<forall>q. pay_id q \<noteq> i \<longrightarrow> q \<in> set (payments d) \<longrightarrow> q \<in> set (payments d'))"

lemma only_payment_update:
  "only_payment i d (d\<lparr>payments := update_where (\<lambda>q. pay_id q = i \<and> P q) f (payments d)\<rparr>)"
  by (auto simp: only_payment_def update_where_def intro: rev_image_eqI)

lemma quiet_charge_status:
  assumes "provider_down d \<noteq> Some True"
  shows "quiet (charge_status key) d (\<lambda>r d'. d' = d \<and> r = lookup_of (known_charge key d)) (\<lambda>_ _. False)"
proof -
  have down: "quiet is_down d (\<lambda>b d'. d' = d \<and> \<not> b) (\<lambda>_ _. False)"
    unfolding is_down_def
    by (rule quiet_attempt [OF quiet_stmt])
      (use assms in \<open>auto simp: select_down_def sql_simps intro!: quiet_ret\<close>)
  have answer: "quiet (attempt (stmt (select_charge key))
       (\<lambda>err. if errors_is err NoRows then ret (ChargeNotFound, '''') else fail (provider_error err))
       (\<lambda>(cid, status). if status = Declined then ret (ChargeDeclined, '''') else ret (ChargeSucceeded, charge_name cid)))
     d (\<lambda>r d'. d' = d \<and> r = lookup_of (known_charge key d)) (\<lambda>_ _. False)"
    by (rule quiet_attempt [OF quiet_stmt])
      (auto simp: sql_simps known_charge_def lookup_of_def intro!: quiet_ret split: option.splits prod.splits)
  show ?thesis
    unfolding charge_status_def
    by (rule quiet_attempt [OF down]) (use answer in auto)
qed

lemma quiet_books_only:
  "quiet (schedule p t) d (\<lambda>_ d'. only_payment (st_id p) d d') (\<lambda>_ _. False)"
  "quiet (manual p reason) d (\<lambda>_ d'. only_payment (st_id p) d d') (\<lambda>_ _. False)"
  unfolding schedule_def manual_def
  by (rule quiet_attempt [OF quiet_stmt];
      auto simp: update_next_reconcile_def update_manual_reason_def intro!: quiet_ret only_payment_update)+

lemma quiet_retry_or_manual: "quiet (retry_or_manual cfg p reason) d (\<lambda>_ d'. only_payment (st_id p) d d') (\<lambda>_ _. False)"
  unfolding retry_or_manual_def by (auto intro: quiet_books_only)

definition stuck_in :: "stuck_payment \<Rightarrow> database \<Rightarrow> bool" where
  "stuck_in s d \<longleftrightarrow> (\<exists>p\<in>set (payments d). pay_id p = st_id s \<and> pay_status p = PaymentPending \<and>
     (st_key s \<noteq> [] \<longrightarrow> pay_key p = Some (st_key s)))"

definition status_at :: "int \<Rightarrow> payment_status \<Rightarrow> database \<Rightarrow> bool" where
  "status_at i to d \<longleftrightarrow> (\<exists>q\<in>set (payments d). pay_id q = i \<and> pay_status q = to)"

lemma stuck_in_kept: "stuck_in s d \<Longrightarrow> only_payment i d d' \<Longrightarrow> st_id s \<noteq> i \<Longrightarrow> stuck_in s d'"
  unfolding stuck_in_def only_payment_def by metis

lemma status_at_kept: "status_at j to d \<Longrightarrow> only_payment i d d' \<Longrightarrow> j \<noteq> i \<Longrightarrow> status_at j to d'"
  unfolding status_at_def only_payment_def by metis

lemma transition_moves:
  assumes "transition_eff i to pr reason d u d'"
  shows "only_payment i d d'" and "status_at i to d'"
proof -
  obtain p where p: "List.find (\<lambda>p. pay_id p = i) (payments d) = Some p" and d': "d' = transition_db p to pr reason d"
    using assms by (auto simp: transition_eff_def)
  have i: "p \<in> set (payments d)" "pay_id p = i" using find_Some_in [OF p] by auto
  have pays: "payments d' = update_where (\<lambda>q. pay_id q = i) (mark_payment to pr) (payments d)"
    using i by (simp add: d' transition_db_def Let_def)
  have "charges d' = charges d" "provider_down d' = provider_down d"
    by (simp_all add: d' transition_db_def Let_def)
  then show "only_payment i d d'"
    using pays by (auto simp: only_payment_def update_where_def intro: rev_image_eqI)
  show "status_at i to d'"
    using i by (auto simp: status_at_def pays update_where_def intro!: bexI [of _ "mark_payment to pr p"])
qed

lemma transition_possible:
  assumes inv: "books_inv d" and p: "p \<in> set (payments d)" "pay_id p = i" "pay_status p = PaymentPending"
    and to: "to = PaymentSucceeded \<or> to = PaymentFailed \<or> to = PaymentExpired"
  shows "\<not> transition_err i to d e"
proof -
  have "List.find (\<lambda>p. pay_id p = i) (payments d) = Some p"
    using p books_parts(1) [OF inv] find_key_unique [of pay_id "payments d" p] by (simp add: ids_inv_def)
  moreover have "order_is (pay_order p) Pending d" using order_invD(2) [OF books_parts(2) [OF inv] p(1,3)] .
  ultimately show ?thesis using p to by (auto simp: transition_err_def can_transition_payment_iff order_is_def)
qed

lemma quiet_resolve:
  assumes "books_inv d" and "stuck_in s d"
    and "to = PaymentSucceeded \<or> to = PaymentFailed \<or> to = PaymentExpired"
  shows "quiet (resolve cfg transition s to pr reason) d
    (\<lambda>_ d'. only_payment (st_id s) d d' \<and> status_at (st_id s) to d') (\<lambda>_ _. False)"
  unfolding resolve_def
proof (rule quiet_attempt [OF quiet_performs [OF performs_transition]])
  fix u d' assume "transition_eff (st_id s) to pr reason d u d'"
  from transition_moves [OF this]
  show "quiet (ret u) d' (\<lambda>_ d'. only_payment (st_id s) d d' \<and> status_at (st_id s) to d') (\<lambda>_ _. False)"
    by (auto intro: quiet_ret)
next
  fix e d' assume "d' = d \<and> transition_err (st_id s) to d e"
  moreover obtain p where "p \<in> set (payments d)" "pay_id p = st_id s" "pay_status p = PaymentPending"
    using assms(2) by (auto simp: stuck_in_def)
  ultimately have False using transition_possible [OF assms(1) _ _ _ assms(3)] by metis
  then show "quiet (if errors_is e (Sentinel ErrPaymentTransition) then ret ()
      else retry_or_manual cfg s (''record result: '' @ error_text e)) d'
      (\<lambda>_ d'. only_payment (st_id s) d d' \<and> status_at (st_id s) to d') (\<lambda>_ _. False)" ..
qed

definition decided :: "reconcile_settings \<Rightarrow> stuck_payment \<Rightarrow> database \<Rightarrow> bool" where
  "decided cfg s d \<longleftrightarrow> st_key s \<noteq> [] \<and> (known_charge (st_key s) d \<noteq> None \<or> rw_expire_after cfg \<le> st_age s)"

lemma quiet_reconcile:
  assumes "books_inv d" and "stuck_in s d" and "provider_down d \<noteq> Some True"
  shows "quiet (reconcile cfg charge_status transition age_text s) d
    (\<lambda>_ d'. only_payment (st_id s) d d' \<and>
       (decided cfg s d \<longrightarrow> status_at (st_id s) (verdict (known_charge (st_key s) d)) d')) (\<lambda>_ _. False)"
proof (cases "st_key s = []")
  case True
  then show ?thesis
    unfolding reconcile_def by (auto simp: decided_def intro: quiet_conseq [OF quiet_books_only(2)])
next
  case False
  let ?c = "known_charge (st_key s) d"
  let ?Q = "\<lambda>(_::unit) d'. only_payment (st_id s) d d' \<and> (decided cfg s d \<longrightarrow> status_at (st_id s) (verdict ?c) d')"
  note settle = quiet_resolve [OF assms(1,2)]
  have settled: "quiet (case lookup_of ?c of (status, charge_id) \<Rightarrow>
          if status = ChargeSucceeded then
            resolve cfg transition s PaymentSucceeded charge_id ''reconciled: charged at provider''
          else if status = ChargeDeclined then
            resolve cfg transition s PaymentFailed [] ''reconciled: declined at provider''
          else if status = ChargeNotFound \<and> rw_expire_after cfg \<le> st_age s then
            resolve cfg transition s PaymentExpired []
              (''reconciled: provider has no charge after '' @ age_text (st_age s))
          else schedule s (worker_backoff cfg (nat (st_attempts s)))) d ?Q (\<lambda>_ _. False)"
    using False
    by (cases ?c) (auto simp: lookup_of_def verdict_def decided_def intro: settle quiet_books_only(1))
  show ?thesis
    unfolding reconcile_def if_not_P [OF False]
  proof (rule quiet_attempt [OF quiet_charge_status [OF assms(3)]])
    fix r d' assume "d' = d \<and> r = lookup_of ?c"
    then have eqs: "d' = d" "r = lookup_of ?c" by simp_all
    show "quiet (case r of (status, charge_id) \<Rightarrow>
          if status = ChargeSucceeded then
            resolve cfg transition s PaymentSucceeded charge_id ''reconciled: charged at provider''
          else if status = ChargeDeclined then
            resolve cfg transition s PaymentFailed [] ''reconciled: declined at provider''
          else if status = ChargeNotFound \<and> rw_expire_after cfg \<le> st_age s then
            resolve cfg transition s PaymentExpired []
              (''reconciled: provider has no charge after '' @ age_text (st_age s))
          else schedule s (worker_backoff cfg (nat (st_attempts s)))) d' ?Q (\<lambda>_ _. False)"
      unfolding eqs by (rule settled)
  qed simp
qed

section \<open>A round\<close>

lemma decided_kept: "only_payment i d d' \<Longrightarrow> known_charge key d' = known_charge key d"
  by (simp add: only_payment_def known_charge_def)

lemma quiet_reconcile_each:
  assumes "distinct (map st_id ss)"
  shows "books_inv d \<Longrightarrow> \<forall>s\<in>set ss. stuck_in s d \<Longrightarrow> provider_down d \<noteq> Some True \<Longrightarrow>
    quiet (reconcile_each cfg charge_status transition age_text ss) d
      (\<lambda>_ d'. (\<forall>s\<in>set ss. decided cfg s d \<longrightarrow> status_at (st_id s) (verdict (known_charge (st_key s) d)) d') \<and>
         (\<forall>j to. j \<notin> st_id ` set ss \<longrightarrow> status_at j to d \<longrightarrow> status_at j to d')) (\<lambda>_ _. False)"
  using assms
proof (induction ss arbitrary: d)
  case (Cons s ss)
  let ?after = "\<lambda>d'. only_payment (st_id s) d d' \<and> books_inv d' \<and>
    (decided cfg s d \<longrightarrow> status_at (st_id s) (verdict (known_charge (st_key s) d)) d')"
  have pend: "pending_at s d" using Cons.prems(2) by (auto simp: stuck_in_def pending_at_def)
  have first: "quiet (reconcile cfg charge_status transition age_text s) d (\<lambda>_. ?after) (\<lambda>_ _. False)"
    by (rule quiet_conseq [OF quiet_conj [OF quiet_reconcile quiet_runs [OF runs_reconcile]]])
      (use Cons.prems pend in auto)
  show ?case
    unfolding reconcile_each.simps
  proof (rule quiet_attempt [OF first])
    fix u d1 assume d1: "?after d1"
    have fresh: "st_id s \<notin> st_id ` set ss" and dist: "distinct (map st_id ss)" using Cons.prems(4) by auto
    have up: "provider_down d1 \<noteq> Some True" using d1 Cons.prems(3) by (simp add: only_payment_def)
    have stuck: "\<forall>t\<in>set ss. stuck_in t d1"
      using Cons.prems(2) d1 fresh stuck_in_kept by (metis image_eqI list.set_intros(2))
    have same: "known_charge k d1 = known_charge k d" for k using decided_kept d1 by blast
    show "quiet (reconcile_each cfg charge_status transition age_text ss) d1
        (\<lambda>_ d'. (\<forall>s\<in>set (s # ss). decided cfg s d \<longrightarrow> status_at (st_id s) (verdict (known_charge (st_key s) d)) d') \<and>
         (\<forall>j to. j \<notin> st_id ` set (s # ss) \<longrightarrow> status_at j to d \<longrightarrow> status_at j to d')) (\<lambda>_ _. False)"
      by (rule quiet_conseq [OF Cons.IH [OF _ stuck up dist]])
        (use d1 fresh status_at_kept in \<open>auto simp: decided_def same\<close>)
  qed auto
qed (auto intro: quiet_ret)

lemma sound_batch:
  assumes inv: "books_inv d" and run: "lease_stuck cfg locked n d = Inr (ss, d')"
  shows "distinct (map st_id ss)" and "\<forall>s\<in>set ss. stuck_in s d'"
    and "charges d' = charges d" and "provider_down d' = provider_down d"
    and "p \<in> set (payments d) \<Longrightarrow> pay_id p \<in> set (stuck_ids cfg locked d) \<Longrightarrow>
      \<exists>s\<in>set ss. st_id s = pay_id p \<and> st_key s = (case pay_key p of None \<Rightarrow> [] | Some k \<Rightarrow> k) \<and> st_age s = now d - pay_created p"
proof -
  let ?hit = "\<lambda>p. pay_id p \<in> set (stuck_ids cfg locked d)"
  have ss: "ss = map (\<lambda>p. stuck_of (now d) (lease_payment cfg (now d) p)) (filter ?hit (payments d))"
    and d': "d' = d\<lparr>payments := update_where ?hit (lease_payment cfg (now d)) (payments d)\<rparr>"
    using run by (auto simp: lease_stuck_def Let_def)
  have ids: "map st_id ss = map pay_id (filter ?hit (payments d))"
    by (simp add: ss stuck_of_def lease_payment_def)
  have dist: "distinct (map pay_id (payments d))" using books_parts(1) [OF inv] by (simp add: ids_inv_def)
  then show "distinct (map st_id ss)" unfolding ids by (rule distinct_map_filter)
  show "charges d' = charges d" "provider_down d' = provider_down d" by (simp_all add: d')
  have pend: "pay_status p = PaymentPending" if "p \<in> set (payments d)" "?hit p" for p
  proof -
    have "\<exists>q\<in>set (payments d). pay_id q = pay_id p \<and> pay_status q = PaymentPending"
      using that(2) by (auto simp: stuck_ids_def dest!: in_set_takeD)
    then show ?thesis using that(1) dist distinct_key_eq by metis
  qed
  show "\<forall>s\<in>set ss. stuck_in s d'"
  proof
    fix s assume "s \<in> set ss"
    then obtain p where p: "p \<in> set (payments d)" "?hit p" "s = stuck_of (now d) (lease_payment cfg (now d) p)"
      by (auto simp: ss)
    then have "lease_payment cfg (now d) p \<in> set (payments d')"
      by (auto simp: d' update_where_def intro: rev_image_eqI)
    then show "stuck_in s d'"
      using pend [OF p(1,2)] p(3)
      by (auto simp: stuck_in_def stuck_of_def lease_payment_def intro!: bexI [of _ "lease_payment cfg (now d) p"] split: option.splits)
  qed
  show "\<exists>s\<in>set ss. st_id s = pay_id p \<and> st_key s = (case pay_key p of None \<Rightarrow> [] | Some k \<Rightarrow> k) \<and>
      st_age s = now d - pay_created p" if "p \<in> set (payments d)" "?hit p"
    using that by (auto simp: ss stuck_of_def lease_payment_def intro!: bexI [of _ p])
qed

lemma round_settles:
  assumes inv: "books_inv d" and up: "provider_down d \<noteq> Some True"
    and p: "p \<in> set (payments d)" "pay_id p \<in> set (stuck_ids cfg locked d)" "pay_key p = Some key" "key \<noteq> []"
    and known: "known_charge key d \<noteq> None \<or> rw_expire_after cfg \<le> now d - pay_created p"
  shows "quiet (process_stuck cfg charge_status transition age_text locked) d
    (\<lambda>_ d'. status_at (pay_id p) (verdict (known_charge key d)) d') (\<lambda>_ _. False)"
proof -
  have lease: "quiet (stmt (lease_stuck cfg locked)) d
      (\<lambda>ss d'. books_inv d' \<and> (\<exists>n. lease_stuck cfg locked n d = Inr (ss, d'))) (\<lambda>_ _. False)"
  proof (rule quiet_conseq [OF quiet_conj [OF quiet_performs [OF performs_lease_stuck] quiet_stmt]])
    fix ss d' assume "(books_only d d' \<and> (\<forall>st\<in>set ss. \<exists>p\<in>set (payments d). pay_id p = st_id st \<and>
        pay_key p = (if st_key st = [] then pay_key p else Some (st_key st)))) \<and> (\<exists>n. lease_stuck cfg locked n d = Inr (ss, d'))"
    then show "books_inv d' \<and> (\<exists>n. lease_stuck cfg locked n d = Inr (ss, d'))"
      using step_books [OF booked inv] by blast
  qed auto
  have count: "quiet (attempt (stmt (count_stuck cfg)) (\<lambda>_. ret ()) (\<lambda>_. ret ())) d (\<lambda>_ d'. d' = d) (\<lambda>_ _. False)"
    unfolding count_stuck_def
    by (rule quiet_attempt [OF quiet_stmt]) (auto simp: query_def intro!: quiet_ret)
  have "quiet (attempt (stmt (lease_stuck cfg locked)) fail (\<lambda>batch. reconcile_each cfg charge_status transition age_text batch)) d
    (\<lambda>_ d'. status_at (pay_id p) (verdict (known_charge key d)) d') (\<lambda>_ _. False)"
  proof (rule quiet_attempt [OF lease])
    fix ss d' assume "books_inv d' \<and> (\<exists>n. lease_stuck cfg locked n d = Inr (ss, d'))"
    then obtain n where d': "books_inv d'" "lease_stuck cfg locked n d = Inr (ss, d')" by blast
    note batch = sound_batch [OF inv d'(2)]
    obtain s where s: "s \<in> set ss" "st_id s = pay_id p" "st_key s = key" "st_age s = now d - pay_created p"
      using batch(5) [OF p(1,2)] p(3) by auto
    have same: "known_charge key d' = known_charge key d" using batch(3) by (simp add: known_charge_def)
    have "decided cfg s d'" using known p(4) s same by (simp add: decided_def)
    then show "quiet (reconcile_each cfg charge_status transition age_text ss) d'
        (\<lambda>_ d'. status_at (pay_id p) (verdict (known_charge key d)) d') (\<lambda>_ _. False)"
      using quiet_conseq [OF quiet_reconcile_each [OF batch(1) d'(1) batch(2)]] batch(4) up s same by fastforce
  qed auto
  then show ?thesis unfolding process_stuck_def by (intro quiet_attempt [OF count]) auto
qed

end
