(* ===== verification/Inbox.thy ===== *)
theory Inbox
  imports GoError Machine
begin

text \<open>
  \<open>product-service/consumer.go\<close>: the consumer of the topic \<open>orders\<close> with its inbox table.

  \<open>process_with_inbox\<close> is \<open>processWithInbox\<close>; \<open>consume\<close> is one round of the loop of \<open>StartConsumer\<close>. The reader of
  the library \<open>kafka-go\<close> hands out the messages of the log one after the other, starting at the committed
  offset after a restart. \<open>decode\<close> is \<open>json.Unmarshal\<close> of a message, \<open>work\<close> is \<open>fn\<close> on the data of the service
  (it is in the transaction of the inbox), and \<open>tx_world\<close> is what comes of the transaction's calls.
\<close>

section \<open>One transaction\<close>

datatype commit_result = Committed | NotCommitted gerr | AnswerLost gerr

record tx_world =
  begin_fault :: "gerr option"
  insert_fault :: "gerr option"
  commit_result :: commit_result

record 'd inbox_db =
  inbox :: "string list"
  service_data :: 'd

definition process_with_inbox ::
  "tx_world \<Rightarrow> string \<Rightarrow> ('d \<Rightarrow> (gerr + 'd)) \<Rightarrow> 'd inbox_db \<Rightarrow> (gerr + bool) \<times> 'd inbox_db" where
  "process_with_inbox tw event_id work d =
     (case begin_fault tw of Some e \<Rightarrow> (Inl e, d) | None \<Rightarrow>
      case insert_fault tw of Some e \<Rightarrow> (Inl e, d) | None \<Rightarrow>
      if event_id \<in> set (inbox d) then
        (case commit_result tw of
           Committed \<Rightarrow> (Inr False, d) | NotCommitted e \<Rightarrow> (Inl e, d) | AnswerLost e \<Rightarrow> (Inl e, d))
      else
        case work (service_data d) of
          Inl e \<Rightarrow> (Inl e, d)
        | Inr data \<Rightarrow>
            (let d' = d\<lparr>inbox := inbox d @ [event_id], service_data := data\<rparr>
             in case commit_result tw of
                  Committed \<Rightarrow> (Inr True, d') | NotCommitted e \<Rightarrow> (Inl e, d) | AnswerLost e \<Rightarrow> (Inl e, d')))"

section \<open>The loop\<close>

record reader_config =
  rc_brokers :: "string list"
  rc_topic :: string
  rc_group :: string
  rc_max_wait :: time

definition consumer_reader :: reader_config where
  "consumer_reader = \<lparr>rc_brokers = [''kafka:9092''], rc_topic = ''orders'', rc_group = ''product-service'',
     rc_max_wait = seconds 1\<rparr>"

record ('m, 'd) consumer =
  topic :: "'m list"
  position :: nat
  committed :: nat
  tables :: "'d inbox_db"

definition event_name :: "int \<Rightarrow> string" where
  "event_name oid = ''order_created:'' @ show_int oid"

definition commit_offset :: "bool \<Rightarrow> nat \<Rightarrow> ('m, 'd) consumer \<Rightarrow> ('m, 'd) consumer" where
  "commit_offset ok i c = (if ok then c\<lparr>committed := Suc i\<rparr> else c)"

definition consume ::
  "('m \<Rightarrow> gerr + int) \<Rightarrow> (string \<Rightarrow> 'd \<Rightarrow> (gerr + 'd)) \<Rightarrow> tx_world \<Rightarrow> bool \<Rightarrow>
   ('m, 'd) consumer \<Rightarrow> ('m, 'd) consumer" where
  "consume decode work tw commit_ok c =
     (let i = position c; c = c\<lparr>position := Suc i\<rparr> in
      case decode (topic c ! i) of
        Inl _ \<Rightarrow> commit_offset commit_ok i c
      | Inr oid \<Rightarrow>
          (case process_with_inbox tw (event_name oid) (work (event_name oid)) (tables c) of
             (Inl _, d) \<Rightarrow> c\<lparr>tables := d\<rparr>
           | (Inr processed, d) \<Rightarrow> commit_offset commit_ok i (c\<lparr>tables := d\<rparr>)))"

text \<open>The consumer, the producers that append to the log, and the restarts of the process.\<close>

inductive consumer_step ::
  "('m \<Rightarrow> gerr + int) \<Rightarrow> (string \<Rightarrow> 'd \<Rightarrow> (gerr + 'd)) \<Rightarrow> ('m, 'd) consumer \<Rightarrow> ('m, 'd) consumer \<Rightarrow> bool"
  for decode work where
  produced: "consumer_step decode work c (c\<lparr>topic := topic c @ [m]\<rparr>)"
| consumed: "position c < length (topic c) \<Longrightarrow> consumer_step decode work c (consume decode work tw ok c)"
| restarted: "consumer_step decode work c (c\<lparr>position := committed c\<rparr>)"

inductive_cases consumer_stepE: "consumer_step decode work c c'"

definition consumer_init :: "'d \<Rightarrow> ('m, 'd) consumer \<Rightarrow> bool" where
  "consumer_init data c \<longleftrightarrow> position c = 0 \<and> committed c = 0 \<and> tables c = \<lparr>inbox = [], service_data = data\<rparr>"

text \<open>The data are those of a service that did the work of every event of the inbox once, in this order.\<close>

fun worked :: "(string \<Rightarrow> 'd \<Rightarrow> (gerr + 'd)) \<Rightarrow> string list \<Rightarrow> 'd \<Rightarrow> 'd option" where
  "worked work [] data = Some data"
| "worked work (e # es) data = (case work e data of Inl _ \<Rightarrow> None | Inr data' \<Rightarrow> worked work es data')"

definition known_events :: "('m \<Rightarrow> gerr + int) \<Rightarrow> 'm list \<Rightarrow> string set" where
  "known_events decode ms = {event_name oid | oid. Inr oid \<in> decode ` set ms}"

definition consumer_inv ::
  "('m \<Rightarrow> gerr + int) \<Rightarrow> (string \<Rightarrow> 'd \<Rightarrow> (gerr + 'd)) \<Rightarrow> 'd \<Rightarrow> ('m, 'd) consumer \<Rightarrow> bool" where
  "consumer_inv decode work data c \<longleftrightarrow> distinct (inbox (tables c)) \<and>
     set (inbox (tables c)) \<subseteq> known_events decode (topic c) \<and>
     worked work (inbox (tables c)) data = Some (service_data (tables c)) \<and>
     position c \<le> length (topic c) \<and> committed c \<le> position c"

lemma worked_snoc:
  "worked work es data = Some data' \<Longrightarrow> worked work (es @ [e]) data = (case work e data' of Inl _ \<Rightarrow> None | Inr x \<Rightarrow> Some x)"
  by (induction es arbitrary: data) (auto split: sum.splits)

text \<open>What one transaction does: nothing, or the event and its work together.\<close>

lemma process_cases:
  assumes "process_with_inbox tw e work d = (r, d')"
  shows "d' = d \<or> e \<notin> set (inbox d) \<and> (\<exists>x. work (service_data d) = Inr x \<and>
    d' = d\<lparr>inbox := inbox d @ [e], service_data := x\<rparr>)"
    and "r = Inr b \<Longrightarrow> e \<in> set (inbox d')"
  using assms
  by (auto simp: process_with_inbox_def Let_def split: option.splits if_splits sum.splits commit_result.splits)

lemma commit_offset_sel [simp]:
  "topic (commit_offset ok i c) = topic c" "position (commit_offset ok i c) = position c"
  "tables (commit_offset ok i c) = tables c"
  "committed (commit_offset ok i c) = (if ok then Suc i else committed c)"
  by (simp_all add: commit_offset_def)

lemma consume_tables:
  "tables (consume decode work tw ok c) = tables c \<or>
    (\<exists>oid x. decode (topic c ! position c) = Inr oid \<and> event_name oid \<notin> set (inbox (tables c)) \<and>
       work (event_name oid) (service_data (tables c)) = Inr x \<and>
       tables (consume decode work tw ok c) =
         (tables c)\<lparr>inbox := inbox (tables c) @ [event_name oid], service_data := x\<rparr>)"
proof (cases "decode (topic c ! position c)")
  case (Inr oid)
  obtain r d' where run: "process_with_inbox tw (event_name oid) (work (event_name oid)) (tables c) = (r, d')"
    by (cases "process_with_inbox tw (event_name oid) (work (event_name oid)) (tables c)")
  then have "tables (consume decode work tw ok c) = d'"
    using Inr by (cases r) (simp_all add: consume_def Let_def)
  with process_cases(1) [OF run] Inr show ?thesis by auto
qed (simp add: consume_def Let_def)

lemma consume_positions:
  "topic (consume decode work tw ok c) = topic c" "position (consume decode work tw ok c) = Suc (position c)"
  "committed (consume decode work tw ok c) = committed c \<or> committed (consume decode work tw ok c) = Suc (position c)"
  by (auto simp: consume_def Let_def split: sum.splits prod.splits)

lemma step_consumer:
  assumes "consumer_step decode work c c'" and inv: "consumer_inv decode work data c"
  shows "consumer_inv decode work data c'"
  using assms(1)
proof (cases rule: consumer_step.cases)
  case (produced m)
  have "known_events decode (topic c) \<subseteq> known_events decode (topic c')"
    unfolding produced(1) by (auto simp: known_events_def)
  then show ?thesis using inv produced by (auto simp: consumer_inv_def)
next
  case restarted
  then show ?thesis using inv by (auto simp: consumer_inv_def)
next
  case (consumed tw ok)
  have pos: "position c' \<le> length (topic c')" "committed c' \<le> position c'" "topic c' = topic c"
    using consumed inv consume_positions [of decode work tw ok c] by (auto simp: consumer_inv_def)
  have "tables c' = tables c \<or>
    (\<exists>oid x. decode (topic c ! position c) = Inr oid \<and> event_name oid \<notin> set (inbox (tables c)) \<and>
       work (event_name oid) (service_data (tables c)) = Inr x \<and>
       tables c' = (tables c)\<lparr>inbox := inbox (tables c) @ [event_name oid], service_data := x\<rparr>)"
    using consume_tables [of decode work tw ok c] consumed(1) by auto
  then show ?thesis
  proof (elim disjE exE conjE)
    fix oid x
    assume new: "decode (topic c ! position c) = Inr oid" "event_name oid \<notin> set (inbox (tables c))"
      "work (event_name oid) (service_data (tables c)) = Inr x"
      "tables c' = (tables c)\<lparr>inbox := inbox (tables c) @ [event_name oid], service_data := x\<rparr>"
    have "Inr oid \<in> decode ` set (topic c)" using new(1) consumed(2) by (metis image_eqI nth_mem)
    then have "event_name oid \<in> known_events decode (topic c)" by (auto simp: known_events_def)
    moreover have "worked work (inbox (tables c) @ [event_name oid]) data = Some x"
      using worked_snoc [of work "inbox (tables c)" data] inv new(3) by (simp add: consumer_inv_def)
    ultimately show ?thesis using inv new pos by (auto simp: consumer_inv_def)
  qed (use inv pos in \<open>auto simp: consumer_inv_def\<close>)
qed

lemma init_consumer: "consumer_init data c \<Longrightarrow> consumer_inv decode work data c"
  by (simp add: consumer_init_def consumer_inv_def)

interpretation consumer_machine: invariant "consumer_init data" "consumer_step decode work" "consumer_inv decode work data"
  for data :: 'd and decode :: "'m \<Rightarrow> gerr + int" and work
  by unfold_locales (rule init_consumer step_consumer, assumption+)+

section \<open>Exactly once\<close>



text \<open>Deliveries without a failure, to the end of the log.\<close>

definition no_faults :: tx_world where
  "no_faults = \<lparr>begin_fault = None, insert_fault = None, commit_result = Committed\<rparr>"

fun consume_all :: "nat \<Rightarrow> ('m \<Rightarrow> gerr + int) \<Rightarrow> (string \<Rightarrow> 'd \<Rightarrow> (gerr + 'd)) \<Rightarrow>
    ('m, 'd) consumer \<Rightarrow> ('m, 'd) consumer" where
  "consume_all 0 decode work c = c"
| "consume_all (Suc n) decode work c = consume_all n decode work (consume decode work no_faults True c)"

lemma consume_clean:
  assumes "\<And>e x. \<exists>y. work e x = Inr y"
  shows "set (inbox (tables (consume decode work no_faults True c))) = set (inbox (tables c)) \<union>
      (case decode (topic c ! position c) of Inl _ \<Rightarrow> {} | Inr oid \<Rightarrow> {event_name oid})"
    and "committed (consume decode work no_faults True c) = Suc (position c)"
proof -
  have "\<forall>e. \<exists>y. work e (service_data (tables c)) = Inr y" using assms by blast
  then obtain y where y: "\<And>e. work e (service_data (tables c)) = Inr (y e)" by (metis (no_types))
  show "set (inbox (tables (consume decode work no_faults True c))) = set (inbox (tables c)) \<union>
      (case decode (topic c ! position c) of Inl _ \<Rightarrow> {} | Inr oid \<Rightarrow> {event_name oid})"
    using y by (auto simp: consume_def process_with_inbox_def no_faults_def Let_def split: sum.splits)
  show "committed (consume decode work no_faults True c) = Suc (position c)"
    using y by (auto simp: consume_def process_with_inbox_def no_faults_def Let_def split: sum.splits)
qed




end
