(* ===== verification/Shutdown.thy ===== *)
theory Shutdown
  imports Machine Domain
begin

text \<open>
  The life of a replica: \<open>App.Run\<close> of \<open>internal/app/app.go\<close> from its start to the end of the process, with the requests
  that come and go meanwhile.

  \<open>proceed\<close> is the main goroutine, one call at a time: the signal is received, \<open>/readyz\<close> turns red, the sleep of the drain
  delay, \<open>server.Shutdown\<close> with its 12 seconds, the cache, the pool, and the deferred end of the workers. The listener
  takes requests while it is open (\<open>arrive\<close>); each ends (\<open>finish\<close>) by its deadline of 10 seconds, the middleware
  \<open>Timeout\<close>. Time passes (\<open>tick\<close>) while the main goroutine waits and up to the next moment at which
  something is due: a call of the main goroutine and the end of a request at its deadline take no time.
\<close>

section \<open>The replica\<close>

datatype stage =
    Running
  | Draining time
  | Stopping time
  | ClosingCache
  | ClosingPool
  | Returning
  | Exited
  | FailedStop

record app =
  stage :: stage
  signalled :: bool
  signalled_at :: time
  shutting_down :: bool
  listening :: bool
  requests :: "time list"
  cache_open :: bool
  pool_open :: bool
  workers_on :: bool
  clock :: time

definition request_timeout :: time where "request_timeout = seconds 10"
definition stop_timeout :: time where "stop_timeout = seconds 12"

definition started :: "time \<Rightarrow> app" where
  "started t = \<lparr>stage = Running, signalled = False, signalled_at = t, shutting_down = False, listening = True,
     requests = [], cache_open = True, pool_open = True, workers_on = True, clock = t\<rparr>"

definition receive_signal :: "app \<Rightarrow> app" where
  "receive_signal a = (if signalled a then a else a\<lparr>signalled := True, signalled_at := clock a\<rparr>)"

text \<open>The next call of the main goroutine, if it does not wait.\<close>

definition proceed :: "time \<Rightarrow> app \<Rightarrow> app option" where
  "proceed drain_delay a =
     (case stage a of
        Running \<Rightarrow>
          if signalled a then Some (a\<lparr>shutting_down := True, stage := Draining (clock a + drain_delay)\<rparr>) else None
      | Draining until \<Rightarrow>
          if until \<le> clock a then Some (a\<lparr>listening := False, stage := Stopping (clock a + stop_timeout)\<rparr>) else None
      | Stopping deadline \<Rightarrow>
          if requests a = [] then Some (a\<lparr>stage := ClosingCache\<rparr>)
          else if deadline \<le> clock a then Some (a\<lparr>workers_on := False, stage := FailedStop\<rparr>)
          else None
      | ClosingCache \<Rightarrow> Some (a\<lparr>cache_open := False, stage := ClosingPool\<rparr>)
      | ClosingPool \<Rightarrow> Some (a\<lparr>pool_open := False, stage := Returning\<rparr>)
      | Returning \<Rightarrow> Some (a\<lparr>workers_on := False, stage := Exited\<rparr>)
      | Exited \<Rightarrow> None
      | FailedStop \<Rightarrow> None)"

definition arrive :: "app \<Rightarrow> app" where
  "arrive a = a\<lparr>requests := requests a @ [clock a]\<rparr>"

definition finish :: "nat \<Rightarrow> app \<Rightarrow> app" where
  "finish i a = a\<lparr>requests := take i (requests a) @ drop (Suc i) (requests a)\<rparr>"

definition due_by :: "time \<Rightarrow> app \<Rightarrow> bool" where
  "due_by t a \<longleftrightarrow> (\<exists>s\<in>set (requests a). s + request_timeout < t) \<or>
     (case stage a of Draining until \<Rightarrow> until < t | Stopping deadline \<Rightarrow> deadline < t | _ \<Rightarrow> False)"

inductive app_step :: "time \<Rightarrow> app \<Rightarrow> app \<Rightarrow> bool" for drain_delay where
  signal: "app_step drain_delay a (receive_signal a)"
| main: "proceed drain_delay a = Some a' \<Longrightarrow> app_step drain_delay a a'"
| request: "listening a \<Longrightarrow> app_step drain_delay a (arrive a)"
| answered: "i < length (requests a) \<Longrightarrow> app_step drain_delay a (finish i a)"
| tick: "proceed drain_delay a = None \<Longrightarrow> clock a < t \<Longrightarrow> \<not> due_by t a \<Longrightarrow> app_step drain_delay a (a\<lparr>clock := t\<rparr>)"

inductive_cases app_stepE: "app_step drain_delay a a'"

section \<open>A graceful end\<close>

definition app_init :: "app \<Rightarrow> bool" where
  "app_init a \<longleftrightarrow> (\<exists>t. a = started t)"

definition serving :: "app \<Rightarrow> bool" where
  "serving a \<longleftrightarrow> cache_open a \<and> pool_open a \<and> workers_on a"

definition app_inv :: "time \<Rightarrow> app \<Rightarrow> bool" where
  "app_inv drain_delay a \<longleftrightarrow>
     (\<forall>s\<in>set (requests a). s \<le> clock a \<and> clock a \<le> s + request_timeout) \<and>
     (signalled a \<longrightarrow> signalled_at a \<le> clock a) \<and> (stage a \<noteq> Running \<longrightarrow> signalled a) \<and>
     (case stage a of
        Running \<Rightarrow> serving a \<and> listening a \<and> \<not> shutting_down a \<and> (signalled a \<longrightarrow> clock a = signalled_at a)
      | Draining until \<Rightarrow> serving a \<and> listening a \<and> shutting_down a \<and> until = signalled_at a + drain_delay \<and>
          clock a \<le> until
      | Stopping deadline \<Rightarrow> serving a \<and> \<not> listening a \<and> shutting_down a \<and>
          deadline = signalled_at a + drain_delay + stop_timeout \<and> signalled_at a + drain_delay \<le> clock a \<and>
          clock a \<le> signalled_at a + drain_delay + request_timeout \<and>
          (\<forall>s\<in>set (requests a). s \<le> signalled_at a + drain_delay)
      | FailedStop \<Rightarrow> False
      | _ \<Rightarrow> requests a = [] \<and> \<not> listening a \<and> shutting_down a \<and> signalled_at a + drain_delay \<le> clock a \<and>
          (stage a \<noteq> Exited \<longrightarrow> clock a \<le> signalled_at a + drain_delay + request_timeout \<and> workers_on a) \<and>
          (stage a = Returning \<longrightarrow> \<not> pool_open a))"

lemma timeouts: "0 < request_timeout" "request_timeout < stop_timeout"
  by (simp_all add: request_timeout_def stop_timeout_def)

lemma finish_sel [simp]:
  "stage (finish i a) = stage a" "clock (finish i a) = clock a" "signalled (finish i a) = signalled a"
  "signalled_at (finish i a) = signalled_at a" "listening (finish i a) = listening a"
  "shutting_down (finish i a) = shutting_down a" "cache_open (finish i a) = cache_open a"
  "pool_open (finish i a) = pool_open a" "workers_on (finish i a) = workers_on a"
  by (simp_all add: finish_def)

lemma finish_requests: "set (requests (finish i a)) \<subseteq> set (requests a)"
  by (auto simp: finish_def dest: in_set_takeD in_set_dropD)

lemma inv_main:
  assumes "app_inv drain_delay a" and "proceed drain_delay a = Some a'" and "0 \<le> drain_delay"
  shows "app_inv drain_delay a'"
proof (cases "stage a")
qed (use assms timeouts in \<open>auto simp: app_inv_def proceed_def serving_def split: if_splits\<close>)

lemma inv_finish:
  assumes "app_inv drain_delay a"
  shows "app_inv drain_delay (finish i a)"
  using assms finish_requests [of i a]
  by (cases "requests a") (auto simp: app_inv_def serving_def finish_def split: stage.splits dest: in_set_takeD in_set_dropD)

lemma inv_tick:
  assumes "app_inv drain_delay a" and "proceed drain_delay a = None" and "clock a < t" and "\<not> due_by t a"
  shows "app_inv drain_delay (a\<lparr>clock := t\<rparr>)"
proof (cases "stage a")
  case (Stopping deadline)
  then obtain s where s: "s \<in> set (requests a)"
    using assms(2) by (cases "requests a") (auto simp: proceed_def)
  with assms Stopping have "t \<le> s + request_timeout" "s \<le> signalled_at a + drain_delay"
    by (auto simp: due_by_def app_inv_def not_less)
  then show ?thesis using assms Stopping by (auto simp: app_inv_def due_by_def serving_def not_less)
qed (use assms in \<open>auto simp: app_inv_def due_by_def proceed_def serving_def not_less split: if_splits\<close>)

lemma inv_step_app:
  assumes "0 \<le> drain_delay" and inv: "app_inv drain_delay a" and "app_step drain_delay a a'"
  shows "app_inv drain_delay a'"
  using assms(3)
proof (cases rule: app_step.cases)
  case signal
  then show ?thesis using inv by (auto simp: receive_signal_def app_inv_def serving_def split: stage.splits)
next
  case request
  then show ?thesis using inv timeouts by (auto simp: arrive_def app_inv_def serving_def split: stage.splits)
qed (use inv assms(1) inv_main inv_finish inv_tick in auto)

lemma inv_init_app: "app_init a \<Longrightarrow> app_inv drain_delay a"
  by (auto simp: app_init_def started_def app_inv_def serving_def)

text \<open>The drain delay of the configuration is not negative (\<open>config_is_positive\<close>).\<close>

interpretation replica: invariant app_init "\<lambda>a a'. app_step (max 0 drain_delay) a a'" "app_inv (max 0 drain_delay)"
  for drain_delay
  by unfold_locales (use inv_init_app inv_step_app in auto)



end
