(* ===== verification/Middleware.thy ===== *)
theory Middleware
  imports Api Shutdown
begin

text \<open>
  What stands around the routes: \<open>handler/middleware.go\<close> (\<open>RequestID\<close>, \<open>Recover\<close>, \<open>Timeout\<close>, \<open>LoggerMiddleware\<close>) in the order in which
  \<open>setupRoutes\<close> of \<open>internal/app/app.go\<close> nests them, over the \<open>ResponseWriter\<close> of \<open>net/http\<close>.

  A handler is run in a \<open>request_ctx\<close> (what the middlewares and the router put into the request's context) and gives an
  \<open>exchange\<close>: its calls on the writer in order, the lines it logged, and the value it panicked with, if it did. \<open>wire\<close> is
  what \<open>net/http\<close> makes of the calls: the header as it was at the first \<open>WriteHeader\<close> or \<open>Write\<close>, further
  \<open>WriteHeader\<close>s ignored, 200 when there was none. The headers the server adds of its own (date, length, a guessed type) and the
  duration in a log line are left out. \<open>LoggerMiddleware\<close> is given to \<open>r.Use\<close>: the router runs it for the routes it
  found, not for its own refusals. The id of a request, the time of its arrival and the handlers are arguments.
\<close>

section \<open>The writer\<close>

datatype wcall =
    SetHeader string string
  | DelHeader string
  | WriteHeader int
  | WriteBody string

record writer =
  wr_header :: "string \<rightharpoonup> string"
  wr_sent :: "(int \<times> (string \<rightharpoonup> string)) option"
  wr_body :: string

definition send_header :: "int \<Rightarrow> writer \<Rightarrow> writer" where
  "send_header code w = (case wr_sent w of None \<Rightarrow> w\<lparr>wr_sent := Some (code, wr_header w)\<rparr> | Some _ \<Rightarrow> w)"

primrec put :: "wcall \<Rightarrow> writer \<Rightarrow> writer" where
  "put (SetHeader k v) w = w\<lparr>wr_header := (wr_header w)(k \<mapsto> v)\<rparr>"
| "put (DelHeader k) w = w\<lparr>wr_header := (wr_header w)(k := None)\<rparr>"
| "put (WriteHeader code) w = send_header code w"
| "put (WriteBody b) w = (let w = send_header 200 w in w\<lparr>wr_body := wr_body w @ b\<rparr>)"

definition fresh_writer :: writer where
  "fresh_writer = \<lparr>wr_header = Map.empty, wr_sent = None, wr_body = []\<rparr>"

record answer =
  an_status :: int
  an_header :: "string \<rightharpoonup> string"
  an_body :: string

definition answer_of :: "writer \<Rightarrow> answer" where
  "answer_of w = (case wr_sent w of
       None \<Rightarrow> \<lparr>an_status = 200, an_header = wr_header w, an_body = wr_body w\<rparr>
     | Some (code, h) \<Rightarrow> \<lparr>an_status = code, an_header = h, an_body = wr_body w\<rparr>)"

definition wire :: "wcall list \<Rightarrow> answer" where
  "wire ws = answer_of (fold put ws fresh_writer)"

text \<open>\<open>http.Error\<close>\<close>

definition http_error :: "string \<Rightarrow> int \<Rightarrow> wcall list" where
  "http_error msg code =
     [DelHeader ''Content-Length'', SetHeader ''Content-Type'' ''text/plain; charset=utf-8'',
      SetHeader ''X-Content-Type-Options'' ''nosniff'', WriteHeader code, WriteBody (msg @ newline)]"

section \<open>The middlewares\<close>

datatype log_line =
    Served string string string int
  | PanicRecovered string string

record exchange =
  ex_writes :: "wcall list"
  ex_log :: "log_line list"
  ex_panic :: "string option"

record request_ctx =
  rq_id :: string
  rq_deadline :: "time option"
  rq_route :: "string option option"

type_synonym http_handler = "request_ctx \<Rightarrow> exchange act"

definition request_id :: "string \<Rightarrow> http_handler \<Rightarrow> http_handler" where
  "request_id new_id next_handler = (\<lambda>ctx.
     attempt (next_handler (ctx\<lparr>rq_id := new_id\<rparr>)) fail (\<lambda>x.
     ret (x\<lparr>ex_writes := SetHeader ''X-Request-Id'' new_id # ex_writes x\<rparr>)))"

definition recover_panics :: "http_handler \<Rightarrow> http_handler" where
  "recover_panics next_handler = (\<lambda>ctx.
     attempt (next_handler ctx) fail (\<lambda>x.
     case ex_panic x of
       None \<Rightarrow> ret x
     | Some v \<Rightarrow> ret \<lparr>ex_writes = ex_writes x @ http_error ''internal server error'' 500,
         ex_log = ex_log x @ [PanicRecovered (rq_id ctx) v], ex_panic = None\<rparr>))"

definition with_timeout :: "time \<Rightarrow> time \<Rightarrow> http_handler \<Rightarrow> http_handler" where
  "with_timeout d t next_handler = (\<lambda>ctx. next_handler (ctx\<lparr>rq_deadline :=
     Some (case rq_deadline ctx of None \<Rightarrow> t + d | Some parent \<Rightarrow> min parent (t + d))\<rparr>))"

text \<open>The \<open>status\<close> of \<open>responseWriter\<close> after the calls: 200, or what the last \<open>WriteHeader\<close> was given.\<close>

definition logged_status :: "wcall list \<Rightarrow> int" where
  "logged_status ws = fold (\<lambda>e status. case e of WriteHeader code \<Rightarrow> code | _ \<Rightarrow> status) ws 200"

definition logger_middleware :: "http_request \<Rightarrow> http_handler \<Rightarrow> http_handler" where
  "logger_middleware r next_handler = (\<lambda>ctx.
     attempt (next_handler ctx) fail (\<lambda>x.
     if ex_panic x \<noteq> None then ret x
     else
       let path = (case rq_route ctx of None \<Rightarrow> ''unknown'' | Some None \<Rightarrow> hq_path r | Some (Some tpl) \<Rightarrow> tpl)
       in ret (x\<lparr>ex_log := ex_log x @ [Served (rq_id ctx) (hq_method r) path (logged_status (ex_writes x))]\<rparr>)))"

section \<open>The server's handler\<close>

text \<open>The calls with which a handler writes a response (an implicit 200 counts as a \<open>WriteHeader\<close>).\<close>

definition respond :: "response \<Rightarrow> wcall list" where
  "respond x = (if rs_json x then [SetHeader ''Content-Type'' ''application/json''] else []) @
     (if rs_retry x then [SetHeader ''Retry-After'' ''1''] else []) @ [WriteHeader (rs_code x), WriteBody (rs_body x)]"

definition template :: "route \<Rightarrow> string option" where
  "template rt = map_option fst (List.find (\<lambda>(tpl, m, rt'). rt' = rt) routes)"

definition router :: "(route \<Rightarrow> http_handler) \<Rightarrow> mux \<Rightarrow> http_request \<Rightarrow> http_handler" where
  "router h mux r = (\<lambda>ctx. case mux routes r of
       Found rt \<Rightarrow> logger_middleware r (h rt) (ctx\<lparr>rq_route := Some (template rt)\<rparr>)
     | RefusedByMux x \<Rightarrow> ret \<lparr>ex_writes = respond x, ex_log = [], ex_panic = None\<rparr>)"

definition serve_http ::
  "(route \<Rightarrow> http_handler) \<Rightarrow> mux \<Rightarrow> string \<Rightarrow> time \<Rightarrow> http_request \<Rightarrow> exchange act" where
  "serve_http h mux new_id t r =
     request_id new_id (recover_panics (with_timeout request_timeout t (router h mux r)))
       \<lparr>rq_id = [], rq_deadline = None, rq_route = None\<rparr>"

text \<open>The handlers of the service, which do not panic in the model.\<close>

definition service_handler :: "surroundings \<Rightarrow> http_request \<Rightarrow> route \<Rightarrow> http_handler" where
  "service_handler s r rt = (\<lambda>ctx. attempt (handle s r rt) fail (\<lambda>x.
     ret \<lparr>ex_writes = respond x, ex_log = [], ex_panic = None\<rparr>))"

section \<open>What goes over the wire\<close>

definition sends :: "wcall list \<Rightarrow> bool" where
  "sends ws = list_ex (\<lambda>e. case e of WriteHeader _ \<Rightarrow> True | WriteBody _ \<Rightarrow> True | _ \<Rightarrow> False) ws"

primrec sets :: "string \<Rightarrow> wcall \<Rightarrow> bool" where
  "sets key (SetHeader k v) = (k = key)"
| "sets key (DelHeader k) = (k = key)"
| "sets key (WriteHeader code) = False"
| "sets key (WriteBody b) = False"

lemma put_sent:
  "wr_sent (put e w) \<noteq> None \<longleftrightarrow> wr_sent w \<noteq> None \<or> sends [e]"
  by (cases e) (auto simp: send_header_def sends_def Let_def split: option.splits)

lemma fold_sent: "wr_sent (fold put ws w) \<noteq> None \<longleftrightarrow> wr_sent w \<noteq> None \<or> sends ws"
proof (induction ws arbitrary: w)
  case (Cons e ws)
  then show ?case using put_sent [of e w] by (auto simp: sends_def)
qed (simp add: sends_def)

text \<open>A header set before and not touched since is on the wire.\<close>

definition carries :: "string \<Rightarrow> string \<Rightarrow> writer \<Rightarrow> bool" where
  "carries key v w \<longleftrightarrow> wr_header w key = Some v \<and> (\<forall>code h. wr_sent w = Some (code, h) \<longrightarrow> h key = Some v)"

lemma put_carries: "carries key v w \<Longrightarrow> \<not> sets key e \<Longrightarrow> carries key v (put e w)"
  by (cases e) (auto simp: carries_def send_header_def Let_def split: option.splits)

lemma fold_carries: "carries key v w \<Longrightarrow> list_all (\<lambda>e. \<not> sets key e) ws \<Longrightarrow> carries key v (fold put ws w)"
  by (induction ws arbitrary: w) (auto intro: put_carries)

lemma answer_carries: "carries key v w \<Longrightarrow> an_header (answer_of w) key = Some v"
  by (auto simp: carries_def answer_of_def split: option.splits prod.splits)

text \<open>The status and the body do not depend on the headers.\<close>

definition same_text :: "writer \<Rightarrow> writer \<Rightarrow> bool" where
  "same_text w w' \<longleftrightarrow> map_option fst (wr_sent w) = map_option fst (wr_sent w') \<and> wr_body w = wr_body w'"

lemma put_same_text: "same_text w w' \<Longrightarrow> same_text (put e w) (put e w')"
  by (cases e) (auto simp: same_text_def send_header_def Let_def split: option.splits)

lemma fold_same_text: "same_text w w' \<Longrightarrow> same_text (fold put ws w) (fold put ws w')"
  by (induction ws arbitrary: w w') (auto intro: put_same_text)

lemma answer_same_text:
  "same_text w w' \<Longrightarrow> an_status (answer_of w) = an_status (answer_of w') \<and> an_body (answer_of w) = an_body (answer_of w')"
  by (auto simp: same_text_def answer_of_def split: option.splits prod.splits)

lemma wire_named:
  assumes "list_all (\<lambda>e. \<not> sets key e) ws"
  shows "an_header (wire (SetHeader key v # ws)) key = Some v"
    and "an_status (wire (SetHeader key v # ws)) = an_status (wire ws)"
    and "an_body (wire (SetHeader key v # ws)) = an_body (wire ws)"
proof -
  have "carries key v (put (SetHeader key v) fresh_writer)" by (simp add: carries_def fresh_writer_def)
  from answer_carries [OF fold_carries [OF this assms]]
  show "an_header (wire (SetHeader key v # ws)) key = Some v" by (simp add: wire_def)
  have "same_text (put (SetHeader key v) fresh_writer) fresh_writer" by (simp add: same_text_def)
  from answer_same_text [OF fold_same_text [OF this, of ws]]
  show "an_status (wire (SetHeader key v # ws)) = an_status (wire ws)"
    and "an_body (wire (SetHeader key v # ws)) = an_body (wire ws)"
    by (simp_all add: wire_def)
qed

lemma fold_unsent_body: "\<not> sends ws \<Longrightarrow> wr_body (fold put ws w) = wr_body w"
  by (induction ws arbitrary: w) (auto simp: sends_def split: wcall.splits)

lemma wire_error:
  "sends ws \<Longrightarrow> wire (ws @ http_error msg code) = (wire ws)\<lparr>an_body := an_body (wire ws) @ msg @ newline\<rparr>"
  "\<not> sends ws \<Longrightarrow> an_status (wire (ws @ http_error msg code)) = code"
  "\<not> sends ws \<Longrightarrow> an_body (wire (ws @ http_error msg code)) = msg @ newline"
  using fold_sent [of ws fresh_writer] fold_unsent_body [of ws fresh_writer]
  by (auto simp: wire_def http_error_def answer_of_def send_header_def fresh_writer_def Let_def split: option.splits)

lemma wire_respond:
  "wire (respond x) = \<lparr>an_status = rs_code x,
     an_header = [''Content-Type'' \<mapsto> ''application/json'', ''Retry-After'' \<mapsto> ''1''] |`
       ((if rs_json x then {''Content-Type''} else {}) \<union> (if rs_retry x then {''Retry-After''} else {})),
     an_body = rs_body x\<rparr>"
  by (auto simp: wire_def respond_def answer_of_def send_header_def fresh_writer_def Let_def restrict_map_def)

lemma logged_respond: "logged_status (respond x) = rs_code x"
  by (simp add: logged_status_def respond_def)

section \<open>The whole stack\<close>

text \<open>What a route's handler runs in.\<close>

definition route_ctx :: "string \<Rightarrow> time \<Rightarrow> route \<Rightarrow> request_ctx" where
  "route_ctx new_id t rt =
     \<lparr>rq_id = new_id, rq_deadline = Some (t + request_timeout), rq_route = Some (template rt)\<rparr>"

lemma serve_http_found:
  assumes "mux routes r = Found rt" and "h rt (route_ctx new_id t rt) w = (Inr x, w')"
  shows "serve_http h mux new_id t r w =
    (Inr (case ex_panic x of
        None \<Rightarrow> \<lparr>ex_writes = SetHeader ''X-Request-Id'' new_id # ex_writes x,
          ex_log = ex_log x @ [Served new_id (hq_method r) (case template rt of None \<Rightarrow> hq_path r | Some tpl \<Rightarrow> tpl)
            (logged_status (ex_writes x))], ex_panic = None\<rparr>
      | Some v \<Rightarrow> \<lparr>ex_writes = SetHeader ''X-Request-Id'' new_id # ex_writes x @ http_error ''internal server error'' 500,
          ex_log = ex_log x @ [PanicRecovered new_id v], ex_panic = None\<rparr>), w')"
  using assms
  by (auto simp: serve_http_def request_id_def recover_panics_def with_timeout_def router_def
      logger_middleware_def route_ctx_def attempt_def ret_def Let_def split: option.splits)



text \<open>Over the service: the response of \<open>api\<close>, with the id of the request and, for a route, its status in the log.\<close>

lemma serve_http_api:
  assumes "api s mux r w = (Inr x, w')"
  shows "\<exists>y. serve_http (service_handler s r) mux new_id t r w = (Inr y, w') \<and>
    an_status (wire (ex_writes y)) = rs_code x \<and> an_body (wire (ex_writes y)) = rs_body x \<and>
    (case mux routes r of
       Found rt \<Rightarrow> \<exists>path. ex_log y = [Served new_id (hq_method r) path (rs_code x)]
     | RefusedByMux _ \<Rightarrow> ex_log y = [])"
proof (cases "mux routes r")
  case (Found rt)
  then have "service_handler s r rt (route_ctx new_id t rt) w = (Inr \<lparr>ex_writes = respond x, ex_log = [], ex_panic = None\<rparr>, w')"
    using assms by (simp add: api_def service_handler_def attempt_def ret_def)
  note run = serve_http_found [where h = "service_handler s r" and mux = mux and r = r and rt = rt, OF Found this]
  have "list_all (\<lambda>e. \<not> sets ''X-Request-Id'' e) (respond x)" by (simp add: respond_def)
  note named = wire_named [OF this]
  show ?thesis unfolding run by (simp add: Found named wire_respond logged_respond)
next
  case (RefusedByMux x')
  then have eqs: "x' = x" "w' = w" using assms by (auto simp: api_def ret_def)
  have "list_all (\<lambda>e. \<not> sets ''X-Request-Id'' e) (respond x)" by (simp add: respond_def)
  note named = wire_named [OF this]
  show ?thesis
    using RefusedByMux eqs
    by (simp add: serve_http_def request_id_def recover_panics_def with_timeout_def router_def attempt_def ret_def
        named wire_respond)
qed

end
