(* ===== verification/Satellites.thy ===== *)
theory Satellites
  imports Http
begin

text \<open>
  The two small services beside the order service, each a few handlers over one slice in memory:
  \<open>product-service/main.go\<close> (the catalogue) and \<open>user-service/main.go\<close> (registration and login). Requests are
  served one after another here; the code has no lock around its slices.

  A request's body is given as the decoder leaves it, because both services ignore the decoder's error.
  Arguments stand for bcrypt, for the signature of the token and for the JSON text of a price
  (a \<open>float64\<close>, the type \<open>'price\<close>). A slice is \<open>None\<close> while it is nil.
\<close>

section \<open>The catalogue\<close>

record 'price item =
  it_id :: int
  it_name :: string
  it_price :: 'price

type_synonym 'price catalogue = "'price item list option"

definition elements :: "'a list option \<Rightarrow> 'a list" where
  "elements s = (case s of None \<Rightarrow> [] | Some xs \<Rightarrow> xs)"

definition http_error :: "string \<Rightarrow> int \<Rightarrow> response" where
  "http_error msg code = \<lparr>rs_code = code, rs_json = False, rs_retry = False, rs_body = msg @ newline\<rparr>"

definition says :: "string \<Rightarrow> json" where
  "says msg = JObject [(''message'', JText msg)]"

definition catalogue_item_json :: "('price \<Rightarrow> json) \<Rightarrow> 'price item \<Rightarrow> json" where
  "catalogue_item_json price_json p =
     JObject [(''ID'', JInt (it_id p)), (''Name'', JText (it_name p)), (''Price'', price_json (it_price p))]"

definition list_catalogue :: "('price \<Rightarrow> json) \<Rightarrow> 'price catalogue \<Rightarrow> response" where
  "list_catalogue price_json ps =
     (case ps of
        None \<Rightarrow> \<lparr>rs_code = 200, rs_json = True, rs_retry = False, rs_body = ''null'' @ newline\<rparr>
      | Some xs \<Rightarrow> write_json 200 (JList (map (catalogue_item_json price_json) xs)))"

definition add_item :: "'price item \<Rightarrow> 'price catalogue \<Rightarrow> response \<times> 'price catalogue" where
  "add_item req ps =
     (let req = req\<lparr>it_id := int (length (elements ps)) + 1\<rparr>
      in (write_json 200 (says ''added''), Some (elements ps @ [req])))"

definition get_item :: "('price \<Rightarrow> json) \<Rightarrow> string \<Rightarrow> 'price catalogue \<Rightarrow> response" where
  "get_item price_json id_text ps =
     (let pid = fst (atoi id_text)
      in case List.find (\<lambda>p. it_id p = pid) (elements ps) of
           Some p \<Rightarrow> write_json 200 (catalogue_item_json price_json p)
         | None \<Rightarrow> http_error ''Product not found'' 404)"

fun delete_first :: "int \<Rightarrow> 'price item list \<Rightarrow> 'price item list option" where
  "delete_first pid [] = None"
| "delete_first pid (p # ps) =
     (if it_id p = pid then Some ps
      else case delete_first pid ps of None \<Rightarrow> None | Some rest \<Rightarrow> Some (p # rest))"

definition delete_item :: "string \<Rightarrow> 'price catalogue \<Rightarrow> response \<times> 'price catalogue" where
  "delete_item id_text ps =
     (let pid = fst (atoi id_text)
      in case delete_first pid (elements ps) of
           Some rest \<Rightarrow> (write_json 200 (says ''delete''), Some rest)
         | None \<Rightarrow> (http_error ''Product not found'' 404, ps))"

section \<open>Users\<close>

record user =
  us_id :: int
  us_name :: string
  us_password :: string

definition register ::
  "(string \<Rightarrow> string option) \<Rightarrow> string \<Rightarrow> string \<Rightarrow> user list \<Rightarrow> response \<times> user list" where
  "register generate username password us =
     (case generate password of
        None \<Rightarrow> (http_error ''Error'' 500, us)
      | Some hash \<Rightarrow>
          (write_json 200 (says ''registered''),
           us @ [\<lparr>us_id = int (length us) + 1, us_name = username, us_password = hash\<rparr>]))"

definition login ::
  "(string \<Rightarrow> string \<Rightarrow> bool) \<Rightarrow> (int \<Rightarrow> string \<Rightarrow> string option) \<Rightarrow> string \<Rightarrow> string \<Rightarrow> user list \<Rightarrow> response" where
  "login compare sign username password us =
     (case List.find (\<lambda>u. us_name u = username) us of
        None \<Rightarrow> http_error ''User not found'' 401
      | Some u \<Rightarrow>
          if \<not> compare (us_password u) password then http_error ''Wrong password'' 401
          else case sign (us_id u) (us_name u) of
            None \<Rightarrow> http_error ''Error'' 500
          | Some token \<Rightarrow> write_json 200 (JObject [(''token'', JText token)]))"

section \<open>What they promise\<close>

lemma elements_simps [simp]: "elements None = []" "elements (Some xs) = xs"
  by (simp_all add: elements_def)

definition add_all :: "'price item list \<Rightarrow> 'price catalogue \<Rightarrow> 'price catalogue" where
  "add_all reqs ps = foldl (\<lambda>ps req. snd (add_item req ps)) ps reqs"

definition numbered_from :: "int \<Rightarrow> 'price item list \<Rightarrow> 'price item list" where
  "numbered_from k ps = map (\<lambda>(i, p). p\<lparr>it_id := k + int i\<rparr>) (enumerate 0 ps)"

lemma numbered_from_Cons: "numbered_from k (p # ps) = p\<lparr>it_id := k\<rparr> # numbered_from (k + 1) ps"
  by (rule nth_equalityI) (auto simp: numbered_from_def nth_enumerate_eq nth_Cons split: nat.splits)

lemma numbered_from_nth [simp]:
  "i < length ps \<Longrightarrow> numbered_from k ps ! i = (ps ! i)\<lparr>it_id := k + int i\<rparr>"
  by (simp add: numbered_from_def nth_enumerate_eq)

lemma length_numbered_from [simp]: "length (numbered_from k ps) = length ps"
  by (simp add: numbered_from_def)

lemma add_all_elements: "elements (add_all reqs ps) = elements ps @ numbered_from (int (length (elements ps)) + 1) reqs"
proof (induction reqs arbitrary: ps)
  case (Cons r reqs)
  show ?case
    using Cons.IH [of "snd (add_item r ps)"]
    by (simp add: add_all_def numbered_from_Cons add_item_def Let_def add.commute)
qed (simp add: add_all_def numbered_from_def)

lemma find_numbered:
  "List.find (\<lambda>p. it_id p = i) (numbered_from k ps) =
    (if k \<le> i \<and> i < k + int (length ps) then Some ((ps ! nat (i - k))\<lparr>it_id := i\<rparr>) else None)"
proof (induction ps arbitrary: k)
  case (Cons p ps)
  show ?case
  proof (cases "i = k")
    case False
    then have "nat (i - k) = Suc (nat (i - (k + 1)))" if "k < i" using that by simp
    with False show ?thesis using Cons.IH [of "k + 1"] by (auto simp: numbered_from_Cons)
  qed (simp add: numbered_from_Cons)
qed (simp add: numbered_from_def)

text \<open>
  C38: A catalogue that only grows can be read back: the products added are listed in their order and numbered 1, 2, 3 and so
  on, and GET /products/{id} answers with the product added as the id-th, or 404 for every other number and
  for every text that is no number.
\<close>

theorem catalogue_reads_back:
  "elements (add_all reqs None) = numbered_from 1 reqs \<and>
   get_item price_json id_text (add_all reqs None) =
     (let i = fst (atoi id_text)
      in if 1 \<le> i \<and> i \<le> int (length reqs)
         then write_json 200 (catalogue_item_json price_json ((reqs ! nat (i - 1))\<lparr>it_id := i\<rparr>))
         else http_error ''Product not found'' 404)"
  by (simp add: add_all_elements get_item_def find_numbered Let_def)

lemma delete_first_None: "delete_first i ps = None \<longleftrightarrow> (\<forall>p\<in>set ps. it_id p \<noteq> i)"
  by (induction i ps rule: delete_first.induct) (auto split: option.splits)

lemma delete_first_find:
  "delete_first i ps = Some qs \<Longrightarrow> j \<noteq> i \<Longrightarrow> List.find (\<lambda>p. it_id p = j) qs = List.find (\<lambda>p. it_id p = j) ps"
  by (induction i ps arbitrary: qs rule: delete_first.induct) (auto split: option.splits if_splits)

lemma delete_first_length: "delete_first i ps = Some qs \<Longrightarrow> Suc (length qs) = length ps"
  by (induction i ps arbitrary: qs rule: delete_first.induct) (auto split: option.splits if_splits)

text \<open>
  C39: A number can be given twice. When any product but the newest was deleted from a catalogue of n, the next product
  added gets the number n of the newest one: the catalogue then holds two products under n, and
  GET /products/n keeps answering with the older one, so that the one just added cannot be read.
\<close>

theorem catalogue_reuses_a_number:
  assumes "fst (atoi id_text) = k" and "1 \<le> k" and "k < int (length reqs)"
    and "fst (atoi last_text) = int (length reqs)"
  shows "get_item price_json last_text (snd (add_item new (snd (delete_item id_text (add_all reqs None))))) =
      write_json 200 (catalogue_item_json price_json ((last reqs)\<lparr>it_id := int (length reqs)\<rparr>)) \<and>
    last (elements (snd (add_item new (snd (delete_item id_text (add_all reqs None)))))) =
      new\<lparr>it_id := int (length reqs)\<rparr>"
proof -
  let ?n = "int (length reqs)"
  have all: "elements (add_all reqs None) = numbered_from 1 reqs" by (simp add: add_all_elements)
  have "List.find (\<lambda>p. it_id p = k) (numbered_from 1 reqs) \<noteq> None"
    using assms by (simp add: find_numbered)
  then obtain qs where qs: "delete_first k (numbered_from 1 reqs) = Some qs"
    by (cases "delete_first k (numbered_from 1 reqs)") (auto simp: delete_first_None find_None_iff)
  then have del: "snd (delete_item id_text (add_all reqs None)) = Some qs"
    using assms(1) by (simp add: delete_item_def all Let_def)
  have len: "int (length qs) + 1 = ?n" using delete_first_length [OF qs] by simp
  have ne: "reqs \<noteq> []" using assms(2,3) by auto
  have "List.find (\<lambda>p. it_id p = ?n) qs = List.find (\<lambda>p. it_id p = ?n) (numbered_from 1 reqs)"
    using delete_first_find [OF qs] assms(3) by simp
  also have "\<dots> = Some ((last reqs)\<lparr>it_id := ?n\<rparr>)"
    using ne by (simp add: find_numbered last_conv_nth nat_diff_distrib Suc_le_eq)
  finally show ?thesis
    using len assms(4) by (simp add: del add_item_def get_item_def Let_def find_append)
qed

theorem catalogue_reuses_a_number_witness:
  "get_item JInt ''2'' (snd (add_item \<lparr>it_id = 0, it_name = ''c'', it_price = 3\<rparr> (snd (delete_item ''1''
     (add_all [\<lparr>it_id = 0, it_name = ''a'', it_price = 1\<rparr>, \<lparr>it_id = 0, it_name = ''b'', it_price = 2\<rparr>] None))))) =
   write_json 200 (JObject [(''ID'', JInt 2), (''Name'', JText ''b''), (''Price'', JInt 2)])"
proof -
  have n: "fst (atoi ''1'') = 1" "fst (atoi ''2'') = 2" by code_simp+
  show ?thesis
    using catalogue_reuses_a_number [OF n(1), of
        "[\<lparr>it_id = 0, it_name = ''a'', it_price = 1\<rparr>, \<lparr>it_id = 0, it_name = ''b'', it_price = 2\<rparr>]" "''2''" JInt
        "\<lparr>it_id = 0, it_name = ''c'', it_price = 3\<rparr>"] n(2)
    by (simp add: catalogue_item_json_def)
qed

definition register_all :: "(string \<Rightarrow> string option) \<Rightarrow> (string \<times> string) list \<Rightarrow> user list \<Rightarrow> user list" where
  "register_all generate rs us = foldl (\<lambda>us (n, pw). snd (register generate n pw us)) us rs"

text \<open>Passwords that bcrypt tells apart: it reads 72 bytes and repeats a shorter one with a zero byte between.\<close>

definition plain :: "string \<Rightarrow> bool" where
  "plain pw \<longleftrightarrow> length pw \<le> 72 \<and> CHR 0x00 \<notin> set pw"

definition bcrypt_law :: "(string \<Rightarrow> string option) \<Rightarrow> (string \<Rightarrow> string \<Rightarrow> bool) \<Rightarrow> bool" where
  "bcrypt_law generate compare \<longleftrightarrow> (\<forall>pw hash pw'. generate pw = Some hash \<longrightarrow> plain pw \<longrightarrow> plain pw' \<longrightarrow>
     (compare hash pw' \<longleftrightarrow> pw' = pw))"

definition accepted :: "(string \<Rightarrow> string option) \<Rightarrow> (string \<times> string) list \<Rightarrow> (string \<times> string) list" where
  "accepted generate rs = filter (\<lambda>(n, pw). generate pw \<noteq> None) rs"

lemma register_all_simps [simp]:
  "register_all generate [] us = us"
  "register_all generate ((n, pw) # rs) us = register_all generate rs (snd (register generate n pw us))"
  by (simp_all add: register_all_def)

lemma find_registered:
  "List.find (\<lambda>u. us_name u = name) (register_all generate rs us) = Some u \<Longrightarrow>
     List.find (\<lambda>u. us_name u = name) us = Some u \<or>
     List.find (\<lambda>u. us_name u = name) us = None \<and> us_name u = name \<and>
     (\<exists>pw. map_of (accepted generate rs) name = Some pw \<and> generate pw = Some (us_password u))"
proof (induction rs arbitrary: us)
  case (Cons r rs)
  obtain n pw where r: "r = (n, pw)" by (cases r)
  show ?case
    using Cons.IH [of "snd (register generate n pw us)"] Cons.prems
    by (cases "generate pw") (auto simp: r register_def accepted_def find_append split: option.splits if_splits)
qed simp

lemma find_registered_none:
  "List.find (\<lambda>u. us_name u = name) (register_all generate rs us) = None \<longleftrightarrow>
     List.find (\<lambda>u. us_name u = name) us = None \<and> map_of (accepted generate rs) name = None"
proof (induction rs arbitrary: us)
  case (Cons r rs)
  obtain n pw where r: "r = (n, pw)" by (cases r)
  show ?case
    using Cons.IH [of "snd (register generate n pw us)"]
    by (cases "generate pw") (auto simp: r register_def accepted_def find_append split: option.splits if_splits)
qed (simp add: accepted_def)



end
