(* ===== verification/Spec2Isabelle.thy ===== *)
theory Spec2Isabelle
  imports Stock Leases Settle Relay Inbox Startup Satellites
begin

text \<open>
  \<^bold>\<open>A shop of microservices\<close>

  The repository holds an order service (Go, Postgres, Redis, Kafka; \<open>src/order-service\<close>) and two small
  satellites, a product service (\<open>src/product-service\<close>) and a user service (\<open>src/user-service\<close>). The order
  service creates orders against a stock, pays them through a payment provider, cancels them and
  returns the money, publishes events through an outbox, settles stuck payments and audits its books against the
  provider's. This development models these programs and proves what makes them correct together, under
  concurrency and partial failure.

  \<^bold>\<open>How the code is modelled.\<close> \<open>Store\<close> holds the tables of \<open>migrations/goose\<close> as records and lists (the record \<open>database\<close>) and the
  session through which the code reaches them. An operation is an \<open>act\<close>, a function of the \<open>world\<close> that returns an
  error or a value: \<open>attempt m h k\<close> is \<open>x, err := m; if err != nil { h }; k\<close>, and each SQL text of the code is a
  function on the tables. What the code does not decide is an input: before each call the world says what other
  sessions have committed meanwhile, whether the call fails (not executed, or executed with its answer lost) and which
  number a sequence gives out. A transaction works on a copy and takes effect at its commit; the row locks and unique indexes the
  code uses serialise what it touches, so others act before a transaction and between the calls of an
  operation, not inside a transaction. Money is an integer number of hundredths, time an integer number of
  nanoseconds; shifts and doublings of durations are on 64-bit words, \<open>int32\<close> conversions on 32-bit words, and ids are
  checked against the width of their columns. Errors keep Go's wrapping (\<open>GoError\<close>).

  \<^bold>\<open>Theories.\<close> Each opens with what it holds; paths are under \<open>src/order-service/internal\<close> unless they say otherwise.
  \<^item> Basis: \<open>Base\<close> (table operations, numbers as text), \<open>GoError\<close> (errors), \<open>Domain\<close> (\<open>domain/\<close>: rows, the
    automata of orders and payments), \<open>Store\<close> (database, sessions, weakest preconditions, operations that are one transaction),
    \<open>Rely\<close> (operations of several calls among other sessions: \<open>runs\<close>, a rely/guarantee triple, and \<open>once\<close>, an effect that happens exactly once), \<open>Flight\<close> (callers that
    share one execution), \<open>Machine\<close> (reachability, invariants).
  \<^item> Orders: \<open>Orders\<close> (\<open>repository/order.go\<close>), \<open>OrderSvc\<close> (\<open>service/order_service.go\<close>, \<open>txm/txm.go\<close>, \<open>kafka/producer.go\<close>), \<open>Retry\<close>
    (\<open>retry/retry.go\<close>), \<open>Outbox\<close> and \<open>Relay\<close> (\<open>repository/outbox.go\<close>, \<open>worker/outbox_relay.go\<close>), \<open>Backoff\<close> (the pauses of the three workers).
  \<^item> Payments: \<open>Payments\<close> (\<open>repository/payment_repo.go\<close>), \<open>Provider\<close> (\<open>payment/fake_provider.go\<close>), \<open>PaySvc\<close>
    (\<open>service/payment_service.go\<close>), \<open>Idem\<close> (\<open>repository/idempotency_repo.go\<close>, \<open>handler/idempotency.go\<close>), \<open>PayApi\<close> (\<open>handler/payment.go\<close>),
    \<open>Refunds\<close> and \<open>Reconcile\<close> (\<open>worker/refund_worker.go\<close>, \<open>worker/reconcile_worker.go\<close>), \<open>Recon\<close> (\<open>reconciliation/\<close>, \<open>repository/job_lease.go\<close>),
    \<open>Workers\<close> (the loops of all workers).
  \<^item> HTTP: \<open>Http\<close> (JSON, \<open>handler/errors.go\<close>), \<open>Handlers\<close> (\<open>handler/handler.go\<close>, \<open>handler/dto.go\<close>), \<open>Products\<close>
    (\<open>repository/product.go\<close> and its two caches, \<open>cache/redis.go\<close>), \<open>Breaker\<close> (\<open>breaker/breaker.go\<close>), \<open>Readiness\<close> (\<open>handler/health.go\<close>,
    \<open>repository/schema.go\<close>, \<open>migrations/embed.go\<close>, \<open>config/config.go\<close>), \<open>Api\<close> (the routes of \<open>app/app.go\<close>), \<open>Middleware\<close> (\<open>handler/middleware.go\<close> around them), \<open>Shutdown\<close> (\<open>App.Run\<close>),
    \<open>Startup\<close> (\<open>cmd/main.go\<close>, \<open>New\<close> of \<open>app/app.go\<close>, \<open>repository/db.go\<close>, \<open>product-service/db.go\<close>).
  \<^item> Satellites: \<open>Inbox\<close> (\<open>product-service/consumer.go\<close>), \<open>Satellites\<close> (\<open>product-service/main.go\<close>, \<open>user-service/main.go\<close>).
  \<^item> The whole service: \<open>Ledger\<close> and \<open>Books\<close> (the step relation \<open>sys_step\<close>: every transaction of every operation of every
    replica, and the invariants of its books), \<open>System\<close>, \<open>Audits\<close>, \<open>Leases\<close>, \<open>Answers\<close>, \<open>Service\<close> (each operation makes only
    these steps), \<open>Stock\<close> (stock, totals, keys, events), \<open>Settle\<close> (what a round of the stuck-payment worker brings about), and this theory.

  \<^bold>\<open>How the proofs go.\<close> An operation's transaction is shown once to be all or nothing with a stated effect (\<open>performs\<close>).
  \<open>sys_step\<close> has one rule per effect; \<open>books_inv\<close> and the other invariants are preserved by each rule. The \<open>runs\<close> lemmas say
  that an operation, interleaved with any steps of others and with any failing calls, makes only steps of the
  system. So every state the service reaches is a \<open>reachable\<close> one, and a property of reachable states holds while
  any number of replicas serve requests and run their workers. The interfaces of the code are locales (the payment's store
  and provider in \<open>PaySvc\<close>, the idempotency store in \<open>Idem\<close>, \<open>invariant\<close> in \<open>Machine\<close>), interpreted on the model's own
  operations.

  \<^bold>\<open>What is shown.\<close> Payments: what Pay and its endpoint answer is true, paid orders were charged their total once, money goes
  back once and only for cancelled orders, histories are paths of the automaton, stuck payments are settled, the audit
  needs a person for one case only. Orders: stock is conserved, creating is idempotent, pages give every order
  once. Events: none is lost, the relay settles all, the consumer applies each once, and what is not so. The
  rest: the breaker, the caches, retries, panics, readiness, the start and the shutdown of a replica, configuration, the satellites.

  \<^bold>\<open>Bounds and fuel.\<close> The loops of the code are bounded by itself: five retries, twenty rounds of the cleaning, the rows of a
  batch; they are recursions over these numbers or lists. The endless loops (\<open>Run\<close>, \<open>RunScheduled\<close>, \<open>StartConsumer\<close>) are recursions over the list
  of what happens to them, ticks and the end of the context (\<open>ticker\<close>, \<open>relay_run\<close>, \<open>consume_all\<close>), of any length, so no fuel can run out;
  \<open>ticker_returns\<close> says that a worker returns exactly when its context ends.

  \<^bold>\<open>Arguments.\<close> Libraries and services are arguments: Kafka's answers, the Redis client, the LRU, gorilla's router, the JSON decoder, the
  texts of decimals and times, SHA-256, bcrypt, the token's signature, the draw of the fake provider, the order of Go's maps. So is what Go's runtime
  decides: which requests share an execution of a singleflight group and which of them leave first, and what a \<open>select\<close> of a worker picks.

  \<^bold>\<open>Not modelled.\<close> Metrics but the gauge of the outbox's lag, the tracing of queries and all logging but the lines of the middlewares (pure output);
  contexts (a deadline is the failure of the call it cuts off); that an execution of a singleflight group is forgotten when it ends (an execution is given with its callers);
  where a handler may panic (\<open>Middleware\<close> takes it as given), and a panic inside a singleflight group, which \<open>Recover\<close> does not see; \<open>Logger\<close>, \<open>Start\<close>
  and the other functions nothing calls, \<open>RunScheduled\<close> apart. Surrogate ids of append-only logs are dropped. The slices of the satellites are served one request after another
  (the code has no lock).
\<close>

section \<open>The running service\<close>

lemma serve_reachable:
  assumes "reachable initial_db sys_step d" and "steady sys_step V" and "outside V d w"
  shows "reachable initial_db sys_step (db (snd (serve_all js w)))"
proof -
  obtain r w' where run: "serve_all js w = (r, w')" by (cases "serve_all js w")
  have "sound d" using assms(1) by (rule requests_machine.inv_reachable)
  from runs_result [OF runs_serve_all assms(2,3) this run]
  show ?thesis using reachable_steps assms(1) run by fastforce
qed

text \<open>A shop with one product, and the same after some requests were served.\<close>

definition demo_db :: database where
  "demo_db = empty_db\<lparr>products := [\<lparr>p_id = 7, p_name = ''tea'', p_price = 500, p_stock = 3\<rparr>],
     job_leases := [\<lparr>jl_name = ''reconciliation'', jl_next = 0\<rparr>]\<rparr>"

definition after_jobs :: "job list \<Rightarrow> database" where
  "after_jobs js = db (snd (serve_all js (quiet_world demo_db)))"

abbreviation buy :: job where
  "buy \<equiv> Create [\<lparr>ci_product = 7, ci_quantity = 2\<rparr>] ''k1''"

abbreviation pay_it :: job where
  "pay_it \<equiv> PayOrder 1 ''p1'' False False"

lemma demo_initial: "initial_db demo_db"
  unfolding initial_db_def demo_db_def
  by (rule exI [of _ "[\<lparr>p_id = 7, p_name = ''tea'', p_price = 500, p_stock = 3\<rparr>]"], rule exI [of _ 0])
    (simp add: empty_db_def)

lemma quiet_outside: "outside {} d (quiet_world d)"
  by (simp add: outside_def quiet_world_def)

lemma quiet_steady: "steady S {}"
  by (simp add: steady_def)

lemma demo_reachable: "reachable initial_db sys_step demo_db"
  by (rule reachable.start, rule demo_initial)

lemma after_jobs_reachable: "reachable initial_db sys_step (after_jobs js)"
  unfolding after_jobs_def by (rule serve_reachable [OF demo_reachable quiet_steady quiet_outside])

section \<open>Payments\<close>

text \<open>
  C1: What Pay reports is true. Run from any reachable state, interleaved with the
  transactions of other requests, replicas and workers and with arbitrary failures of single calls, when Pay returns
  a charge for a key, the payment with this key is received (succeeded, or refunded since) under that charge, and the
  provider's journal has the charge with this key in the payment's amount; and whatever Pay returns,
  no transaction is left open and the database is again a reachable one.
\<close>

theorem pay_reports_the_truth:
  assumes "reachable initial_db sys_step d" and "steady sys_step V" and "outside V d w" and "key \<noteq> []"
    and run: "pay start_or_resume transition (charge unlucky) crash oid key w = (r, w')"
  shows "reachable initial_db sys_step (db w') \<and> saved w' = None \<and>
    (case r of Inl e \<Rightarrow> True | Inr c \<Rightarrow>
       \<exists>p\<in>set (payments (db w')). pay_key p = Some key \<and> pay_provider p = Some c \<and>
         (pay_status p = PaymentSucceeded \<or> pay_status p = PaymentRefunded) \<and>
         (\<exists>ch\<in>set (charges (db w')). ch_status ch = Charged \<and> ch_key ch = Some key \<and>
            ch_amount ch = pay_amount p \<and> c = charge_name (ch_id ch)))"
proof -
  have "books_inv d" using assms(1) by (rule books_machine.inv_reachable)
  from runs_result [OF paying.runs_pay [OF assms(4)] assms(2,3) this run]
  show ?thesis
    using reachable_steps assms(1) by (cases r) (force simp: received_def has_charge_def)+
qed

theorem pay_reports_the_truth_witness:
  "\<exists>w'. pay start_or_resume transition (charge False) False 1 ''p1'' (quiet_world (after_jobs [buy])) = (Inr ''ch_1'', w') \<and>
     (\<exists>p\<in>set (payments (db w')). pay_key p = Some ''p1'' \<and> pay_provider p = Some ''ch_1'')"
proof -
  obtain r w' where run: "pay start_or_resume transition (charge False) False 1 ''p1''
      (quiet_world (after_jobs [buy])) = (r, w')"
    by (cases "pay start_or_resume transition (charge False) False 1 ''p1'' (quiet_world (after_jobs [buy]))")
  have "fst (pay start_or_resume transition (charge False) False 1 ''p1'' (quiet_world (after_jobs [buy]))) = Inr ''ch_1''"
    by code_simp
  then have r: "r = Inr ''ch_1''" by (simp add: run)
  from pay_reports_the_truth [OF after_jobs_reachable quiet_steady quiet_outside _ run]
  show ?thesis using run r by auto
qed


text \<open>The answer to the first attempt was lost; the second one is a replay, shared by two requests, of which one has left.\<close>

abbreviation post_pay :: http_request where
  "post_pay \<equiv> \<lparr>hq_method = ''POST'', hq_path = ''/orders/1/pay'', hq_id = ''1'', hq_query = (\<lambda>_. []),
     hq_key = ''p1'', hq_body = []\<rparr>"

abbreviation post_it :: job where
  "post_it \<equiv> PostPay [None] post_pay id False False"


text \<open>
  C3: A service that serves any list of jobs (HTTP requests on any route, groups of payment requests that share an
  execution, single rounds and the endless loops of the refund, reconciliation, relay and audit workers) makes only the steps of the system: from a
  reachable state it ends in a reachable state with no transaction open, whatever other
  replicas of the same service do in between and whichever calls fail, and all invariants of the books hold there.
\<close>

theorem service_keeps_the_books:
  assumes "reachable initial_db sys_step d" and "steady sys_step V" and "outside V d w"
    and run: "serve_all js w = (r, w')"
  shows "reachable initial_db sys_step (db w') \<and> sys_step\<^sup>*\<^sup>* d (db w') \<and> saved w' = None \<and> books_inv (db w')"
proof -
  have "sound d" using assms(1) by (rule requests_machine.inv_reachable)
  from runs_result [OF runs_serve_all assms(2,3) this run]
  have st: "sys_step\<^sup>*\<^sup>* d (db w')" and "saved w' = None" by simp_all
  moreover have reach: "reachable initial_db sys_step (db w')" using reachable_steps [OF st assms(1)] .
  moreover have "books_inv (db w')" using books_machine.inv_reachable [OF reach] .
  ultimately show ?thesis by blast
qed

theorem service_keeps_the_books_witness:
  "books_inv (after_jobs [buy, pay_it, Cancel 1, ReturnMoney (new_refund_worker []) {}])"
proof -
  obtain r w' where run: "serve_all [buy, pay_it, Cancel 1, ReturnMoney (new_refund_worker []) {}] (quiet_world demo_db) = (r, w')"
    by (cases "serve_all [buy, pay_it, Cancel 1, ReturnMoney (new_refund_worker []) {}] (quiet_world demo_db)")
  have "after_jobs [buy, pay_it, Cancel 1, ReturnMoney (new_refund_worker []) {}] = db w'" unfolding after_jobs_def run snd_conv ..
  with service_keeps_the_books [OF demo_reachable quiet_steady quiet_outside run] show ?thesis by metis
qed

text \<open>
  C6: In every reachable state an order that is paid has exactly one payment that is pending or succeeded;
  it has succeeded, its amount is the total of the order's items, and the provider has charged exactly this amount under the payment's
  idempotency key.
\<close>

theorem paid_order_was_charged_its_total:
  assumes reach: "reachable initial_db sys_step d" and paid: "order_is oid Paid d"
  shows "\<exists>p\<in>set (payments d). pay_order p = oid \<and> pay_status p = PaymentSucceeded \<and>
     pay_amount p = order_total oid d \<and> 0 < pay_amount p \<and>
     (\<forall>q\<in>set (payments d). pay_order q = oid \<longrightarrow> active (pay_status q) \<longrightarrow> q = p) \<and>
     (\<exists>c\<in>set (charges d). ch_status c = Charged \<and> ch_key c = pay_key p \<and> ch_amount c = order_total oid d \<and>
        pay_provider p = Some (charge_name (ch_id c)))"
proof -
  have inv: "books_inv d" and tot: "totals_inv d"
    using totals_machine.inv_reachable [OF reach] by blast+
  note ord = books_parts(2) [OF inv]
  obtain p where p: "p \<in> set (payments d)" "pay_order p = oid" "pay_status p = PaymentSucceeded"
    using order_invD(5) [OF ord paid] by blast
  have amount: "pay_amount p = order_total oid d" using tot p by (auto simp: totals_inv_def)
  have only: "q = p" if "q \<in> set (payments d)" "pay_order q = oid" "active (pay_status q)" for q
    using order_invD(4) [OF ord that(1) p(1) that(3)] p that by (simp add: active_def)
  have "\<exists>c\<in>set (charges d). ch_status c = Charged \<and> ch_key c = pay_key p \<and> ch_amount c = order_total oid d \<and>
      pay_provider p = Some (charge_name (ch_id c))"
    using charge_invD(1) [OF books_parts(4) [OF inv] p(1)] p(3) unfolding amount by blast
  with p amount order_invD(1) [OF ord p(1)] only show ?thesis by blast
qed

theorem paid_order_was_charged_its_total_witness:
  "\<exists>p\<in>set (payments (after_jobs [buy, pay_it])). pay_order p = 1 \<and> pay_amount p = 1000"
proof -
  have "order_is 1 Paid (after_jobs [buy, pay_it])" by code_simp
  from paid_order_was_charged_its_total [OF after_jobs_reachable this]
  have "\<exists>p\<in>set (payments (after_jobs [buy, pay_it])). pay_order p = 1 \<and>
      pay_amount p = order_total 1 (after_jobs [buy, pay_it])" by blast
  moreover have "order_total 1 (after_jobs [buy, pay_it]) = 1000" by code_simp
  ultimately show ?thesis by simp
qed

text \<open>The refund, the payment and the charge behind a pay-back.\<close>

lemma pay_back_traced:
  assumes inv: "books_inv d" and x: "x \<in> set (provider_refunds d)"
  obtains f p c where "f \<in> set (refunds d)" "p \<in> set (payments d)" "c \<in> set (charges d)"
    "pr_key x = refund_key (rf_id f)" "rf_payment f = pay_id p" "order_is (pay_order p) Cancelled d"
    "pr_amount x = pay_amount p" "ch_status c = Charged" "ch_key c = pay_key p" "ch_amount c = pay_amount p"
    "pr_charge x = charge_name (ch_id c)"
proof -
  obtain f p where f: "f \<in> set (refunds d)" "pr_key x = refund_key (rf_id f)" "pr_amount x = rf_amount f"
    and p: "p \<in> set (payments d)" "pay_id p = rf_payment f" "pay_provider p = Some (pr_charge x)"
    using return_invD(1) [OF books_parts(5) [OF inv] x] by blast
  obtain q where q: "q \<in> set (payments d)" "pay_id q = rf_payment f" "rf_amount f = pay_amount q"
      "order_is (pay_order q) Cancelled d" "pay_status q = PaymentSucceeded \<or> pay_status q = PaymentRefunded"
    using refund_invE [OF books_parts(3) [OF inv] f(1)] by metis
  have "q = p" using payment_unique [OF books_parts(1) [OF inv] q(1) p(1)] p(2) q(2) by simp
  with q obtain c where "c \<in> set (charges d)" "ch_status c = Charged" "ch_key c = pay_key p"
      "ch_amount c = pay_amount p" "pay_provider p = Some (charge_name (ch_id c))"
    using charge_invD(1) [OF books_parts(4) [OF inv] p(1)] by blast
  with that f p q \<open>q = p\<close> show ?thesis by auto
qed

text \<open>
  C7: Money goes back at most once and only when it should. In every reachable state, everything the provider has
  paid back is for a payment whose order is cancelled, in the amount of that payment, and against a charge
  that was taken under this payment's key in the same amount; and no two pay-backs are against the
  same charge.
\<close>

theorem money_goes_back_once:
  assumes reach: "reachable initial_db sys_step d" and x: "x \<in> set (provider_refunds d)"
  shows "(\<exists>p\<in>set (payments d). order_is (pay_order p) Cancelled d \<and> pr_amount x = pay_amount p \<and>
       (\<exists>c\<in>set (charges d). ch_status c = Charged \<and> ch_key c = pay_key p \<and> ch_amount c = pr_amount x \<and>
          pr_charge x = charge_name (ch_id c))) \<and>
     (\<forall>y\<in>set (provider_refunds d). pr_charge y = pr_charge x \<longrightarrow> y = x)"
proof -
  have inv: "books_inv d" using books_machine.inv_reachable [OF reach] .
  note ids = books_parts(1) [OF inv]
  obtain f p c where t: "f \<in> set (refunds d)" "p \<in> set (payments d)" "c \<in> set (charges d)"
    "pr_key x = refund_key (rf_id f)" "rf_payment f = pay_id p" "order_is (pay_order p) Cancelled d"
    "pr_amount x = pay_amount p" "ch_status c = Charged" "ch_key c = pay_key p" "ch_amount c = pay_amount p"
    "pr_charge x = charge_name (ch_id c)"
    using pay_back_traced [OF inv x] by blast
  have "y = x" if y: "y \<in> set (provider_refunds d)" and same: "pr_charge y = pr_charge x" for y
  proof -
    obtain g q b where u: "g \<in> set (refunds d)" "q \<in> set (payments d)" "b \<in> set (charges d)"
      "pr_key y = refund_key (rf_id g)" "rf_payment g = pay_id q" "ch_key b = pay_key q"
      "pr_charge y = charge_name (ch_id b)"
      using pay_back_traced [OF inv y] by blast
    have "b = c" using distinct_key_eq [of ch_id "charges d" b c] ids u(3,7) t(3,11) same by (simp add: ids_inv_def)
    then have "q = p" using payment_key_unique [OF ids u(2) t(2)] u(6) t(9) by simp
    then have "g = f" using refund_unique(1) [OF ids u(1) t(1)] u(5) t(5) by simp
    then show ?thesis
      using distinct_key_eq [of pr_key "provider_refunds d" y x] ids y x u(4) t(4) by (simp add: ids_inv_def)
  qed
  with t show ?thesis by (metis (no_types))
qed

theorem money_goes_back_once_witness:
  "\<exists>p\<in>set (payments (after_jobs [buy, pay_it, Cancel 1, ReturnMoney (new_refund_worker []) {}])).
     order_is (pay_order p) Cancelled (after_jobs [buy, pay_it, Cancel 1, ReturnMoney (new_refund_worker []) {}]) \<and> pay_amount p = 1000"
proof -
  let ?x = "\<lparr>pr_id = 1, pr_key = ''refund-1'', pr_charge = ''ch_1'', pr_amount = 1000\<rparr>"
  have "?x \<in> set (provider_refunds (after_jobs [buy, pay_it, Cancel 1, ReturnMoney (new_refund_worker []) {}]))" by code_simp
  from money_goes_back_once [OF after_jobs_reachable this] show ?thesis by auto
qed





section \<open>Stock, orders and events\<close>

text \<open>
  C10: Units of stock are neither made nor lost. From the migrated database to any state the service
  can reach, for every product the units in stock plus the units held by the items of orders that are not
  cancelled are what they were at the start, no product's stock is ever negative, and every held item has a positive quantity.
\<close>

theorem stock_is_conserved:
  assumes "initial_db d0" and "sys_step\<^sup>*\<^sup>* d0 d"
  shows "stock_of pid d + reserved pid d = stock_of pid d0 \<and> (\<forall>p\<in>set (products d). 0 \<le> p_stock p) \<and>
    (\<forall>i\<in>set (order_items d). 0 < oi_quantity i)"
proof -
  have start: "shop_inv d0" by (rule initial_shop [OF assms(1)])
  have "reserved pid d0 = 0" using assms(1) by (auto simp: initial_db_def empty_db_def reserved_def)
  then have "units pid d0 = stock_of pid d0" by (simp add: units_def)
  moreover have "units pid d = units pid d0" by (rule steps_units [OF assms(2) start])
  moreover have "shop_inv d" by (rule stock_machine.inv_steps [OF assms(2) start])
  ultimately show ?thesis by (simp add: units_def shop_inv_def item_ok_def)
qed

lemma after_jobs_steps: "sys_step\<^sup>*\<^sup>* demo_db (after_jobs js)"
proof -
  obtain r w' where run: "serve_all js (quiet_world demo_db) = (r, w')" by (cases "serve_all js (quiet_world demo_db)")
  have "sound demo_db" by (rule requests_machine.inv_reachable [OF demo_reachable])
  from runs_result [OF runs_serve_all quiet_steady quiet_outside this run]
  show ?thesis by (simp add: after_jobs_def run)
qed

theorem stock_is_conserved_witness:
  "stock_of 7 (after_jobs [buy]) = 1 \<and> reserved 7 (after_jobs [buy]) = 2"
proof -
  have "stock_of 7 (after_jobs [buy]) = 1" and "stock_of 7 demo_db = 3" by code_simp+
  with stock_is_conserved [OF demo_initial after_jobs_steps, of 7 "[buy]"] show ?thesis by simp
qed

lemma runs_create_again:
  "runs sys_step V (\<lambda>d. ordered_before key d = Some oid) (create_order_svc items key)
     (\<lambda>r d. r = (oid, True) \<and> ordered_before key d = Some oid) (\<lambda>e d. ordered_before key d = Some oid)"
proof (rule runs_served [OF served_create stable_key])
  fix d r d' d'' and e :: gerr
  assume key: "ordered_before key d = Some oid" and eff: "created_eff items key d r d'"
  then have same: "r = (oid, True) \<and> d' = d"
    by (auto simp: created_eff_def placed_eff_def create_eff_def split: sum.splits if_splits)
  then show "sys_step\<^sup>*\<^sup>* d d'" by simp
  assume "sys_step\<^sup>*\<^sup>* d' d''"
  with same key show "r = (oid, True) \<and> ordered_before key d'' = Some oid" "ordered_before key d'' = Some oid"
    using stableD [OF stable_key key] by auto
qed

lemma runs_create_orders_again:
  "runs sys_step V (\<lambda>d. ordered_before key d = Some oid) (create_orders callers items key)
     (\<lambda>rs d. length rs = length callers \<and> (\<forall>x. Inr x \<in> set rs \<longrightarrow> x = (oid, True)) \<and> ordered_before key d = Some oid)
     (\<lambda>e d. False)"
  unfolding create_orders_def
proof (rule runs_attempt [OF runs_result_of [OF runs_create_again, where E = "\<lambda>_ _. False"] runs_fail])
  fix r :: "gerr + int \<times> bool"
  show "runs sys_step V
      (\<lambda>d. case r of Inl e \<Rightarrow> ordered_before key d = Some oid | Inr x \<Rightarrow> x = (oid, True) \<and> ordered_before key d = Some oid)
      (ret (deliver callers r))
      (\<lambda>rs d. length rs = length callers \<and> (\<forall>x. Inr x \<in> set rs \<longrightarrow> x = (oid, True)) \<and> ordered_before key d = Some oid)
      (\<lambda>e d. False)"
    by (cases r) (auto intro!: runs_ret dest: deliver_Inr)
qed

text \<open>
  C11: Creating an order is idempotent. Once a non-empty key names an order, every later request with this key that
  returns a result returns that order and that it existed before, however the cart differs, however many
  requests share the call and whichever of them have left, whatever other requests, replicas and workers do in between and whichever
  calls fail; each of them gets a result or an error; and the key goes on naming this order.
\<close>

theorem create_again_returns_the_order:
  assumes "ordered_before key d = Some oid" and "steady sys_step V" and "outside V d w"
    and run: "create_orders callers items key w = (r, w')"
  shows "(\<exists>rs. r = Inr rs \<and> length rs = length callers \<and> (\<forall>x. Inr x \<in> set rs \<longrightarrow> x = (oid, True))) \<and>
    ordered_before key (db w') = Some oid"
  using runs_result [OF runs_create_orders_again assms(2,3,1) run] by (cases r) auto

theorem create_again_returns_the_order_witness:
  "\<exists>rs w'. create_orders [None, Some DeadlineExceeded] [\<lparr>ci_product = 7, ci_quantity = 1\<rparr>] ''k1''
     (quiet_world (after_jobs [buy])) = (Inr rs, w') \<and> rs = [Inr (1, True), Inl DeadlineExceeded] \<and>
     ordered_before ''k1'' (db w') = Some 1"
proof -
  let ?m = "create_orders [None, Some DeadlineExceeded] [\<lparr>ci_product = 7, ci_quantity = 1\<rparr>] ''k1''
     (quiet_world (after_jobs [buy]))"
  obtain r w' where run: "?m = (r, w')" by (cases ?m)
  have "fst ?m = Inr [Inr (1, True), Inl DeadlineExceeded]" by code_simp
  then have r: "r = Inr [Inr (1, True), Inl DeadlineExceeded]" by (simp add: run)
  have "ordered_before ''k1'' (after_jobs [buy]) = Some 1" by code_simp
  from create_again_returns_the_order [OF this quiet_steady quiet_outside run] show ?thesis
    unfolding run r by blast
qed

text \<open>
  C12: No event is lost before Kafka took it. Whatever step the service makes, an event that is in the outbox
  stays there, with its aggregate, type and payload, or is copied into the dead letter table, unless it was
  published already; so along any run from the migrated database, an unpublished event is found again after the next step.
\<close>

theorem no_event_is_lost:
  assumes "reachable initial_db sys_step d" and "sys_step d d'" and "r \<in> set (outbox d)" and "ob_published r = None"
  shows "(\<exists>s\<in>set (outbox d'). ob_id s = ob_id r \<and> ob_aggregate s = ob_aggregate r \<and> ob_type s = ob_type r \<and>
       ob_payload s = ob_payload r) \<or>
     (\<exists>q\<in>set (outbox_dlq d'). dl_aggregate q = ob_aggregate r \<and> dl_type q = ob_type r \<and> dl_payload q = ob_payload r)"
proof -
  have "queue_inv d" using queue_machine.inv_reachable [OF assms(1)] .
  with step_events [OF assms(2,3)] assms(4) show ?thesis
    by (auto simp: event_kept_def same_event_def)
qed

theorem no_event_is_lost_witness:
  "\<exists>s\<in>set (outbox (after_jobs [buy])). ob_aggregate s = 1"
proof -
  let ?r = "new_outbox 1 1 ''order_created'' [(''order_id'', 1)] 0"
  let ?d = "after_jobs [buy]"
  have r: "?r \<in> set (outbox ?d)" by code_simp
  have st: "sys_step ?d (?d\<lparr>now := now ?d\<rparr>)" by (rule clock) simp
  have "outbox_dlq ?d = []" by code_simp
  with no_event_is_lost [OF after_jobs_reachable st r] show ?thesis by auto
qed

text \<open>
  C15: A payment on record keeps its number, order, amount and key for ever, moves only along the allowed
  transitions, and once it is no longer pending keeps the charge it is held under.
\<close>

theorem payment_rows_last:
  assumes "reachable initial_db sys_step d" and "sys_step\<^sup>*\<^sup>* d d'" and "p \<in> set (payments d)"
  shows "\<exists>q\<in>set (payments d'). pay_id q = pay_id p \<and> pay_order q = pay_order p \<and> pay_amount q = pay_amount p \<and>
    pay_key q = pay_key p \<and> can_transition_payment\<^sup>*\<^sup>* (pay_status p) (pay_status q) \<and>
    (pay_status p \<noteq> PaymentPending \<longrightarrow> pay_provider q = pay_provider p)"
  using payments_last_steps [OF assms(2) books_machine.inv_reachable [OF assms(1)]] assms(3)
  unfolding payments_last_def later_def by blast

theorem payment_rows_last_witness:
  "\<exists>q\<in>set (payments (after_jobs [buy, pay_it])). pay_id q = 1 \<and> pay_key q = Some ''p1''"
proof -
  let ?p = "(new_payment 1 1 1000 ''p1'' 0)\<lparr>pay_status := PaymentSucceeded, pay_provider := Some ''ch_1''\<rparr>"
  have "?p \<in> set (payments (after_jobs [buy, pay_it]))" by code_simp
  from payment_rows_last [OF after_jobs_reachable rtranclp.rtrancl_refl this] show ?thesis
    by (elim bexE, intro bexI) (simp_all add: null_if_empty_def)
qed

section \<open>The audit\<close>


text \<open>A replica dies between the charge and its record; the audit that follows records the charge.\<close>

abbreviation crash_paying :: job where
  "crash_paying \<equiv> PayOrder 1 ''p1'' False True"

abbreviation audit_all :: job where
  "audit_all \<equiv> Audit show_int (\<lambda>ks. ks) 5 10 10"


text \<open>
  C14: Stuck payments are settled. From a reachable state, with the provider up and no failure in the way, one round
  of the worker for stuck payments returns, and every payment of its batch that asked the provider under a key, and
  whose charge the provider knows or that is past the waiting time, then has the status of the provider's
  record: succeeded when the key was charged, failed when it was declined, expired when there is no charge.
\<close>

theorem stuck_payments_are_settled:
  assumes "reachable initial_db sys_step d" and "provider_down d \<noteq> Some True"
    and "p \<in> set (payments d)" and "pay_id p \<in> set (stuck_ids cfg locked d)" and "pay_key p = Some key" and "key \<noteq> []"
    and "known_charge key d \<noteq> None \<or> rw_expire_after cfg \<le> now d - pay_created p"
  shows "\<exists>w'. process_stuck cfg charge_status transition age_text locked (quiet_world d) = (Inr (), w') \<and>
    (\<exists>q\<in>set (payments (db w')). pay_id q = pay_id p \<and> pay_status q = verdict (known_charge key d))"
proof -
  have "books_inv d" using assms(1) by (rule books_machine.inv_reachable)
  from quiet_run [OF round_settles [OF this assms(2-7)]] show ?thesis by (auto simp: status_at_def)
qed

text \<open>The replica died between the charge and its record; an hour later the worker records the charge.\<close>

theorem stuck_payments_are_settled_witness:
  "\<exists>w'. process_stuck (new_reconcile_worker []) charge_status transition show_int {} (quiet_world ((after_jobs [buy, crash_paying])\<lparr>now := hours 1\<rparr>)) = (Inr (), w') \<and>
    (\<exists>q\<in>set (payments (db w')). pay_id q = 1 \<and> pay_status q = PaymentSucceeded)"
proof -
  let ?d = "after_jobs [buy, crash_paying]"
  let ?e = "?d\<lparr>now := hours 1\<rparr>"
  let ?p = "new_payment 1 1 1000 ''p1'' 0"
  have "now ?d \<le> hours 1" by code_simp
  then have reach: "reachable initial_db sys_step ?e"
    by (rule reachable.step [OF after_jobs_reachable clock])
  have up: "provider_down ?e \<noteq> Some True" by code_simp
  have stuck: "?p \<in> set (payments ?e)" "pay_id ?p \<in> set (stuck_ids (new_reconcile_worker []) {} ?e)" "pay_key ?p = Some ''p1''" by code_simp+
  have known: "known_charge ''p1'' ?e \<noteq> None" and truth: "verdict (known_charge ''p1'' ?e) = PaymentSucceeded"
    and one: "pay_id ?p = 1" by code_simp+
  from stuck_payments_are_settled [OF reach up stuck list.distinct(2) disjI1 [OF known]]
  show ?thesis unfolding truth one .
qed

text \<open>
  C23: One replica per period. When two claims of the same job win, on whatever replicas and with whatever
  other work between them, the second one wins at least the first one's period later, by the database's clock.
\<close>

theorem one_replica_per_period:
  assumes "reachable initial_db sys_step d1" and "steady sys_step V" and "0 \<le> every" and "0 \<le> every'"
    and "outside V d1 w1" and "try_claim name every w1 = (Inr True, w1')"
    and "sys_step\<^sup>*\<^sup>* (db w1') d2"
    and "outside V d2 w2" and "try_claim name every' w2 = (Inr True, w2')"
  shows "now (db w1') + every \<le> now (db w2')"
proof -
  have "held_until name (now (db w1') + every) (db w1')"
    using runs_result [OF runs_claim [OF assms(3)] assms(2,5) lease_machine.inv_reachable [OF assms(1)] assms(6)]
    by simp
  from stableD [OF stable_held this assms(7)] have "held_until name (now (db w1') + every) d2" .
  from runs_result [OF runs_claim_again [OF assms(4)] assms(2,8) this assms(9)] show ?thesis by simp
qed

theorem one_replica_per_period_witness:
  "\<exists>w w'. try_claim ''reconciliation'' 10 w = (Inr True, w') \<and> 10 \<le> now (db w')"
proof -
  let ?claim = "try_claim ''reconciliation'' 10"
  let ?w1 = "quiet_world demo_db"
  let ?d2 = "(db (snd (?claim ?w1)))\<lparr>now := 12\<rparr>"
  have "fst (?claim ?w1) = Inr True" "fst (?claim (quiet_world ?d2)) = Inr True" by code_simp+
  then have one: "?claim ?w1 = (Inr True, snd (?claim ?w1))"
    and two: "?claim (quiet_world ?d2) = (Inr True, snd (?claim (quiet_world ?d2)))"
    by (simp_all add: prod_eq_iff)
  have start: "now (db (snd (?claim ?w1))) = 0" by code_simp
  then have "sys_step (db (snd (?claim ?w1))) ?d2" by (simp add: clock)
  then have wait: "sys_step\<^sup>*\<^sup>* (db (snd (?claim ?w1))) ?d2" by (rule r_into_rtranclp)
  from one_replica_per_period [OF demo_reachable quiet_steady _ _ quiet_outside one wait
      quiet_outside two] start two
  show ?thesis by (intro exI conjI) simp_all
qed

end
